(* ===== verification/Go_Prelude.thy ===== *)
theory Go_Prelude
  imports Main "HOL-Library.Word" "HOL-Library.AList" "HOL-Library.Sublist"
begin

unbundle bit_operations_syntax

text \<open>
  The prelude of the development: the types that stand for Go's built-in types, the parts of
  Go's standard library the sources call on strings and byte slices (\<open>strings.Split\<close>,
  \<open>strings.Contains\<close>, \<open>hex.EncodeToString\<close>, \<open>binary.Write\<close> and \<open>binary.Read\<close> of
  fixed-width integers), and generic lemmas on association lists, which model Go maps. A Go map
  is an association list with distinct keys: \<open>map_of\<close> looks a key up, \<open>AList.update\<close> stores,
  \<open>AList.delete\<close> deletes, \<open>length\<close> is Go's \<open>len\<close>, and a \<open>range\<close> loop is a traversal of
  the list. Go leaves the iteration order of a map open, so statements about such loops are
  about the set of what the loop visits.
\<close>

section \<open>Types and automation shared by all components\<close>

type_synonym byte = "8 word"
type_synonym bytes = "byte list"
type_synonym uint32 = "32 word"
type_synonym uint64 = "64 word"
type_synonym ('k, 'v) gomap = "('k \<times> 'v) list"

text \<open>Collections the components add to and their proofs use with \<open>simp add:\<close>.\<close>

named_theorems gomap_simps \<open>lookup, update, delete and size of Go maps\<close>
named_theorems op_defs \<open>definitions of the operations of the components\<close>
named_theorems inv_defs \<open>definitions of the invariants of the components\<close>

section \<open>Go maps as association lists\<close>

definition wf_map :: "('k, 'v) gomap \<Rightarrow> bool" where
  "wf_map m = distinct (map fst m)"

lemma wf_map_Nil [simp, intro]: "wf_map []"
  by (simp add: wf_map_def)

lemma wf_map_update [simp, intro]: "wf_map m \<Longrightarrow> wf_map (AList.update k v m)"
  by (simp add: wf_map_def distinct_update)

lemma wf_map_delete [simp, intro]: "wf_map m \<Longrightarrow> wf_map (AList.delete k m)"
  by (simp add: wf_map_def distinct_delete)

lemma lookup_update [gomap_simps]:
  "map_of (AList.update k v m) k' = (if k' = k then Some v else map_of m k')"
  by (simp add: update_conv')

lemma lookup_delete [gomap_simps]:
  "map_of (AList.delete k m) k' = (if k' = k then None else map_of m k')"
  by (simp add: delete_conv')

lemma update_twice [gomap_simps]: "AList.update k v (AList.update k w m) = AList.update k v m"
  by (induction m) auto

lemma keys_update [gomap_simps]: "fst ` set (AList.update k v m) = insert k (fst ` set m)"
  by (simp add: dom_update)

lemma keys_delete [gomap_simps]: "fst ` set (AList.delete k m) = fst ` set m - {k}"
  by (induction m) auto

lemma lookup_None_key: "map_of m k = None \<longleftrightarrow> k \<notin> fst ` set m"
  by (rule map_of_eq_None_iff)

lemma lookup_Some_key: "map_of m k = Some v \<Longrightarrow> k \<in> fst ` set m"
  by (force dest: map_of_SomeD)

lemma update_new_append: "map_of m k = None \<Longrightarrow> AList.update k v m = m @ [(k, v)]"
  by (induction m) (auto split: if_splits)

lemma length_update [gomap_simps]:
  "length (AList.update k v m) = (if map_of m k = None then Suc (length m) else length m)"
  by (induction m) (auto split: if_splits)

lemma length_delete_le: "length (AList.delete k m) \<le> length m"
  by (rule length_delete_le)

lemma length_update_le: "length (AList.update k v m) \<le> Suc (length m)"
  by (simp add: length_update)

lemma set_update_cases:
  "(k', v') \<in> set (AList.update k v m) \<Longrightarrow> (k' = k \<and> v' = v) \<or> (k', v') \<in> set m"
  by (induction m) (auto split: if_splits)

lemma wf_map_lookup_iff: "wf_map m \<Longrightarrow> map_of m k = Some v \<longleftrightarrow> (k, v) \<in> set m"
  by (simp add: wf_map_def)

lemma wf_map_card_keys: "wf_map m \<Longrightarrow> card (fst ` set m) = length m"
  using distinct_card[of "map fst m"] by (simp add: wf_map_def)

text \<open>A property of every value of a map survives an update with a value that has it.\<close>

definition all_vals :: "('v \<Rightarrow> bool) \<Rightarrow> ('k, 'v) gomap \<Rightarrow> bool" where
  "all_vals P m = list_all (\<lambda>kv. P (snd kv)) m"

lemma all_vals_Nil [simp, intro]: "all_vals P []"
  by (simp add: all_vals_def)

lemma all_vals_update [intro]: "all_vals P m \<Longrightarrow> P v \<Longrightarrow> all_vals P (AList.update k v m)"
  by (auto simp: all_vals_def list_all_iff dest!: set_update_cases)

lemma all_vals_delete [intro]: "all_vals P m \<Longrightarrow> all_vals P (AList.delete k m)"
  by (auto simp: all_vals_def list_all_iff AList.delete_eq)

lemma all_vals_lookup: "all_vals P m \<Longrightarrow> map_of m k = Some v \<Longrightarrow> P v"
  by (auto simp: all_vals_def list_all_iff dest!: map_of_SomeD)

text \<open>The same for a property of keys and values together.\<close>

definition all_entries :: "('k \<Rightarrow> 'v \<Rightarrow> bool) \<Rightarrow> ('k, 'v) gomap \<Rightarrow> bool" where
  "all_entries P m = list_all (\<lambda>(k, v). P k v) m"

lemma all_entries_Nil [simp, intro]: "all_entries P []"
  by (simp add: all_entries_def)

lemma all_entries_update [intro]: "all_entries P m \<Longrightarrow> P k v \<Longrightarrow> all_entries P (AList.update k v m)"
  by (auto simp: all_entries_def list_all_iff dest!: set_update_cases)

lemma all_entries_delete [intro]: "all_entries P m \<Longrightarrow> all_entries P (AList.delete k m)"
  by (auto simp: all_entries_def list_all_iff AList.delete_eq)

lemma all_entries_lookup: "all_entries P m \<Longrightarrow> map_of m k = Some v \<Longrightarrow> P k v"
  by (auto simp: all_entries_def list_all_iff dest!: map_of_SomeD)

section \<open>Strings: splitting and searching\<close>

text \<open>
  \<open>strings.Split s sep\<close> for a non-empty separator: cut at the leftmost occurrence, go on after
  it. The accumulator holds the current field, reversed.
\<close>

function split_aux :: "'a list \<Rightarrow> 'a list \<Rightarrow> 'a list \<Rightarrow> 'a list list" where
  "split_aux sep acc [] = [rev acc]"
| "split_aux sep acc (c # cs) =
     (if sep \<noteq> [] \<and> prefix sep (c # cs)
      then rev acc # split_aux sep [] (drop (length sep) (c # cs))
      else split_aux sep (c # acc) cs)"
  by pat_completeness auto
termination
  by (relation "measure (\<lambda>(sep, acc, s). length s)") auto

definition strings_split :: "'a list \<Rightarrow> 'a list \<Rightarrow> 'a list list" where
  "strings_split s sep = split_aux sep [] s"

fun strings_join :: "'a list \<Rightarrow> 'a list list \<Rightarrow> 'a list" where
  "strings_join sep [] = []"
| "strings_join sep [x] = x"
| "strings_join sep (x # y # xs) = x @ sep @ strings_join sep (y # xs)"

lemma split_aux_not_Nil: "split_aux sep acc s \<noteq> []"
  by (induction sep acc s rule: split_aux.induct) auto

lemma split_not_Nil [simp]: "strings_split s sep \<noteq> []"
  by (simp add: strings_split_def split_aux_not_Nil)

lemma join_Cons: "xs \<noteq> [] \<Longrightarrow> strings_join sep (x # xs) = x @ sep @ strings_join sep xs"
  by (cases xs) auto

lemma join_split_aux: "strings_join sep (split_aux sep acc s) = rev acc @ s"
proof (induction sep acc s rule: split_aux.induct)
  case (1 sep acc)
  then show ?case by simp
next
  case (2 sep acc c cs)
  show ?case
  proof (cases "sep \<noteq> [] \<and> prefix sep (c # cs)")
    case True
    then obtain zs where "c # cs = sep @ zs" by (auto elim: prefixE)
    with True "2.IH"(1) have "strings_join sep (split_aux sep [] zs) = zs" by simp
    moreover have "drop (length sep) (c # cs) = zs"
      using \<open>c # cs = sep @ zs\<close> by simp
    then have "split_aux sep acc (c # cs) = rev acc # split_aux sep [] zs"
      using True by (simp del: drop_Cons' drop_Suc_Cons)
    ultimately show ?thesis
      using \<open>c # cs = sep @ zs\<close> by (simp add: join_Cons split_aux_not_Nil)
  next
    case False
    with "2.IH"(2) show ?thesis by auto
  qed
qed

lemma join_split: "strings_join sep (strings_split s sep) = s"
  by (simp add: strings_split_def join_split_aux)

text \<open>Where the separator is absent, and where it is a single character.\<close>

lemma split_aux_no_sep: "\<not> sublist sep s \<Longrightarrow> split_aux sep acc s = [rev acc @ s]"
  by (induction sep acc s rule: split_aux.induct) (auto simp: sublist_Cons_right)

lemma split_no_sep: "\<not> sublist sep s \<Longrightarrow> strings_split s sep = [s]"
  by (simp add: strings_split_def split_aux_no_sep)

lemma split_aux_char_append:
  "c \<notin> set x \<Longrightarrow> split_aux [c] acc (x @ c # y) = (rev acc @ x) # split_aux [c] [] y"
  by (induction x arbitrary: acc) auto

lemma length_split_aux_char: "length (split_aux [c] acc s) = Suc (count_list s c)"
  by (induction s arbitrary: acc) auto

lemma split_char_pair:
  "c \<notin> set x \<Longrightarrow> c \<notin> set y \<Longrightarrow> strings_split (x @ c # y) [c] = [x, y]"
  by (simp add: strings_split_def split_aux_char_append split_aux_no_sep sublist_Cons_right
      flip: in_set_conv_decomp) (simp add: split_aux_no_sep sublist_def in_set_conv_decomp)

lemma length_split_char: "length (strings_split s [c]) = Suc (count_list s c)"
  by (simp add: strings_split_def length_split_aux_char)

text \<open>\<open>strings.Contains s sub\<close>.\<close>

definition strings_contains :: "'a list \<Rightarrow> 'a list \<Rightarrow> bool" where
  "strings_contains s sub = list_ex (prefix sub) (suffixes s)"

lemma strings_contains_iff: "strings_contains s sub \<longleftrightarrow> sublist sub s"
  by (auto simp: strings_contains_def list_ex_iff sublist_altdef')

section \<open>Fixed-width integers on the wire\<close>

text \<open>
  \<open>binary.Write\<close> and \<open>binary.Read\<close> of a \<open>uint32\<close> in the big-endian order
  (\<open>globalOrder\<close> of network/encoding.go).
\<close>

definition be32_encode :: "uint32 \<Rightarrow> bytes" where
  "be32_encode w = [ucast (drop_bit 24 w), ucast (drop_bit 16 w), ucast (drop_bit 8 w), ucast w]"

fun be32_decode :: "bytes \<Rightarrow> (uint32 \<times> bytes) option" where
  "be32_decode (a # b # c # d # rest) =
     Some (push_bit 24 (ucast a) OR push_bit 16 (ucast b) OR push_bit 8 (ucast c) OR ucast d, rest)"
| "be32_decode _ = None"

lemma unat_of_nat_uint32: "n < 2 ^ 32 \<Longrightarrow> unat (of_nat n :: uint32) = n"
  by (simp add: unat_of_nat)

lemma unat_add_of_nat_uint32: "unat w + n < 2 ^ 32 \<Longrightarrow> unat ((w :: uint32) + of_nat n) = unat w + n"
  by (simp add: unat_word_ariths unat_of_nat)

lemma ucast_of_nat_uint32: "n < 2 ^ 32 \<Longrightarrow> ucast (of_nat n :: uint32) = (of_nat n :: uint64)"
  by (simp add: unsigned_of_nat take_bit_nat_eq_self)

lemma length_be32_encode [simp]: "length (be32_encode w) = 4"
  by (simp add: be32_encode_def)

lemma be32_decode_encode [simp]: "be32_decode (be32_encode w @ rest) = Some (w, rest)"
proof -
  have "bit (push_bit 24 (ucast (ucast (drop_bit 24 w) :: byte)) OR
      push_bit 16 (ucast (ucast (drop_bit 16 w) :: byte)) OR
      push_bit 8 (ucast (ucast (drop_bit 8 w) :: byte)) OR ucast (ucast w :: byte) :: uint32) n
      = bit w n" if "n < 32" for n
    using that by (cases "n < 8"; cases "n < 16"; cases "n < 24") (auto simp: bit_simps)
  then show ?thesis
    by (auto simp: be32_encode_def intro: bit_word_eqI)
qed

lemma be32_decode_None_iff: "be32_decode bs = None \<longleftrightarrow> length bs < 4"
  by (cases bs rule: be32_decode.cases) auto

section \<open>Strings as bytes, and hexadecimal\<close>

text \<open>
  \<open>[]byte(s)\<close>, \<open>string(b)\<close>, and \<open>hex.EncodeToString\<close>; a \<open>char\<close> of HOL is a byte.
\<close>

definition string_bytes :: "string \<Rightarrow> bytes" where
  "string_bytes s = map (\<lambda>c. of_nat (of_char c)) s"

definition bytes_string :: "bytes \<Rightarrow> string" where
  "bytes_string b = map (\<lambda>w. char_of (unat w)) b"

lemma bytes_string_bytes [simp]: "bytes_string (string_bytes s) = s"
proof -
  have "unat (of_nat (of_char c) :: byte) = of_char c" for c :: char
    using of_char_mod_256[of c, where ?'a = nat] by (simp add: unat_of_nat)
  then show ?thesis by (simp add: bytes_string_def string_bytes_def comp_def)
qed

lemma length_string_bytes [simp]: "length (string_bytes s) = length s"
  by (simp add: string_bytes_def)

lemma string_bytes_inject [simp]: "string_bytes s = string_bytes t \<longleftrightarrow> s = t"
  by (metis bytes_string_bytes)

definition hex_digits :: string where "hex_digits = ''0123456789abcdef''"

definition hex_byte :: "byte \<Rightarrow> string" where
  "hex_byte b = [hex_digits ! unat (drop_bit 4 b), hex_digits ! unat (b AND 15)]"

definition hex_encode :: "bytes \<Rightarrow> string" where
  "hex_encode bs = concat (map hex_byte bs)"

lemma length_hex_encode [simp]: "length (hex_encode bs) = 2 * length bs"
  by (induction bs) (auto simp: hex_encode_def hex_byte_def)

end
