(* ===== verification/Event_Bus.thy ===== *)
theory Event_Bus
  imports Go_Prelude
begin

text \<open>
  event/event.go: the publish and subscribe bus of the network router. A dispatcher maps an
  event name to the slice of its receivers. A receiver is an interface value that Go compares by
  identity, so the model keeps its type open (\<open>'r\<close>). Delivering an event calls the receivers
  in turn; the model returns the calls as the list of receivers in the order they are called.
\<close>

section \<open>The dispatcher\<close>

record 'r simpleDispatcher =
  registered :: "(string, 'r list) gomap"

definition NewSimpleDispatcher :: "'r simpleDispatcher" where
  "NewSimpleDispatcher = \<lparr>registered = []\<rparr>"

text \<open>Reading a missing key of a Go map gives the nil slice.\<close>

definition receivers :: "'r simpleDispatcher \<Rightarrow> string \<Rightarrow> 'r list" where
  "receivers s e = (case map_of (registered s) e of None \<Rightarrow> [] | Some arr \<Rightarrow> arr)"

definition Register :: "'r simpleDispatcher \<Rightarrow> string \<Rightarrow> 'r \<Rightarrow> 'r simpleDispatcher" where
  "Register s e p =
     (if List.member (receivers s e) p then s
      else s\<lparr>registered := AList.update e (receivers s e @ [p]) (registered s)\<rparr>)"

text \<open>The position of the first receiver equal to \<open>p\<close>, the loop's \<open>idx\<close>.\<close>

fun index_of :: "'r \<Rightarrow> 'r list \<Rightarrow> nat option" where
  "index_of p [] = None"
| "index_of p (pp # arr) = (if pp = p then Some 0 else map_option Suc (index_of p arr))"

text \<open>
  \<open>arr[idx] = arr[len-1]; arr = arr[:len-1]\<close>: the last receiver takes the place of the
  removed one, so the order of the remaining receivers changes.
\<close>

definition swap_remove :: "'r list \<Rightarrow> nat \<Rightarrow> 'r list" where
  "swap_remove arr idx = butlast (arr[idx := arr ! (length arr - 1)])"

definition Unregister :: "'r simpleDispatcher \<Rightarrow> string \<Rightarrow> 'r \<Rightarrow> 'r simpleDispatcher" where
  "Unregister s e p =
     (case map_of (registered s) e of
        None \<Rightarrow> s
      | Some arr \<Rightarrow>
          (case index_of p arr of
             None \<Rightarrow> s
           | Some idx \<Rightarrow>
               s\<lparr>registered := AList.update e (swap_remove arr idx) (registered s)\<rparr>))"

text \<open>\<open>Publish\<close>: the calls of \<open>Receive\<close>, in order.\<close>

definition Publish :: "'r simpleDispatcher \<Rightarrow> string \<Rightarrow> 'r list" where
  "Publish s e = receivers s e"

section \<open>Removing by swapping with the last element\<close>

lemma index_of_Some:
  "index_of p arr = Some i \<Longrightarrow> i < length arr \<and> arr ! i = p"
  by (induction arr arbitrary: i) (auto split: if_splits)

lemma index_of_None: "index_of p arr = None \<longleftrightarrow> p \<notin> set arr"
  by (induction arr) auto

lemma set_swap_remove:
  assumes "distinct arr" and "i < length arr"
  shows "set (swap_remove arr i) = set arr - {arr ! i}"
    and "distinct (swap_remove arr i)"
proof -
  obtain xs x where arr: "arr = xs @ [x]"
    using assms(2) by (cases arr rule: rev_cases) auto
  have *: "swap_remove arr i = (if i < length xs then xs[i := x] else xs)"
    using assms(2) by (simp add: swap_remove_def arr list_update_append butlast_append split: nat.split)
  have "distinct xs" "x \<notin> set xs" using assms(1) by (auto simp: arr)
  moreover have "set (xs[i := x]) = insert x (set xs - {xs ! i})" if "i < length xs"
    using that \<open>distinct xs\<close> by (simp add: set_update_distinct)
  ultimately show "set (swap_remove arr i) = set arr - {arr ! i}"
    and "distinct (swap_remove arr i)"
    using assms(2) unfolding * by (auto simp: arr nth_append distinct_list_update)
qed

section \<open>The interface of a publisher and its abstract specification\<close>

text \<open>
  What \<open>event.Publisher\<close> promises: a receiver is in the set an event is published to from its
  registration to its removal. The specification of a sequence of operations is the function
  \<open>subscribers\<close> on sets.
\<close>

datatype 'r bus_op = Reg string 'r | Unreg string 'r

fun sub_step :: "(string \<Rightarrow> 'r set) \<Rightarrow> 'r bus_op \<Rightarrow> string \<Rightarrow> 'r set" where
  "sub_step f (Reg e p) = f(e := insert p (f e))"
| "sub_step f (Unreg e p) = f(e := f e - {p})"

definition subscribers :: "'r bus_op list \<Rightarrow> string \<Rightarrow> 'r set" where
  "subscribers ops = foldl sub_step (\<lambda>_. {}) ops"

locale publisher =
  fixes new_bus :: "'s"
    and reg :: "'s \<Rightarrow> string \<Rightarrow> 'r \<Rightarrow> 's"
    and unreg :: "'s \<Rightarrow> string \<Rightarrow> 'r \<Rightarrow> 's"
    and calls :: "'s \<Rightarrow> string \<Rightarrow> 'r list"
    and bus_ok :: "'s \<Rightarrow> bool"
  assumes new_ok: "bus_ok new_bus"
    and new_calls: "calls new_bus e = []"
    and reg_ok: "bus_ok s \<Longrightarrow> bus_ok (reg s e p)"
    and unreg_ok: "bus_ok s \<Longrightarrow> bus_ok (unreg s e p)"
    and ok_distinct: "bus_ok s \<Longrightarrow> distinct (calls s e)"
    and reg_calls: "bus_ok s \<Longrightarrow>
      set (calls (reg s e p) e') = (if e' = e then insert p (set (calls s e)) else set (calls s e'))"
    and unreg_calls: "bus_ok s \<Longrightarrow>
      set (calls (unreg s e p) e') = (if e' = e then set (calls s e) - {p} else set (calls s e'))"
begin

definition op_step :: "'s \<Rightarrow> 'r bus_op \<Rightarrow> 's" where
  "op_step s o1 = (case o1 of Reg e p \<Rightarrow> reg s e p | Unreg e p \<Rightarrow> unreg s e p)"

lemma op_step_sim:
  assumes "bus_ok s"
  shows "bus_ok (op_step s o1)"
    and "(\<lambda>e. set (calls (op_step s o1) e)) = sub_step (\<lambda>e. set (calls s e)) o1"
  using assms by (cases o1; auto simp: op_step_def reg_ok unreg_ok reg_calls unreg_calls fun_eq_iff)+

lemma ops_sim:
  "bus_ok s \<Longrightarrow> bus_ok (foldl op_step s ops) \<and>
     (\<lambda>e. set (calls (foldl op_step s ops) e)) = foldl sub_step (\<lambda>e. set (calls s e)) ops"
  by (induction ops arbitrary: s) (simp_all add: op_step_sim)

lemma calls_subscribers:
  "distinct (calls (foldl op_step new_bus ops) e) \<and>
   set (calls (foldl op_step new_bus ops) e) = subscribers ops e"
  using ops_sim[OF new_ok, of ops] ok_distinct new_calls
  by (auto simp: subscribers_def dest: fun_cong[where x = e])

end

section \<open>The dispatcher implements it\<close>

definition bus_inv :: "'r simpleDispatcher \<Rightarrow> bool" where
  [inv_defs]: "bus_inv s = (wf_map (registered s) \<and> all_vals distinct (registered s))"

lemmas bus_defs = Register_def Unregister_def Publish_def receivers_def NewSimpleDispatcher_def

lemma receivers_distinct: "bus_inv s \<Longrightarrow> distinct (receivers s e)"
  by (auto simp: bus_inv_def receivers_def split: option.splits dest: all_vals_lookup)

lemma Register_inv: "bus_inv s \<Longrightarrow> bus_inv (Register s e p)"
  using receivers_distinct[of s e] by (auto simp: bus_inv_def Register_def)

lemma Unregister_inv: "bus_inv s \<Longrightarrow> bus_inv (Unregister s e p)"
  by (auto simp: bus_inv_def Unregister_def split: option.splits
      dest!: index_of_Some intro!: set_swap_remove(2) all_vals_update elim: all_vals_lookup)

lemma Register_receivers:
  "set (receivers (Register s e p) e') =
     (if e' = e then insert p (set (receivers s e)) else set (receivers s e'))"
  by (auto simp: Register_def receivers_def gomap_simps split: option.splits)

lemma Unregister_receivers:
  assumes "bus_inv s"
  shows "set (receivers (Unregister s e p) e') =
     (if e' = e then set (receivers s e) - {p} else set (receivers s e'))"
proof (cases "map_of (registered s) e")
  case None
  then show ?thesis by (simp add: Unregister_def receivers_def)
next
  case (Some arr)
  then have "distinct arr" using assms by (auto simp: bus_inv_def elim: all_vals_lookup)
  with Some show ?thesis
    by (auto simp: Unregister_def receivers_def lookup_update index_of_None set_swap_remove(1)
        split: option.splits dest!: index_of_Some)
qed

interpretation bus: publisher NewSimpleDispatcher Register Unregister Publish bus_inv
proof (unfold_locales, goal_cases)
  case 1 show ?case by (simp add: bus_inv_def NewSimpleDispatcher_def)
next
  case 2 show ?case by (simp add: bus_defs)
next
  case 3 then show ?case by (rule Register_inv)
next
  case 4 then show ?case by (rule Unregister_inv)
next
  case 5 then show ?case by (simp add: Publish_def receivers_distinct)
next
  case 6 then show ?case by (simp add: Publish_def Register_receivers)
next
  case 7 then show ?case by (simp add: Publish_def Unregister_receivers)
qed

text \<open>A sequence of calls on a fresh dispatcher.\<close>

definition bus_run :: "'r bus_op list \<Rightarrow> 'r simpleDispatcher" where
  "bus_run ops =
     foldl (\<lambda>s o1. case o1 of Reg e p \<Rightarrow> Register s e p | Unreg e p \<Rightarrow> Unregister s e p)
       NewSimpleDispatcher ops"

lemma bus_run_eq: "bus_run ops = foldl bus.op_step NewSimpleDispatcher ops"
  by (simp add: bus_run_def bus.op_step_def[abs_def])

section \<open>Properties of the event bus\<close>

text \<open>
  C25. The bus implements the set-valued specification: after any sequence of registrations
  and removals, publishing an event calls every receiver that is subscribed to it, once, and no
  other, although a removal moves receivers around in the slice.
\<close>

theorem publish_reaches_subscribers:
  "distinct (Publish (bus_run ops) e) \<and> set (Publish (bus_run ops) e) = subscribers ops e"
  unfolding bus_run_eq by (rule bus.calls_subscribers)

end
