(* ===== verification/Net_Address.thy ===== *)
theory Net_Address
  imports Go_Prelude
begin

text \<open>
  network/address.go and \<open>GlobalBind\<close> of network/struct.go: addresses of the form
  \<open>type://host:port\<close>. An \<open>Address\<close> and a \<open>ConnType\<close> are Go strings, so they are strings
  here. The functions of Go's standard library the validation calls (\<open>net.SplitHostPort\<close>,
  \<open>strconv.Atoi\<close>, \<open>net.ParseIP\<close>) are written out as the library of the program's time (Go
  1.8) computes them; of \<open>ParseIP\<close> only whether the result is nil is used.
\<close>

section \<open>Decimal and hexadecimal numbers of the standard library\<close>

definition digit_val :: "char \<Rightarrow> nat option" where
  "digit_val c = (let n = of_char c :: nat in if 48 \<le> n \<and> n \<le> 57 then Some (n - 48) else None)"

definition xdigit_val :: "char \<Rightarrow> nat option" where
  "xdigit_val c =
     (let n = of_char c :: nat
      in if 48 \<le> n \<and> n \<le> 57 then Some (n - 48)
         else if 97 \<le> n \<and> n \<le> 102 then Some (n - 87)
         else if 65 \<le> n \<and> n \<le> 70 then Some (n - 55)
         else None)"

text \<open>\<open>strconv.Atoi\<close>: an optional sign, then decimal digits only, in the range of \<open>int\<close>.\<close>

fun digits_acc :: "nat \<Rightarrow> string \<Rightarrow> nat option" where
  "digits_acc n [] = Some n"
| "digits_acc n (c # cs) =
     (case digit_val c of None \<Rightarrow> None | Some d \<Rightarrow> digits_acc (n * 10 + d) cs)"

definition unsigned_of :: "string \<Rightarrow> nat option" where
  "unsigned_of s = (if s = [] then None else digits_acc 0 s)"

definition int_range :: "int \<Rightarrow> int option" where
  "int_range i = (if - (2 ^ 63) \<le> i \<and> i < 2 ^ 63 then Some i else None)"

definition atoi :: "string \<Rightarrow> int option" where
  "atoi s =
     (case s of
        [] \<Rightarrow> None
      | c # cs \<Rightarrow>
          if c = CHR ''-'' then Option.bind (unsigned_of cs) (\<lambda>n. int_range (- int n))
          else if c = CHR ''+'' then Option.bind (unsigned_of cs) (\<lambda>n. int_range (int n))
          else Option.bind (unsigned_of s) (\<lambda>n. int_range (int n)))"

text \<open>
  \<open>dtoi\<close> and \<open>xtoi\<close> of package net: the number at the head of the string and how many
  characters it takes; they give up on a number that reaches \<open>0xFFFFFF\<close>.
\<close>

fun num_loop :: "(char \<Rightarrow> nat option) \<Rightarrow> nat \<Rightarrow> nat \<Rightarrow> nat \<Rightarrow> string \<Rightarrow> (nat \<times> nat) option" where
  "num_loop dv base n i [] = Some (n, i)"
| "num_loop dv base n i (c # cs) =
     (case dv c of
        None \<Rightarrow> Some (n, i)
      | Some d \<Rightarrow> if n * base + d \<ge> 16777215 then None
                  else num_loop dv base (n * base + d) (Suc i) cs)"

definition num_head :: "(char \<Rightarrow> nat option) \<Rightarrow> nat \<Rightarrow> string \<Rightarrow> (nat \<times> nat) option" where
  "num_head dv base s =
     Option.bind (num_loop dv base 0 0 s) (\<lambda>(n, i). if i = 0 then None else Some (n, i))"

definition dtoi :: "string \<Rightarrow> (nat \<times> nat) option" where
  "dtoi = num_head digit_val 10"

definition xtoi :: "string \<Rightarrow> (nat \<times> nat) option" where
  "xtoi = num_head xdigit_val 16"

section \<open>net.ParseIP: whether a string is an IP address\<close>

fun ipv4_loop :: "nat \<Rightarrow> bool \<Rightarrow> string \<Rightarrow> string option" where
  "ipv4_loop 0 first s = Some s"
| "ipv4_loop (Suc k) first s =
     (if s = [] \<or> (\<not> first \<and> hd s \<noteq> CHR ''.'') then None
      else (let s1 = (if first then s else tl s)
            in case dtoi s1 of
                 None \<Rightarrow> None
               | Some (n, c) \<Rightarrow> if n > 255 then None else ipv4_loop k False (drop c s1)))"

definition parseIPv4_ok :: "string \<Rightarrow> bool" where
  "parseIPv4_ok s = (ipv4_loop 4 True s = Some [])"

text \<open>
  The loop of \<open>parseIPv6\<close> with \<open>k\<close> groups of 16 bits left (\<open>i = 16 - 2 * k\<close> in the
  library) and the position of the ellipsis. It stops with the unread rest, the number of bytes
  filled and the ellipsis, or fails.
\<close>

fun ipv6_loop :: "nat \<Rightarrow> nat option \<Rightarrow> string \<Rightarrow> (string \<times> nat \<times> nat option) option" where
  "ipv6_loop 0 ell s = Some (s, 16, ell)"
| "ipv6_loop (Suc k) ell s =
     (let i = 16 - 2 * Suc k
      in case xtoi s of
           None \<Rightarrow> None
         | Some (n, c) \<Rightarrow>
             if n > 65535 then None
             else if c < length s \<and> s ! c = CHR ''.'' then
               (if ell = None \<and> i \<noteq> 12 then None
                else if i + 4 > 16 then None
                else if \<not> parseIPv4_ok s then None
                else Some ([], i + 4, ell))
             else (let s1 = drop c s
                   in if s1 = [] then Some ([], i + 2, ell)
                      else if hd s1 \<noteq> CHR '':'' \<or> length s1 = 1 then None
                      else (let s2 = tl s1
                            in if hd s2 = CHR '':'' then
                                 (if ell \<noteq> None then None
                                  else if tl s2 = [] then Some ([], i + 2, Some (i + 2))
                                  else ipv6_loop k (Some (i + 2)) (tl s2))
                               else ipv6_loop k ell s2)))"

definition parseIPv6_ok :: "string \<Rightarrow> bool" where
  "parseIPv6_ok s =
     (if s = ''::'' then True
      else (case (if prefix ''::'' s then ipv6_loop 8 (Some 0) (drop 2 s) else ipv6_loop 8 None s) of
              None \<Rightarrow> False
            | Some (rest, i, ell) \<Rightarrow> rest = [] \<and> (if i < 16 then ell \<noteq> None else ell = None)))"

fun ParseIP_scan :: "string \<Rightarrow> string \<Rightarrow> bool" where
  "ParseIP_scan s [] = False"
| "ParseIP_scan s (c # cs) =
     (if c = CHR ''.'' then parseIPv4_ok s
      else if c = CHR '':'' then parseIPv6_ok s
      else ParseIP_scan s cs)"

definition ParseIP_ok :: "string \<Rightarrow> bool" where
  "ParseIP_ok s = ParseIP_scan s s"

section \<open>net.SplitHostPort\<close>

fun first_index :: "char \<Rightarrow> string \<Rightarrow> nat option" where
  "first_index c [] = None"
| "first_index c (x # xs) = (if x = c then Some 0 else map_option Suc (first_index c xs))"

fun last_index :: "char \<Rightarrow> string \<Rightarrow> nat option" where
  "last_index c [] = None"
| "last_index c (x # xs) =
     (case last_index c xs of Some i \<Rightarrow> Some (Suc i) | None \<Rightarrow> if x = c then Some 0 else None)"

definition split_tail :: "string \<Rightarrow> nat \<Rightarrow> string \<Rightarrow> nat \<Rightarrow> nat \<Rightarrow> (string \<times> string) option" where
  "split_tail hp i host j k =
     (if CHR ''['' \<in> set (drop j hp) then None
      else if CHR '']'' \<in> set (drop k hp) then None
      else Some (host, drop (Suc i) hp))"

definition SplitHostPort :: "string \<Rightarrow> (string \<times> string) option" where
  "SplitHostPort hp =
     (case last_index (CHR '':'') hp of
        None \<Rightarrow> None
      | Some i \<Rightarrow>
          if hd hp = CHR ''['' then
            (case first_index (CHR '']'') hp of
               None \<Rightarrow> None
             | Some e \<Rightarrow> if Suc e = i then split_tail hp i (take (e - 1) (drop 1 hp)) 1 (Suc e)
                         else None)
          else if CHR '':'' \<in> set (take i hp) then None
          else split_tail hp i (take i hp) 0 0)"

section \<open>network/address.go\<close>

type_synonym ConnType = string
type_synonym Address = string

definition PlainTCP :: ConnType where "PlainTCP = ''tcp''"
definition TLS :: ConnType where "TLS = ''tls''"
definition PURB :: ConnType where "PURB = ''purb''"
definition Local :: ConnType where "Local = ''local''"
definition InvalidConnType :: ConnType where "InvalidConnType = ''invalid''"

definition typeAddressSep :: string where "typeAddressSep = ''://''"

definition connType :: "string \<Rightarrow> ConnType" where
  "connType t = (if List.member [PlainTCP, TLS, PURB, Local] t then t else InvalidConnType)"

definition ConnType_of :: "Address \<Rightarrow> ConnType" where
  "ConnType_of a = connType (hd (strings_split a typeAddressSep))"

text \<open>The checks of \<open>Valid\<close> on the part after the separator.\<close>

definition valid_hostport :: "string \<Rightarrow> bool" where
  "valid_hostport na =
     (case SplitHostPort na of
        None \<Rightarrow> False
      | Some (ip, port) \<Rightarrow>
          (case atoi port of
             None \<Rightarrow> False
           | Some p \<Rightarrow> if p < 0 \<or> p > 65535 then False
                       else if ip = ''localhost'' then True
                       else ParseIP_ok ip))"

definition Valid :: "Address \<Rightarrow> bool" where
  "Valid a =
     (case strings_split a typeAddressSep of
        [t, na] \<Rightarrow> if connType t = InvalidConnType then False else valid_hostport na
      | _ \<Rightarrow> False)"

definition NetworkAddress :: "Address \<Rightarrow> string" where
  "NetworkAddress a = (if \<not> Valid a then [] else strings_split a typeAddressSep ! 1)"

definition Host :: "Address \<Rightarrow> string" where
  "Host a =
     (if NetworkAddress a = [] then []
      else (case SplitHostPort (NetworkAddress a) of
              None \<Rightarrow> []
            | Some (h, _) \<Rightarrow> if h = ''::'' then ''[::]'' else h))"

definition Port :: "Address \<Rightarrow> string" where
  "Port a =
     (if NetworkAddress a = [] then []
      else (case SplitHostPort (NetworkAddress a) of None \<Rightarrow> [] | Some (_, p) \<Rightarrow> p))"

text \<open>
  The regular expression of \<open>Public\<close> is a disjunction of anchored prefixes, two of them with
  one digit from a range.
\<close>

definition prefix_digit :: "string \<Rightarrow> nat \<Rightarrow> nat \<Rightarrow> string \<Rightarrow> bool" where
  "prefix_digit pre lo hi s =
     (prefix pre s \<and>
      (case drop (length pre) s of
         d # dot # _ \<Rightarrow> (case digit_val d of None \<Rightarrow> False | Some n \<Rightarrow> lo \<le> n \<and> n \<le> hi) \<and> dot = CHR ''.''
       | _ \<Rightarrow> False))"

definition private_net :: "string \<Rightarrow> bool" where
  "private_net s =
     (prefix ''127.'' s \<or> prefix ''10.'' s \<or> prefix_digit ''172.1'' 6 9 s \<or>
      prefix_digit ''172.2'' 0 9 s \<or> prefix_digit ''172.3'' 0 1 s \<or> prefix ''192.168.'' s \<or>
      prefix ''169.254'' s \<or> prefix ''[::]'' s)"

definition Public :: "Address \<Rightarrow> bool" where
  "Public a = (\<not> private_net (NetworkAddress a) \<and> Valid a)"

definition NewAddress :: "ConnType \<Rightarrow> string \<Rightarrow> Address" where
  "NewAddress t network = t @ typeAddressSep @ network"

text \<open>\<open>GlobalBind\<close> of network/struct.go.\<close>

definition GlobalBind :: "string \<Rightarrow> string + string" where
  "GlobalBind address =
     (case strings_split address '':'' of
        [_, port] \<Rightarrow> Inr (''0.0.0.0:'' @ port)
      | _ \<Rightarrow> Inl ''Not a host:port address'')"

section \<open>Evaluation and shape lemmas\<close>

lemmas ipv4_loop_numeral = ipv4_loop.simps(2)[of "pred_numeral k" for k, folded numeral_eq_Suc]
lemmas ipv6_loop_numeral = ipv6_loop.simps(2)[of "pred_numeral k" for k, folded numeral_eq_Suc]

lemmas connType_defs =
  connType_def PlainTCP_def TLS_def PURB_def Local_def InvalidConnType_def

lemmas address_eval =
  Valid_def strings_split_def typeAddressSep_def connType_defs valid_hostport_def
  SplitHostPort_def split_tail_def atoi_def unsigned_of_def int_range_def digit_val_def
  xdigit_val_def ParseIP_ok_def parseIPv4_ok_def parseIPv6_ok_def dtoi_def xtoi_def num_head_def
  Let_def ipv4_loop_numeral ipv6_loop_numeral NetworkAddress_def

lemma last_index_SomeD:
  "last_index c s = Some i \<Longrightarrow> s = take i s @ c # drop (Suc i) s \<and> c \<notin> set (drop (Suc i) s)"
proof (induction s arbitrary: i)
  case Nil
  then show ?case by simp
next
  case (Cons x xs)
  have none: "last_index c ys = None \<longleftrightarrow> c \<notin> set ys" for ys
    by (induction ys) (auto split: option.splits)
  from Cons show ?case by (auto simp: none split: option.splits if_splits)
qed

lemma last_index_drop: "last_index c s = Some i \<Longrightarrow> drop i s = c # drop (Suc i) s"
  by (induction s arbitrary: i) (auto split: option.splits if_splits)

lemma first_index_SomeD:
  "first_index c s = Some i \<Longrightarrow> i < length s \<and> s ! i = c \<and> c \<notin> set (take i s)"
  by (induction s arbitrary: i) (auto split: if_splits)

text \<open>What a successful \<open>SplitHostPort\<close> says about its argument.\<close>

lemma SplitHostPort_SomeD:
  assumes "SplitHostPort hp = Some (h, p)"
  shows "(hp = h @ '':'' @ p \<and> CHR '':'' \<notin> set h) \<or> hp = ''['' @ h @ '']:'' @ p"
    and "CHR '':'' \<notin> set p"
proof -
  obtain i where i: "last_index (CHR '':'') hp = Some i"
    using assms by (auto simp: SplitHostPort_def split: option.splits)
  have p: "p = drop (Suc i) hp"
    using assms i by (auto simp: SplitHostPort_def split_tail_def split: option.splits if_splits)
  note hp = last_index_SomeD[OF i]
  show "CHR '':'' \<notin> set p" using hp p by simp
  show "(hp = h @ '':'' @ p \<and> CHR '':'' \<notin> set h) \<or> hp = ''['' @ h @ '']:'' @ p"
  proof (cases "hd hp = CHR ''[''")
    case False
    then have "h = take i hp" "CHR '':'' \<notin> set h"
      using assms i by (auto simp: SplitHostPort_def split_tail_def split: if_splits)
    then show ?thesis using hp p by simp
  next
    case True
    then obtain e where e: "first_index (CHR '']'') hp = Some e" and ei: "Suc e = i"
      and h: "h = take (e - 1) (drop 1 hp)"
      using assms i by (auto simp: SplitHostPort_def split_tail_def split: option.splits if_splits)
    obtain t where hp1: "hp = CHR ''['' # t"
      using True first_index_SomeD[OF e] by (cases hp) auto
    with e obtain e' where e': "e = Suc e'" "e' < length t" "t ! e' = CHR '']''"
      using first_index_SomeD[OF e] by (cases e) auto
    then have "t = take e' t @ CHR '']'' # drop (Suc e') t"
      by (metis id_take_nth_drop)
    moreover have "drop (Suc e') t = CHR '':'' # p"
      using last_index_drop[OF i] p hp1 unfolding ei[symmetric] e'(1) by simp
    ultimately show ?thesis using hp1 h e' by simp
  qed
qed

lemma connType_valid: "connType t \<noteq> InvalidConnType \<Longrightarrow> connType t = t \<and> t \<in> set [PlainTCP, TLS, PURB, Local]"
  by (auto simp: connType_def split: if_splits)

lemma Valid_split:
  assumes "Valid a"
  obtains t na where "strings_split a typeAddressSep = [t, na]" and "connType t = t"
    and "t \<in> set [PlainTCP, TLS, PURB, Local]" and "valid_hostport na" and "NetworkAddress a = na"
  using assms connType_valid
  by (fastforce simp: Valid_def NetworkAddress_def split: list.splits if_splits)

lemma valid_hostportD:
  assumes "valid_hostport na"
  obtains h p n where "SplitHostPort na = Some (h, p)" and "atoi p = Some n" and "0 \<le> n" and "n \<le> 65535"
proof -
  obtain h p where hp: "SplitHostPort na = Some (h, p)"
    using assms by (cases "SplitHostPort na") (auto simp: valid_hostport_def)
  with assms obtain n where "atoi p = Some n"
    by (cases "atoi p") (auto simp: valid_hostport_def)
  with hp assms show ?thesis
    by (intro that[of h p n]) (auto simp: valid_hostport_def split: if_splits)
qed

lemma Valid_host_port:
  assumes "Valid a"
  obtains h n where "SplitHostPort (NetworkAddress a) = Some (h, Port a)"
    and "Host a = (if h = ''::'' then ''[::]'' else h)"
    and "atoi (Port a) = Some n" and "0 \<le> n" and "n \<le> 65535"
proof -
  from assms obtain na where na: "valid_hostport na" "NetworkAddress a = na"
    by (rule Valid_split)
  from na(1) obtain h p n where hpn: "SplitHostPort na = Some (h, p)" "atoi p = Some n" "0 \<le> n" "n \<le> 65535"
    by (rule valid_hostportD)
  then have "na \<noteq> []" by (auto simp: SplitHostPort_def)
  with na hpn show ?thesis
    by (intro that[of h n]) (auto simp: Port_def Host_def)
qed

lemma GlobalBind_valid:
  assumes "Valid a"
  shows "GlobalBind (NetworkAddress a) =
    (if CHR '':'' \<in> set (Host a) then Inl ''Not a host:port address''
     else Inr (''0.0.0.0:'' @ Port a))"
proof -
  obtain h n where h: "SplitHostPort (NetworkAddress a) = Some (h, Port a)"
    "Host a = (if h = ''::'' then ''[::]'' else h)"
    using assms by (rule Valid_host_port)
  note sp = SplitHostPort_SomeD[OF h(1)]
  have colon: "CHR '':'' \<in> set (Host a) \<longleftrightarrow> CHR '':'' \<in> set h" using h(2) by auto
  show ?thesis
  proof (cases "CHR '':'' \<in> set h")
    case True
    then have na: "NetworkAddress a = ''['' @ h @ '']:'' @ Port a" using sp by auto
    have "count_list h (CHR '':'') \<noteq> 0" using True by (simp add: count_list_0_iff)
    then have "length (strings_split (NetworkAddress a) '':'') > 2"
      by (simp add: length_split_char na)
    then have "GlobalBind (NetworkAddress a) = Inl ''Not a host:port address''"
      by (auto simp: GlobalBind_def split: list.splits)
    then show ?thesis using True colon by simp
  next
    case False
    obtain x where na: "NetworkAddress a = x @ CHR '':'' # Port a" "CHR '':'' \<notin> set x"
      using sp(1) False by (auto intro: that[of "''['' @ h @ '']''"] that[of h])
    then show ?thesis
      using split_char_pair[OF na(2) sp(2)] False colon by (simp add: GlobalBind_def)
  qed
qed

section \<open>Properties of addresses\<close>

text \<open>
  C32. A valid address is put together again from its parts: the connection type, one of
  the four supported ones, and the network address.
\<close>

theorem valid_address_roundtrip:
  assumes "Valid a"
  shows "NewAddress (ConnType_of a) (NetworkAddress a) = a \<and>
    ConnType_of a \<in> {PlainTCP, TLS, PURB, Local}"
proof -
  obtain t na where s: "strings_split a typeAddressSep = [t, na]" "connType t = t"
    "t \<in> set [PlainTCP, TLS, PURB, Local]" "NetworkAddress a = na"
    using assms by (rule Valid_split)
  from join_split[of typeAddressSep a] s show ?thesis
    by (simp add: NewAddress_def ConnType_of_def)
qed

theorem valid_address_roundtrip_witness:
  "Valid ''tcp://10.0.0.4:2000'' \<and>
   NewAddress (ConnType_of ''tcp://10.0.0.4:2000'') (NetworkAddress ''tcp://10.0.0.4:2000'')
     = ''tcp://10.0.0.4:2000''"
proof -
  have "Valid ''tcp://10.0.0.4:2000''" by (simp add: address_eval)
  then show ?thesis using valid_address_roundtrip[of "''tcp://10.0.0.4:2000''"] by blast
qed

text \<open>
  Host and port of a valid address: the port is a number in 0..65535, the network
  address is the host and the port joined by a colon, the host in brackets where it is an IPv6
  address; for an invalid address all three are empty.
\<close>

theorem address_host_port:
  "(if Valid a
    then (\<exists>n. atoi (Port a) = Some n \<and> 0 \<le> n \<and> n \<le> 65535) \<and>
         (NetworkAddress a = Host a @ '':'' @ Port a \<or>
          NetworkAddress a = ''['' @ Host a @ '']:'' @ Port a)
    else NetworkAddress a = [] \<and> Host a = [] \<and> Port a = [])"
proof (cases "Valid a")
  case False
  then show ?thesis by (simp add: NetworkAddress_def Host_def Port_def)
next
  case True
  then obtain h n where h: "SplitHostPort (NetworkAddress a) = Some (h, Port a)"
    "Host a = (if h = ''::'' then ''[::]'' else h)" "atoi (Port a) = Some n" "0 \<le> n" "n \<le> 65535"
    by (rule Valid_host_port)
  then show ?thesis
    using True SplitHostPort_SomeD[OF h(1)] by auto
qed

text \<open>
  \<open>Valid\<close> accepts exactly the addresses \<open>NewAddress\<close> builds from a supported type and a
  host and port that pass the checks, when the network part does not hold the separator itself.
\<close>

theorem valid_NewAddress_iff:
  assumes "t \<in> {PlainTCP, TLS, PURB, Local}" and "\<not> strings_contains n typeAddressSep"
  shows "Valid (NewAddress t n) = valid_hostport n"
proof -
  have "\<not> sublist ''://'' n"
    using assms(2) by (simp add: strings_contains_iff typeAddressSep_def)
  then have "strings_split (t @ ''://'' @ n) ''://'' = [t, n]"
    using assms(1) by (auto simp: strings_split_def connType_defs split_aux_no_sep)
  then show ?thesis
    using assms(1) by (auto simp: Valid_def NewAddress_def typeAddressSep_def connType_defs)
qed

theorem valid_NewAddress_iff_witness:
  "valid_hostport ''[1::2]:80'' \<and> Valid (NewAddress PlainTCP ''[1::2]:80'')"
proof -
  have n: "\<not> strings_contains ''[1::2]:80'' typeAddressSep"
    by (simp add: strings_contains_def typeAddressSep_def)
  have "valid_hostport ''[1::2]:80''" by (simp add: address_eval)
  then show ?thesis using valid_NewAddress_iff[OF _ n, of PlainTCP] by simp
qed

text \<open>
  \<open>GlobalBind\<close> on the network address of a valid address: it keeps the port where the
  host has no colon, and fails on every IPv6 host, although the address is valid.
\<close>

theorem global_bind_valid:
  assumes "Valid a"
  shows "GlobalBind (NetworkAddress a) =
    (if CHR '':'' \<in> set (Host a) then Inl ''Not a host:port address''
     else Inr (''0.0.0.0:'' @ Port a))"
  using assms by (rule GlobalBind_valid)

theorem global_bind_valid_witness:
  "Valid ''tcp://[1::2]:80'' \<and>
   GlobalBind (NetworkAddress ''tcp://[1::2]:80'') = Inl ''Not a host:port address''"
proof -
  have v: "Valid ''tcp://[1::2]:80''" by (simp add: address_eval)
  have "Host ''tcp://[1::2]:80'' = ''1::2''" by (simp add: Host_def address_eval)
  then show ?thesis using v global_bind_valid[OF v] by simp
qed

end
