(* ===== verification/Net_Encoding.thy ===== *)
theory Net_Encoding
  imports Go_Prelude
begin

text \<open>
  network/encoding.go: the two encoders of the network layer and the registry of message
  identifiers. A message is an interface value that holds a struct or a pointer to one; the model
  keeps its Go type (\<open>'t\<close>) and its contents (\<open>'v\<close>). The protobuf library
  (\<open>github.com/dedis/protobuf\<close>) is a parameter of the encoders: \<open>pbe\<close> stands for
  \<open>protobuf.Encode\<close> and \<open>pbd\<close> for \<open>protobuf.DecodeWithConstructors\<close> into a new value of a
  given type. What is used of it is that decoding an encoded value at its own type gives the
  value back (\<open>pb_faithful\<close>), and only where a statement says so.
\<close>

section \<open>Messages and the protobuf parameter\<close>

datatype ('t, 'v) message = PtrTo (msg_type: 't) (contents: 'v) | Struct (msg_type: 't) (contents: 'v)

definition getValueType :: "('t, 'v) message \<Rightarrow> 't" where
  "getValueType m = (case m of PtrTo t v \<Rightarrow> t | Struct t v \<Rightarrow> t)"

lemma getValueType_eq [simp]: "getValueType m = msg_type m"
  by (cases m) (simp_all add: getValueType_def)

datatype ('t, 'e) enc_error =
    CantEncode 't | NotRegistered 't | IdNotRegistered uint32 | ReadError | ProtoError 'e

type_synonym ('t, 'v, 'e) pb_encoder = "('t, 'v) message \<Rightarrow> 'e + bytes"
type_synonym ('t, 'v, 'e) pb_decoder = "'t \<Rightarrow> bytes \<Rightarrow> 'e + 'v"

definition pb_faithful ::
  "('t, 'v, 'e) pb_encoder \<Rightarrow> ('t, 'v, 'e) pb_decoder \<Rightarrow> ('t, 'v) message \<Rightarrow> bool" where
  "pb_faithful pbe pbd m =
     (case pbe m of Inl e \<Rightarrow> True | Inr b \<Rightarrow> pbd (msg_type m) b = Inr (contents m))"

definition map_error :: "('e \<Rightarrow> 'f) \<Rightarrow> 'e + 'a \<Rightarrow> 'f + 'a" where
  "map_error f r = (case r of Inl e \<Rightarrow> Inl (f e) | Inr a \<Rightarrow> Inr a)"

section \<open>SingleProtoEncoder\<close>

record 't SingleProtoEncoder =
  spe_type :: 't

definition NewSingleProtoEncoder :: "('t, 'v) message \<Rightarrow> 't SingleProtoEncoder" where
  "NewSingleProtoEncoder m = \<lparr>spe_type = getValueType m\<rparr>"

definition single_Marshal ::
  "('t, 'v, 'e) pb_encoder \<Rightarrow> 't SingleProtoEncoder \<Rightarrow> ('t, 'v) message \<Rightarrow> ('t, 'e) enc_error + bytes" where
  "single_Marshal pbe enc m =
     (if getValueType m \<noteq> spe_type enc then Inl (CantEncode (getValueType m))
      else map_error ProtoError (pbe m))"

definition single_Unmarshal ::
  "('t, 'v, 'e) pb_decoder \<Rightarrow> 't SingleProtoEncoder \<Rightarrow> bytes \<Rightarrow> ('t, 'e) enc_error + ('t, 'v) message" where
  "single_Unmarshal pbd enc buff =
     (case pbd (spe_type enc) buff of
        Inl e \<Rightarrow> Inl (ProtoError e)
      | Inr v \<Rightarrow> Inr (PtrTo (spe_type enc) v))"

section \<open>The registry of message identifiers\<close>

record 't idRegistry =
  reg_types :: "(uint32, 't) gomap"
  reg_inv :: "('t, uint32) gomap"

definition newIDRegistry :: "'t idRegistry" where
  "newIDRegistry = \<lparr>reg_types = [], reg_inv = []\<rparr>"

definition reg_get :: "'t idRegistry \<Rightarrow> uint32 \<Rightarrow> 't option" where
  "reg_get r mid = map_of (reg_types r) mid"

definition reg_getId :: "'t idRegistry \<Rightarrow> 't \<Rightarrow> uint32 option" where
  "reg_getId r t = map_of (reg_inv r) t"

definition reg_isRegistered :: "'t idRegistry \<Rightarrow> 't \<Rightarrow> bool" where
  "reg_isRegistered r t = (reg_getId r t \<noteq> None)"

definition reg_put :: "'t idRegistry \<Rightarrow> uint32 \<Rightarrow> 't \<Rightarrow> 't idRegistry" where
  "reg_put r mid typ =
     r\<lparr>reg_types := AList.update mid typ (reg_types r), reg_inv := AList.update typ mid (reg_inv r)\<rparr>"

definition RegisterMessage :: "'t idRegistry \<Rightarrow> uint32 \<Rightarrow> ('t, 'v) message \<Rightarrow> 't idRegistry" where
  "RegisterMessage r mid m = reg_put r mid (getValueType m)"

lemmas reg_defs = reg_get_def reg_getId_def reg_isRegistered_def reg_put_def newIDRegistry_def
  RegisterMessage_def

section \<open>MultiProtoEncoder\<close>

text \<open>The identifier in four bytes, big endian, then the protobuf encoding of the message.\<close>

definition multi_Marshal ::
  "('t, 'v, 'e) pb_encoder \<Rightarrow> 't idRegistry \<Rightarrow> ('t, 'v) message \<Rightarrow> ('t, 'e) enc_error + bytes" where
  "multi_Marshal pbe r m =
     (case reg_getId r (getValueType m) of
        None \<Rightarrow> Inl (NotRegistered (getValueType m))
      | Some mid \<Rightarrow>
          (case single_Marshal pbe \<lparr>spe_type = getValueType m\<rparr> m of
             Inl e \<Rightarrow> Inl e
           | Inr buff \<Rightarrow> Inr (be32_encode mid @ buff)))"

definition multi_Unmarshal ::
  "('t, 'v, 'e) pb_decoder \<Rightarrow> 't idRegistry \<Rightarrow> bytes \<Rightarrow> ('t, 'e) enc_error + ('t, 'v) message" where
  "multi_Unmarshal pbd r buff =
     (case be32_decode buff of
        None \<Rightarrow> Inl ReadError
      | Some (mid, rest) \<Rightarrow>
          (case reg_get r mid of
             None \<Rightarrow> Inl (IdNotRegistered mid)
           | Some typ \<Rightarrow> single_Unmarshal pbd \<lparr>spe_type = typ\<rparr> rest))"

section \<open>The Encoder interface\<close>

text \<open>
  What the connections rely on: a message that \<open>Marshal\<close> accepts comes back from
  \<open>Unmarshal\<close> as a pointer to the same contents, for the messages the codec is good for.
\<close>

locale encoder =
  fixes enc_marshal :: "('t, 'v) message \<Rightarrow> 'err + bytes"
    and enc_unmarshal :: "bytes \<Rightarrow> 'err + ('t, 'v) message"
    and enc_good :: "('t, 'v) message \<Rightarrow> bool"
  assumes decode_encode:
    "enc_good m \<Longrightarrow> enc_marshal m = Inr b \<Longrightarrow> enc_unmarshal b = Inr (PtrTo (msg_type m) (contents m))"
begin

lemma marshal_inj:
  assumes "enc_good m" and "enc_good m'" and "enc_marshal m = Inr b" and "enc_marshal m' = Inr b"
  shows "msg_type m = msg_type m' \<and> contents m = contents m'"
  using decode_encode[OF assms(1,3)] decode_encode[OF assms(2,4)] by simp

text \<open>A sequence of messages, decoded one by one.\<close>

lemma decode_all:
  assumes "list_all enc_good ms" and "list_all2 (\<lambda>m b. enc_marshal m = Inr b) ms bs"
  shows "map enc_unmarshal bs = map (\<lambda>m. Inr (PtrTo (msg_type m) (contents m))) ms"
  using assms(2,1) by (induction rule: list_all2_induct) (auto intro: decode_encode)

end

interpretation single: encoder "single_Marshal pbe enc" "single_Unmarshal pbd enc" "pb_faithful pbe pbd"
  for pbe pbd enc
  by unfold_locales
    (auto simp: single_Marshal_def single_Unmarshal_def pb_faithful_def map_error_def
      split: sum.splits if_splits)

text \<open>
  The registry's two maps agree: the identifier under which a type is encoded decodes to that
  type.
\<close>

definition reg_consistent :: "'t idRegistry \<Rightarrow> bool" where
  [inv_defs]: "reg_consistent r = list_all (\<lambda>t. map_option (reg_get r) (reg_getId r t) = Some (Some t)) (map fst (reg_inv r))"

lemma reg_consistent_iff:
  "reg_consistent r \<longleftrightarrow> (\<forall>t mid. reg_getId r t = Some mid \<longrightarrow> reg_get r mid = Some t)"
proof -
  have "t \<in> fst ` set (reg_inv r) \<longleftrightarrow> reg_getId r t \<noteq> None" for t
    by (simp add: reg_getId_def map_of_eq_None_iff)
  then show ?thesis
    by (simp only: reg_consistent_def list_all_iff set_map Ball_def) fastforce
qed

interpretation multi: encoder "multi_Marshal pbe r" "multi_Unmarshal pbd r"
    "\<lambda>m. reg_consistent r \<and> pb_faithful pbe pbd m"
  for pbe pbd r
proof
  fix m b
  assume good: "reg_consistent r \<and> pb_faithful pbe pbd m" and enc: "multi_Marshal pbe r m = Inr b"
  then obtain mid buff where "reg_getId r (msg_type m) = Some mid"
    and sm: "single_Marshal pbe \<lparr>spe_type = msg_type m\<rparr> m = Inr buff" and b: "b = be32_encode mid @ buff"
    by (auto simp: multi_Marshal_def split: option.splits sum.splits)
  then have "reg_get r mid = Some (msg_type m)"
    using good by (simp add: reg_consistent_iff)
  then show "multi_Unmarshal pbd r b = Inr (PtrTo (msg_type m) (contents m))"
    using single.decode_encode[OF conjunct2[OF good] sm] by (simp add: multi_Unmarshal_def b)
qed

section \<open>Registering messages\<close>

lemma put_consistent:
  assumes "reg_consistent r" and "reg_get r mid \<in> {None, Some typ}"
  shows "reg_consistent (reg_put r mid typ)"
  using assms unfolding reg_consistent_iff by (auto simp: reg_defs gomap_simps split: if_splits)

definition register_all :: "(uint32 \<times> ('t, 'v) message) list \<Rightarrow> 't idRegistry" where
  "register_all rs = foldl (\<lambda>r (mid, m). RegisterMessage r mid m) newIDRegistry rs"

lemma register_all_snoc:
  "register_all (rs @ [(mid, m)]) = reg_put (register_all rs) mid (msg_type m)"
  by (simp add: register_all_def RegisterMessage_def)

lemma register_all_get: "reg_get (register_all rs) mid \<noteq> None \<Longrightarrow> mid \<in> fst ` set rs"
proof (induction rs rule: rev_induct)
  case Nil
  then show ?case by (simp add: register_all_def reg_defs)
next
  case (snoc x rs)
  then show ?case
    by (cases x) (auto simp: register_all_snoc reg_defs gomap_simps split: if_splits)
qed

lemma register_all_getId: "reg_getId (register_all rs) t \<noteq> None \<longleftrightarrow> t \<in> (msg_type \<circ> snd) ` set rs"
proof (induction rs rule: rev_induct)
  case Nil
  then show ?case by (simp add: register_all_def reg_defs)
next
  case (snoc x rs)
  then show ?case
    by (cases x) (auto simp: register_all_snoc reg_defs gomap_simps split: if_splits)
qed

lemma register_all_consistent: "distinct (map fst rs) \<Longrightarrow> reg_consistent (register_all rs)"
proof (induction rs rule: rev_induct)
  case Nil
  then show ?case by (simp add: register_all_def reg_consistent_iff reg_defs)
next
  case (snoc x rs)
  then show ?case
    using register_all_get[of rs "fst x"]
    by (cases x) (auto simp: register_all_snoc intro!: put_consistent)
qed

section \<open>Properties of the encoders\<close>

text \<open>A concrete codec for the witnesses: the contents are bytes and are written as they are.\<close>

definition raw_pbe :: "(string, bytes, string) pb_encoder" where
  "raw_pbe m = Inr (contents m)"

definition raw_pbd :: "(string, bytes, string) pb_decoder" where
  "raw_pbd t b = Inr b"

text \<open>
  Round trip of the multi-message encoder: when the messages were registered under
  distinct identifiers and the message's type is among them, what \<open>Marshal\<close> writes is read
  back by \<open>Unmarshal\<close> as a pointer to a value of the same type and contents, provided the
  protobuf library decodes what it encoded.
\<close>

theorem multi_roundtrip:
  fixes pbe :: "('t, 'v, 'e) pb_encoder" and pbd :: "('t, 'v, 'e) pb_decoder"
  assumes "distinct (map fst rs)" and "msg_type m \<in> (msg_type \<circ> snd) ` set rs"
    and "pbe m = Inr b" and "pbd (msg_type m) b = Inr (contents m)"
  shows "\<exists>buff. multi_Marshal pbe (register_all rs) m = Inr buff \<and>
    multi_Unmarshal pbd (register_all rs) buff = Inr (PtrTo (msg_type m) (contents m))"
proof -
  obtain mid where mid: "reg_getId (register_all rs) (msg_type m) = Some mid"
    using assms(2) register_all_getId[of rs "msg_type m"] by blast
  then have enc: "multi_Marshal pbe (register_all rs) m = Inr (be32_encode mid @ b)"
    using assms(3) by (simp add: multi_Marshal_def single_Marshal_def map_error_def)
  have "pb_faithful pbe pbd m" using assms(3,4) by (simp add: pb_faithful_def)
  then show ?thesis
    using enc multi.decode_encode[OF _ enc] register_all_consistent[OF assms(1)] by blast
qed

theorem multi_roundtrip_witness:
  "\<exists>buff. multi_Marshal raw_pbe (register_all [(7, Struct ''Ping'' ([1] :: bytes)), (9, Struct ''Pong'' [])])
       (PtrTo ''Pong'' [3, 4]) = Inr buff \<and>
     multi_Unmarshal raw_pbd (register_all [(7, Struct ''Ping'' ([1] :: bytes)), (9, Struct ''Pong'' [])]) buff
       = Inr (PtrTo ''Pong'' [3, 4])"
  using multi_roundtrip[of "[(7, Struct ''Ping'' ([1] :: bytes)), (9, Struct ''Pong'' [])]" "PtrTo ''Pong'' [3, 4]"
      raw_pbe "[3, 4]" raw_pbd]
  by (simp add: raw_pbe_def raw_pbd_def)

text \<open>
  Registering a second type under an identifier that is taken leaves the first type's
  entry in the inverse map: a message of the first type is still encoded, under the shared
  identifier, and decoded as a value of the second type.
\<close>

theorem reregistered_id_confuses_types:
  fixes pbe :: "('t, 'v, 'e) pb_encoder" and pbd :: "('t, 'v, 'e) pb_decoder"
  assumes "msg_type m1 \<noteq> msg_type m2" and "pbe m1 = Inr b" and "pbd (msg_type m2) b = Inr v"
  shows "\<exists>buff. multi_Marshal pbe (register_all [(mid, m1), (mid, m2)]) m1 = Inr buff \<and>
    multi_Unmarshal pbd (register_all [(mid, m1), (mid, m2)]) buff = Inr (PtrTo (msg_type m2) v)"
  using assms
  by (simp add: register_all_def reg_defs multi_Marshal_def multi_Unmarshal_def
      single_Marshal_def single_Unmarshal_def map_error_def)

theorem reregistered_id_confuses_types_witness:
  "\<exists>buff. multi_Marshal raw_pbe (register_all [(7, Struct ''Ping'' ([1] :: bytes)), (7, Struct ''Pong'' [])])
       (Struct ''Ping'' ([1] :: bytes)) = Inr buff \<and>
     multi_Unmarshal raw_pbd (register_all [(7, Struct ''Ping'' ([1] :: bytes)), (7, Struct ''Pong'' [])]) buff
       = Inr (PtrTo ''Pong'' [1])"
  using reregistered_id_confuses_types[of "Struct ''Ping'' [1]" "Struct ''Pong'' []"
      raw_pbe "[1]" raw_pbd "[1]" 7]
  by (simp add: raw_pbe_def raw_pbd_def)

end
