(* ===== verification/Net_Tcp.thy ===== *)
theory Net_Tcp
  imports Net_Address Net_Encoding
begin

text \<open>
  network/tcp.go, with the errors, the size type and the counters of network/struct.go. The
  operating system is the environment: what a socket delivers is a list of events (segments of
  bytes of any size, or an error), and what it accepts is a list of results of \<open>Write\<close>. A loop
  that needs an event that is not there blocks. Sizes are \<open>uint32\<close> and the counters
  \<open>uint64\<close>, as in the source.
\<close>

section \<open>Errors\<close>

datatype net_error = ErrClosed | ErrEOF | ErrCanceled | ErrTimeout | ErrUnknown

text \<open>
  An error of Go's network library: its text, whether it is \<open>io.EOF\<close>, whether it implements
  \<open>net.Error\<close> and what its \<open>Timeout\<close> method returns.
\<close>

record raw_error =
  err_text :: string
  err_is_eof :: bool
  err_is_net :: bool
  err_timeout :: bool

definition handleError :: "raw_error \<Rightarrow> net_error" where
  "handleError e =
     (if strings_contains (err_text e) ''use of closed'' \<or> strings_contains (err_text e) ''broken pipe''
      then ErrClosed
      else if strings_contains (err_text e) ''canceled'' then ErrCanceled
      else if err_is_eof e \<or> strings_contains (err_text e) ''EOF'' then ErrEOF
      else if \<not> err_is_net e then ErrUnknown
      else if err_timeout e then ErrTimeout
      else ErrUnknown)"

text \<open>\<open>io.ErrUnexpectedEOF\<close>, which \<open>io.ReadFull\<close> gives after a partial read.\<close>

definition ErrUnexpectedEOF :: raw_error where
  "ErrUnexpectedEOF =
     \<lparr>err_text = ''unexpected EOF'', err_is_eof = False, err_is_net = False, err_timeout = False\<rparr>"

datatype 'x conn_error = Net net_error | Raw raw_error | Codec 'x

section \<open>Counters\<close>

record counterSafe =
  ctr_tx :: uint64
  ctr_rx :: uint64

definition updateRx :: "counterSafe \<Rightarrow> uint64 \<Rightarrow> counterSafe" where
  "updateRx c delta = c\<lparr>ctr_rx := ctr_rx c + delta\<rparr>"

definition updateTx :: "counterSafe \<Rightarrow> uint64 \<Rightarrow> counterSafe" where
  "updateTx c delta = c\<lparr>ctr_tx := ctr_tx c + delta\<rparr>"

section \<open>A connection and its environment\<close>

datatype rx_event = Data bytes | RxErr raw_error
datatype tx_result = Wrote nat | TxErr nat raw_error

text \<open>
  \<open>tcp_sent\<close> is all the bytes the connection handed to the operating system, \<open>tcp_rx\<close> what
  the operating system will deliver.
\<close>

record TCPConn =
  tcp_endpoint :: Address
  tcp_sent :: bytes
  tcp_rx :: "rx_event list"
  tcp_closed :: bool
  tcp_count :: counterSafe

datatype ('e, 'a) io_result = Returns 'a | Fails 'e | Waits

section \<open>Sending\<close>

text \<open>
  The loop of \<open>sendRaw\<close>: \<open>sent\<close> counts in \<open>uint32\<close>, \<open>conn.Write(b[sent:])\<close> takes one
  result of the environment.
\<close>

fun send_loop :: "uint32 \<Rightarrow> bytes \<Rightarrow> uint32 \<Rightarrow> tx_result list \<Rightarrow> bytes \<Rightarrow> (net_error, unit) io_result \<times> bytes" where
  "send_loop psize b sent [] out = (if sent < psize then Waits else Returns (), out)"
| "send_loop psize b sent (Wrote n # orc) out =
     (if sent < psize then
        (let chunk = take n (drop (unat sent) b)
         in send_loop psize b (sent + of_nat (length chunk)) orc (out @ chunk))
      else (Returns (), out))"
| "send_loop psize b sent (TxErr n e # orc) out =
     (if sent < psize then (Fails (handleError e), out @ take n (drop (unat sent) b))
      else (Returns (), out))"

definition sendRaw :: "TCPConn \<Rightarrow> tx_result list \<Rightarrow> bytes \<Rightarrow> ('x conn_error, unit) io_result \<times> TCPConn" where
  "sendRaw c orc b =
     (let packetSize = (of_nat (length b) :: uint32); hdr = be32_encode packetSize
      in case orc of
           [] \<Rightarrow> (Waits, c)
         | TxErr n e # _ \<Rightarrow> (Fails (Raw e), c\<lparr>tcp_sent := tcp_sent c @ take n hdr\<rparr>)
         | Wrote n # orc' \<Rightarrow>
             (case send_loop packetSize b 0 orc' [] of
                (Fails e, out) \<Rightarrow> (Fails (Net e), c\<lparr>tcp_sent := tcp_sent c @ take n hdr @ out\<rparr>)
              | (Waits, out) \<Rightarrow> (Waits, c\<lparr>tcp_sent := tcp_sent c @ take n hdr @ out\<rparr>)
              | (Returns _, out) \<Rightarrow>
                  (Returns (), c\<lparr>tcp_sent := tcp_sent c @ take n hdr @ out,
                                 tcp_count := updateTx (tcp_count c) (ucast packetSize)\<rparr>)))"

definition tcp_Send ::
  "(('t, 'v) message \<Rightarrow> 'x + bytes) \<Rightarrow> TCPConn \<Rightarrow> tx_result list \<Rightarrow> ('t, 'v) message
     \<Rightarrow> ('x conn_error, unit) io_result \<times> TCPConn" where
  "tcp_Send marshal c orc msg =
     (case marshal msg of Inl e \<Rightarrow> (Fails (Codec e), c) | Inr buff \<Rightarrow> sendRaw c orc buff)"

section \<open>Receiving\<close>

text \<open>
  Reading \<open>k\<close> bytes: \<open>conn.Read\<close> returns at most what fits the remaining buffer, the rest of
  the segment stays. The result keeps the bytes read so far and the events left.
\<close>

datatype read_outcome = ReadAll bytes "rx_event list" | ReadErr raw_error bytes "rx_event list" | ReadWaits bytes

fun read_loop :: "nat \<Rightarrow> bytes \<Rightarrow> rx_event list \<Rightarrow> read_outcome" where
  "read_loop k acc evs =
     (if k = 0 then ReadAll acc evs
      else (case evs of
              [] \<Rightarrow> ReadWaits acc
            | RxErr e # evs' \<Rightarrow> ReadErr e acc evs'
            | Data bs # evs' \<Rightarrow>
                if length bs \<le> k then read_loop (k - length bs) (acc @ bs) evs'
                else ReadAll (acc @ take k bs) (Data (drop k bs) # evs')))"

declare read_loop.simps [simp del]

text \<open>
  \<open>receiveRaw\<close>: the size with \<open>binary.Read\<close> (which reads with \<open>io.ReadFull\<close>), then the
  payload, then the counter.
\<close>

definition receiveRaw :: "TCPConn \<Rightarrow> ('x conn_error, bytes) io_result \<times> TCPConn" where
  "receiveRaw c =
     (case read_loop 4 [] (tcp_rx c) of
        ReadWaits _ \<Rightarrow> (Waits, c)
      | ReadErr e acc evs \<Rightarrow>
          (Fails (Net (handleError (if err_is_eof e \<and> acc \<noteq> [] then ErrUnexpectedEOF else e))),
           c\<lparr>tcp_rx := evs\<rparr>)
      | ReadAll hdr evs \<Rightarrow>
          (case be32_decode hdr of
             None \<Rightarrow> (Waits, c)
           | Some (tot, _) \<Rightarrow>
               (case read_loop (unat tot) [] evs of
                  ReadWaits _ \<Rightarrow> (Waits, c\<lparr>tcp_rx := evs\<rparr>)
                | ReadErr e acc evs' \<Rightarrow> (Fails (Net (handleError e)), c\<lparr>tcp_rx := evs'\<rparr>)
                | ReadAll buff evs' \<Rightarrow>
                    (Returns buff, c\<lparr>tcp_rx := evs', tcp_count := updateRx (tcp_count c) (ucast tot)\<rparr>))))"

definition tcp_Receive ::
  "(bytes \<Rightarrow> 'x + ('t, 'v) message) \<Rightarrow> TCPConn \<Rightarrow> ('x conn_error, ('t, 'v) message) io_result \<times> TCPConn" where
  "tcp_Receive unmarshal c =
     (case receiveRaw c of
        (Fails e, c') \<Rightarrow> (Fails e, c')
      | (Waits, c') \<Rightarrow> (Waits, c')
      | (Returns buff, c') \<Rightarrow>
          (case unmarshal buff of Inl e \<Rightarrow> (Fails (Codec e), c') | Inr m \<Rightarrow> (Returns m, c')))"

section \<open>Closing\<close>

text \<open>The error of the socket's own \<open>Close\<close> is looked at and dropped.\<close>

definition tcp_Close :: "TCPConn \<Rightarrow> (net_error, unit) io_result \<times> TCPConn" where
  "tcp_Close c = (if tcp_closed c then (Fails ErrClosed, c) else (Returns (), c\<lparr>tcp_closed := True\<rparr>))"

section \<open>Frames and streams\<close>

definition frame :: "bytes \<Rightarrow> bytes" where
  "frame b = be32_encode (of_nat (length b)) @ b"

fun all_data :: "rx_event list \<Rightarrow> bool" where
  "all_data [] = True"
| "all_data (Data bs # evs) = all_data evs"
| "all_data (RxErr e # evs) = False"

text \<open>The byte stream a list of segments carries.\<close>

fun stream_of :: "rx_event list \<Rightarrow> bytes" where
  "stream_of [] = []"
| "stream_of (Data bs # evs) = bs @ stream_of evs"
| "stream_of (RxErr e # evs) = stream_of evs"

text \<open>
  The contract of \<open>io.Writer\<close> for the four bytes of the size, whose count \<open>binary.Write\<close>
  does not look at: no error means that all of it was written.
\<close>

definition header_written :: "tx_result list \<Rightarrow> bool" where
  "header_written orc = (case orc of Wrote n # _ \<Rightarrow> 4 \<le> n | _ \<Rightarrow> True)"

lemma take_drop_length: "take n xs @ drop (length (take n xs)) xs = xs"
  by (simp add: min_def)

lemma send_loop_returns:
  assumes len: "length b < 2 ^ 32" and sz: "psize = (of_nat (length b) :: uint32)"
  shows "unat sent \<le> length b \<Longrightarrow>
    send_loop psize b sent orc out = (Returns u, out') \<Longrightarrow> out' = out @ drop (unat sent) b"
proof (induction orc arbitrary: sent out)
  have less: "sent < psize \<longleftrightarrow> unat sent < length b" for sent
    using len by (simp add: sz word_less_nat_alt unat_of_nat_uint32)
  case Nil
  then show ?case by (auto simp: less split: if_splits)
next
  have less: "sent < psize \<longleftrightarrow> unat sent < length b" for sent
    using len by (simp add: sz word_less_nat_alt unat_of_nat_uint32)
  case (Cons r orc)
  show ?case
  proof (cases "sent < psize")
    case False
    then show ?thesis using Cons.prems less by (cases r) auto
  next
    case True
    obtain n where r: "r = Wrote n" using True Cons.prems by (cases r) auto
    let ?chunk = "take n (drop (unat sent) b)"
    have "unat sent + length ?chunk \<le> length b" using Cons.prems(1) by simp
    moreover from this have "unat (sent + of_nat (length ?chunk)) = unat sent + length ?chunk"
      using len by (intro unat_add_of_nat_uint32) simp
    ultimately have "out' = (out @ ?chunk) @ drop (unat sent + length ?chunk) b"
      using Cons.prems Cons.IH[of "sent + of_nat (length ?chunk)" "out @ ?chunk"] True r
      by (simp add: Let_def)
    then show ?thesis
      using take_drop_length[of n "drop (unat sent) b"] by (simp add: add.commute)
  qed
qed

lemma read_loop_stream:
  "all_data evs \<Longrightarrow> stream_of evs = x @ rest \<Longrightarrow> length x = k \<Longrightarrow>
    \<exists>evs'. read_loop k acc evs = ReadAll (acc @ x) evs' \<and> all_data evs' \<and> stream_of evs' = rest"
proof (induction evs arbitrary: k acc x)
  case Nil
  then show ?case by (auto simp: read_loop.simps)
next
  case (Cons ev evs)
  then obtain bs where ev: "ev = Data bs" by (cases ev) auto
  show ?case
  proof (cases "k = 0")
    case True
    then show ?thesis using Cons.prems by (auto simp: read_loop.simps[of 0])
  next
    case False
    show ?thesis
    proof (cases "length bs \<le> k")
      case True
      have "bs = take (length bs) x" and "stream_of evs = drop (length bs) x @ rest"
        using Cons.prems(2,3) True ev
        by (auto simp: append_eq_append_conv_if split: if_splits)
      moreover from this(1) have "x = bs @ drop (length bs) x"
        by (metis append_take_drop_id)
      ultimately have "x = bs @ drop (length bs) x" and "stream_of evs = drop (length bs) x @ rest"
        by simp_all
      with Cons.IH[of "drop (length bs) x" "k - length bs" "acc @ bs"] Cons.prems True False ev
      show ?thesis
        by (simp add: read_loop.simps[of k])
    next
      case False
      with \<open>k \<noteq> 0\<close> Cons.prems ev show ?thesis
        by (auto simp: read_loop.simps[of k] append_eq_append_conv_if split: if_splits)
    qed
  qed
qed
lemma sendRaw_frame:
  assumes "length b < 2 ^ 32" and "header_written orc" and "sendRaw c orc b = (Returns u, c')"
  shows "tcp_sent c' = tcp_sent c @ frame b"
proof -
  obtain n orc' where orc: "orc = Wrote n # orc'" "4 \<le> n"
    using assms(2,3) by (cases orc) (auto simp: sendRaw_def header_written_def split: tx_result.splits)
  let ?size = "of_nat (length b) :: uint32"
  obtain out where out: "send_loop ?size b 0 orc' [] = (Returns (), out)"
    and c': "tcp_sent c' = tcp_sent c @ take n (be32_encode ?size) @ out"
    using assms(3) by (auto simp: sendRaw_def orc Let_def split: prod.splits io_result.splits)
  have "out = b" using send_loop_returns[OF assms(1) refl _ out] by simp
  then show ?thesis using c' orc(2) by (simp add: frame_def)
qed

lemma receiveRaw_frame:
  assumes "length b < 2 ^ 32" and "all_data (tcp_rx c)" and "stream_of (tcp_rx c) = frame b @ rest"
  obtains c' where "receiveRaw c = (Returns b, c')" and "all_data (tcp_rx c')"
    and "stream_of (tcp_rx c') = rest"
proof -
  let ?hdr = "be32_encode (of_nat (length b))"
  obtain evs where hdr: "read_loop 4 [] (tcp_rx c) = ReadAll ?hdr evs" "all_data evs" "stream_of evs = b @ rest"
    using read_loop_stream[OF assms(2), of ?hdr "b @ rest" 4 "[]"] assms(3) by (auto simp: frame_def)
  obtain evs' where body: "read_loop (length b) [] evs = ReadAll b evs'" "all_data evs'" "stream_of evs' = rest"
    using read_loop_stream[OF hdr(2,3) refl, of "[]"] by auto
  have "be32_decode ?hdr = Some (of_nat (length b), [])"
    using be32_decode_encode[of _ "[]"] by simp
  then show ?thesis
    using assms(1) hdr(1) body
    by (intro that[of "c\<lparr>tcp_rx := evs', tcp_count := updateRx (tcp_count c) (ucast (of_nat (length b) :: uint32))\<rparr>"])
       (simp_all add: receiveRaw_def unat_of_nat_uint32)
qed

section \<open>Sequences of messages over one connection\<close>

fun tcp_send_all ::
  "(('t, 'v) message \<Rightarrow> 'x + bytes) \<Rightarrow> TCPConn \<Rightarrow> (tx_result list \<times> ('t, 'v) message) list \<Rightarrow> TCPConn option" where
  "tcp_send_all marshal c [] = Some c"
| "tcp_send_all marshal c ((orc, m) # jobs) =
     (case tcp_Send marshal c orc m of (Returns _, c') \<Rightarrow> tcp_send_all marshal c' jobs | _ \<Rightarrow> None)"

fun tcp_recv_n ::
  "(bytes \<Rightarrow> 'x + ('t, 'v) message) \<Rightarrow> nat \<Rightarrow> TCPConn \<Rightarrow> ('t, 'v) message list option" where
  "tcp_recv_n unmarshal 0 c = Some []"
| "tcp_recv_n unmarshal (Suc n) c =
     (case tcp_Receive unmarshal c of
        (Returns m, c') \<Rightarrow> map_option ((#) m) (tcp_recv_n unmarshal n c')
      | _ \<Rightarrow> None)"

definition fits :: "'x + bytes \<Rightarrow> bool" where
  "fits r = (case r of Inl _ \<Rightarrow> True | Inr b \<Rightarrow> length b < 2 ^ 32)"

context encoder begin

lemma send_all_stream:
  "tcp_send_all enc_marshal c jobs = Some c' \<Longrightarrow>
   list_all (\<lambda>(orc, m). header_written orc \<and> fits (enc_marshal m)) jobs \<Longrightarrow>
   \<exists>bs. list_all2 (\<lambda>m b. enc_marshal m = Inr b) (map snd jobs) bs \<and>
        list_all (\<lambda>b. length b < 2 ^ 32) bs \<and> tcp_sent c' = tcp_sent c @ concat (map frame bs)"
proof (induction jobs arbitrary: c)
  case Nil
  then show ?case by simp
next
  case (Cons j jobs)
  obtain orc m where j: "j = (orc, m)" by (cases j)
  obtain b c1 where b: "enc_marshal m = Inr b" and
    c1: "sendRaw c orc b = (Returns () :: ('err conn_error, unit) io_result, c1)" and
    rest: "tcp_send_all enc_marshal c1 jobs = Some c'"
    using Cons.prems(1) by (auto simp: j tcp_Send_def split: sum.splits prod.splits io_result.splits)
  have len: "length b < 2 ^ 32" and "header_written orc"
    using Cons.prems(2) by (auto simp: j fits_def b)
  then have "tcp_sent c1 = tcp_sent c @ frame b" using sendRaw_frame[OF _ _ c1] by simp
  moreover obtain bs where "list_all2 (\<lambda>m b. enc_marshal m = Inr b) (map snd jobs) bs"
    "list_all (\<lambda>b. length b < 2 ^ 32) bs" "tcp_sent c' = tcp_sent c1 @ concat (map frame bs)"
    using Cons.IH[OF rest] Cons.prems(2) by auto
  ultimately show ?case using b len by (intro exI[of _ "b # bs"]) (simp add: j)
qed

lemma recv_n_stream:
  "list_all2 (\<lambda>m b. enc_marshal m = Inr b) ms bs \<Longrightarrow> list_all enc_good ms \<Longrightarrow>
   list_all (\<lambda>b. length b < 2 ^ 32) bs \<Longrightarrow> all_data (tcp_rx c) \<Longrightarrow>
   stream_of (tcp_rx c) = concat (map frame bs) @ rest \<Longrightarrow>
   tcp_recv_n enc_unmarshal (length ms) c = Some (map (\<lambda>m. PtrTo (msg_type m) (contents m)) ms)"
proof (induction ms bs arbitrary: c rule: list_all2_induct)
  case Nil
  then show ?case by simp
next
  case (Cons m ms b bs)
  obtain c' where c': "receiveRaw c = (Returns b :: ('err conn_error, bytes) io_result, c')"
    "all_data (tcp_rx c')" "stream_of (tcp_rx c') = concat (map frame bs) @ rest"
    using receiveRaw_frame[of b c "concat (map frame bs) @ rest"] Cons.prems by auto
  then show ?case
    using Cons.IH[of c'] Cons.prems decode_encode[OF _ Cons.hyps(1)] by (simp add: tcp_Receive_def)
qed

text \<open>What one end has sent, the other receives, however the stream is cut.\<close>

lemma recv_all:
  assumes "list_all (\<lambda>(orc, m). header_written orc \<and> fits (enc_marshal m) \<and> enc_good m) jobs"
    and "tcp_send_all enc_marshal a jobs = Some a'" and "tcp_sent a = []"
    and "all_data (tcp_rx p)" and "stream_of (tcp_rx p) = tcp_sent a'"
  shows "tcp_recv_n enc_unmarshal (length jobs) p = Some (map (\<lambda>(orc, m). PtrTo (msg_type m) (contents m)) jobs)"
proof -
  have jobs: "list_all (\<lambda>(orc, m). header_written orc \<and> fits (enc_marshal m)) jobs" and good: "list_all enc_good (map snd jobs)"
    using assms(1) by (auto simp: list_all_iff)
  obtain bs where bs: "list_all2 (\<lambda>m b. enc_marshal m = Inr b) (map snd jobs) bs"
    "list_all (\<lambda>b. length b < 2 ^ 32) bs" "tcp_sent a' = concat (map frame bs)"
    using send_all_stream[OF assms(2) jobs] assms(3) by auto
  have "stream_of (tcp_rx p) = concat (map frame bs) @ []" using assms(5) bs(3) by simp
  from recv_n_stream[OF bs(1) good bs(2) assms(4) this] show ?thesis by (simp add: case_prod_beta)
qed

end

section \<open>Opening connections and listening\<close>

definition MaxRetryConnect :: nat where "MaxRetryConnect = 5"

text \<open>
  \<open>NewTCPConn\<close>: up to five attempts at \<open>net.Dial\<close>; \<open>dial i\<close> is the result of attempt
  \<open>i\<close>, and a success gives the events the new socket will deliver. The last error is kept.
\<close>

fun dial_loop :: "(nat \<Rightarrow> raw_error + rx_event list) \<Rightarrow> Address \<Rightarrow> nat \<Rightarrow> nat \<Rightarrow> raw_error + TCPConn" where
  "dial_loop dial addr i 0 =
     (case dial i of
        Inr rx \<Rightarrow> Inr \<lparr>tcp_endpoint = addr, tcp_sent = [], tcp_rx = rx, tcp_closed = False,
                     tcp_count = \<lparr>ctr_tx = 0, ctr_rx = 0\<rparr>\<rparr>
      | Inl e \<Rightarrow> Inl e)"
| "dial_loop dial addr i (Suc left) =
     (case dial i of
        Inr rx \<Rightarrow> Inr \<lparr>tcp_endpoint = addr, tcp_sent = [], tcp_rx = rx, tcp_closed = False,
                     tcp_count = \<lparr>ctr_tx = 0, ctr_rx = 0\<rparr>\<rparr>
      | Inl e \<Rightarrow> dial_loop dial addr (Suc i) left)"

definition NewTCPConn :: "(string \<Rightarrow> nat \<Rightarrow> raw_error + rx_event list) \<Rightarrow> Address \<Rightarrow> raw_error + TCPConn" where
  "NewTCPConn dial addr = dial_loop (dial (NetworkAddress addr)) addr 1 (MaxRetryConnect - 1)"

datatype host_error = BadConnType string | Dial raw_error | ListenErr raw_error

definition tcp_Connect :: "(string \<Rightarrow> nat \<Rightarrow> raw_error + rx_event list) \<Rightarrow> Address \<Rightarrow> host_error + TCPConn" where
  "tcp_Connect dial addr =
     (if ConnType_of addr = PlainTCP then map_error Dial (NewTCPConn dial addr)
      else Inl (BadConnType (ConnType_of addr)))"

text \<open>
  \<open>NewTCPListener\<close>: \<open>lis s i\<close> is the result of attempt \<open>i\<close> to listen on \<open>s\<close>, the bound
  address. The error of \<open>GlobalBind\<close> is dropped and the empty string it comes with is used.
\<close>

record TCPListener =
  ln_asked :: string
  ln_addr :: string
  ln_listening :: bool
  ln_closed :: bool

fun listen_loop :: "(nat \<Rightarrow> raw_error + string) \<Rightarrow> nat \<Rightarrow> nat \<Rightarrow> raw_error + string" where
  "listen_loop lis i 0 = lis i"
| "listen_loop lis i (Suc left) = (case lis i of Inr a \<Rightarrow> Inr a | Inl e \<Rightarrow> listen_loop lis (Suc i) left)"

definition NewTCPListener :: "(string \<Rightarrow> nat \<Rightarrow> raw_error + string) \<Rightarrow> Address \<Rightarrow> host_error + TCPListener" where
  "NewTCPListener lis addr =
     (if ConnType_of addr \<noteq> PlainTCP then Inl (BadConnType (ConnType_of addr))
      else (let global = (case GlobalBind (NetworkAddress addr) of Inl _ \<Rightarrow> [] | Inr g \<Rightarrow> g)
            in case listen_loop (lis global) 0 (MaxRetryConnect - 1) of
                 Inl e \<Rightarrow> Inl (ListenErr e)
               | Inr bound \<Rightarrow> Inr \<lparr>ln_asked = global, ln_addr = bound, ln_listening = False, ln_closed = False\<rparr>))"

definition tcp_Address :: "TCPListener \<Rightarrow> Address" where
  "tcp_Address t = NewAddress PlainTCP (ln_addr t)"

lemma dial_loop_first:
  "dial_loop dial addr i left = Inr c \<Longrightarrow>
     \<exists>k\<le>left. (\<exists>rx. dial (i + k) = Inr rx \<and> tcp_rx c = rx) \<and> (\<forall>j<k. \<exists>e. dial (i + j) = Inl e)"
proof (induction left arbitrary: i)
  case 0
  then show ?case by (auto split: sum.splits)
next
  case (Suc left)
  show ?case
  proof (cases "dial i")
    case (Inr rx)
    then show ?thesis using Suc.prems by (intro exI[of _ 0]) auto
  next
    case (Inl e)
    then obtain k where "k \<le> left" "\<exists>rx. dial (Suc i + k) = Inr rx \<and> tcp_rx c = rx"
      "\<forall>j<k. \<exists>e. dial (Suc i + j) = Inl e"
      using Suc by force
    with Inl show ?thesis
      by (intro exI[of _ "Suc k"]) (auto simp: less_Suc_eq_0_disj)
  qed
qed

lemma dial_loop_fails: "dial_loop dial addr i left = Inl e \<Longrightarrow> k \<le> left \<Longrightarrow> \<exists>e. dial (i + k) = Inl e"
proof (induction left arbitrary: i k)
  case 0
  then show ?case by (auto split: sum.splits)
next
  case (Suc left)
  then obtain e' where e': "dial i = Inl e'" by (auto split: sum.splits)
  show ?case
  proof (cases k)
    case 0
    then show ?thesis using e' by simp
  next
    case (Suc k')
    then show ?thesis using Suc.IH[of "Suc i" k'] Suc.prems e' by simp
  qed
qed

lemma dial_loop_endpoint: "dial_loop dial addr i left = Inr c \<Longrightarrow> tcp_endpoint c = addr"
  by (induction left arbitrary: i) (auto split: sum.splits)

lemma send_loop_completes:
  assumes "length b < 2 ^ 32"
  shows "unat sent \<le> length b \<Longrightarrow> length b - unat sent \<le> length ks \<Longrightarrow> list_all (\<lambda>k. 1 \<le> k) ks \<Longrightarrow>
    \<exists>out'. send_loop (of_nat (length b)) b sent (map Wrote ks) out = (Returns (), out')"
proof (induction ks arbitrary: sent out)
  case Nil
  then show ?case using assms by (simp add: word_less_nat_alt unat_of_nat_uint32)
next
  case (Cons k ks)
  let ?chunk = "take k (drop (unat sent) b)"
  show ?case
  proof (cases "sent < of_nat (length b)")
    case False
    then show ?thesis by simp
  next
    case True
    then have lt: "unat sent < length b"
      using assms by (simp add: word_less_nat_alt unat_of_nat_uint32)
    have "unat (sent + of_nat (length ?chunk)) = unat sent + length ?chunk"
      using assms lt by (intro unat_add_of_nat_uint32) simp
    moreover have "1 \<le> length ?chunk" using Cons.prems(3) lt by simp
    ultimately show ?thesis
      using Cons.IH[of "sent + of_nat (length ?chunk)" "out @ ?chunk"] Cons.prems(2,3) lt True
      by (simp add: Let_def) fastforce
  qed
qed

section \<open>Properties of TCP connections\<close>

lemma tcp_recv_all:
  fixes pbe :: "('t, 'v, 'e) pb_encoder" and pbd :: "('t, 'v, 'e) pb_decoder"
  assumes "reg_consistent r"
    and "list_all (\<lambda>(orc, m). header_written orc \<and> fits (multi_Marshal pbe r m) \<and> pb_faithful pbe pbd m) jobs"
    and "tcp_send_all (multi_Marshal pbe r) a jobs = Some a'" and "tcp_sent a = []"
    and "all_data (tcp_rx p)" and "stream_of (tcp_rx p) = tcp_sent a'"
  shows "tcp_recv_n (multi_Unmarshal pbd r) (length jobs) p =
    Some (map (\<lambda>(orc, m). PtrTo (msg_type m) (contents m)) jobs)"
  using assms(1,2) by (intro multi.recv_all[OF _ assms(3-6)]) (auto simp: list_all_iff)

text \<open>
  Messages over TCP: what one side sends, message by message, with any short writes, is
  what the other side receives, in the same order and number, however the network cuts the byte
  stream into segments. The messages are encoded with the multi-message encoder over a consistent
  registry, fit the 32-bit size field, and are decoded by the protobuf library.
\<close>

theorem tcp_messages_roundtrip:
  fixes pbe :: "('t, 'v, 'e) pb_encoder" and pbd :: "('t, 'v, 'e) pb_decoder"
  assumes "reg_consistent r"
    and "list_all (\<lambda>(orc, m). header_written orc \<and> fits (multi_Marshal pbe r m) \<and> pb_faithful pbe pbd m) jobs"
    and "tcp_send_all (multi_Marshal pbe r) a jobs = Some a'" and "tcp_sent a = []"
    and "all_data (tcp_rx p)" and "stream_of (tcp_rx p) = tcp_sent a'"
  shows "tcp_recv_n (multi_Unmarshal pbd r) (length jobs) p =
    Some (map (\<lambda>(orc, m). PtrTo (msg_type m) (contents m)) jobs)"
  by (rule tcp_recv_all[OF assms])

definition demo_reg :: "string idRegistry" where
  "demo_reg = register_all [(7, Struct ''Ping'' ([] :: bytes))]"

definition demo_conn :: "rx_event list \<Rightarrow> TCPConn" where
  "demo_conn rx = \<lparr>tcp_endpoint = ''tcp://127.0.0.1:2000'', tcp_sent = [], tcp_rx = rx,
     tcp_closed = False, tcp_count = \<lparr>ctr_tx = 0, ctr_rx = 0\<rparr>\<rparr>"

definition demo_jobs :: "(tx_result list \<times> (string, bytes) message) list" where
  "demo_jobs = [([Wrote 4, Wrote 2, Wrote 3], Struct ''Ping'' [1]), ([Wrote 4, Wrote 5], Struct ''Ping'' [2])]"

definition demo_rx :: "rx_event list" where
  "demo_rx = [Data [0, 0, 0], Data [5, 0, 0, 0, 7, 1], Data [], Data [0, 0, 0, 5, 0, 0, 0, 7, 2]]"

lemma demo_reg_consistent: "reg_consistent demo_reg"
  unfolding demo_reg_def by (rule register_all_consistent) simp

lemma demo_Marshal: "multi_Marshal raw_pbe demo_reg (Struct ''Ping'' [x]) = Inr [0, 0, 0, 7, x]"
proof -
  have "reg_getId demo_reg ''Ping'' = Some 7" by (simp add: demo_reg_def register_all_def reg_defs)
  then show ?thesis by (simp add: multi_Marshal_def single_Marshal_def map_error_def raw_pbe_def be32_encode_def)
qed

lemma demo_jobs_sent:
  "\<exists>a'. tcp_send_all (multi_Marshal raw_pbe demo_reg) (demo_conn []) demo_jobs = Some a' \<and> tcp_sent a' = stream_of demo_rx"
  by (simp add: demo_jobs_def demo_rx_def demo_Marshal tcp_Send_def sendRaw_def demo_conn_def be32_encode_def)

lemma demo_jobs_ok:
  "list_all (\<lambda>(orc, m). header_written orc \<and> fits (multi_Marshal raw_pbe demo_reg m) \<and> pb_faithful raw_pbe raw_pbd m) demo_jobs"
  by (simp add: demo_jobs_def demo_Marshal fits_def header_written_def pb_faithful_def raw_pbe_def raw_pbd_def)

theorem tcp_messages_roundtrip_witness:
  "tcp_recv_n (multi_Unmarshal raw_pbd demo_reg) 2 (demo_conn demo_rx) = Some [PtrTo ''Ping'' [1], PtrTo ''Ping'' [2]]"
proof -
  obtain a' where a': "tcp_send_all (multi_Marshal raw_pbe demo_reg) (demo_conn []) demo_jobs = Some a'" "tcp_sent a' = stream_of demo_rx"
    using demo_jobs_sent by blast
  have "tcp_recv_n (multi_Unmarshal raw_pbd demo_reg) (length demo_jobs) (demo_conn demo_rx) =
      Some (map (\<lambda>(orc, m). PtrTo (msg_type m) (contents m)) demo_jobs)"
    by (rule tcp_messages_roundtrip[OF demo_reg_consistent demo_jobs_ok a'(1)]) (simp_all add: demo_conn_def a'(2) demo_rx_def)
  then show ?thesis by (simp add: demo_jobs_def numeral_2_eq_2)
qed

text \<open>
  C37. Sending ends, with all of the buffer written: when the size field was written and every \<open>Write\<close> takes at
  least one byte, one result per byte is enough for \<open>sendRaw\<close> to return; what it handed to the system is the
  size in four bytes and then exactly the buffer, however it was cut, and the counter grows by the length.
\<close>

theorem sendRaw_completes:
  assumes "length b < 2 ^ 32" and "4 \<le> n" and "list_all (\<lambda>k. 1 \<le> k) ks" and "length b \<le> length ks"
  shows "\<exists>c'. sendRaw c (Wrote n # map Wrote ks) b = (Returns (), c') \<and>
    tcp_sent c' = tcp_sent c @ be32_encode (of_nat (length b)) @ b \<and>
    ctr_tx (tcp_count c') = ctr_tx (tcp_count c) + of_nat (length b)"
proof -
  let ?size = "of_nat (length b) :: uint32"
  have "unat sent \<le> length b \<Longrightarrow> length b - unat sent \<le> length ks \<Longrightarrow> list_all (\<lambda>k. 1 \<le> k) ks \<Longrightarrow>
      \<exists>out'. send_loop ?size b sent (map Wrote ks) out = (Returns (), out')" for sent out
    by (rule send_loop_completes[OF assms(1)])
  from this[of 0 "[]"] obtain out where
    out: "send_loop ?size b 0 (map Wrote ks) [] = (Returns (), out)"
    using assms(3,4) by auto
  moreover have "out = b" using send_loop_returns[OF assms(1) refl _ out] by simp
  ultimately show ?thesis using assms(1,2)
    by (simp add: sendRaw_def updateTx_def ucast_of_nat_uint32)
qed

theorem sendRaw_completes_witness:
  "\<exists>c'. sendRaw (demo_conn []) (Wrote 4 # map Wrote [1, 2, 7]) [10, 20, 30] = (Returns (), c') \<and>
     tcp_sent c' = tcp_sent (demo_conn []) @ be32_encode (of_nat (length [10, 20, 30 :: byte])) @ [10, 20, 30] \<and>
     ctr_tx (tcp_count c') = ctr_tx (tcp_count (demo_conn [])) + of_nat (length [10, 20, 30 :: byte])"
  using sendRaw_completes[of "[10, 20, 30]" 4 "[1, 2, 7]" "demo_conn []"] by simp

text \<open>
  A buffer of \<open>2^32\<close> bytes or more: the size field holds the length modulo
  \<open>2^32\<close> while \<open>Write\<close> is handed the whole buffer, and \<open>sendRaw\<close> reports success. The
  receiver takes the surplus bytes for the next size field.
\<close>

theorem sendRaw_oversize:
  assumes "length b = 2 ^ 32 + k" and "0 < k" and "k < 2 ^ 32"
  shows "\<exists>c'. sendRaw c [Wrote 4, Wrote (length b)] b = (Returns (), c') \<and>
    tcp_sent c' = tcp_sent c @ be32_encode (of_nat k) @ b"
proof -
  have w: "(of_nat (length b) :: uint32) = of_nat k"
    by (simp only: word_unat_eq_iff unat_of_nat assms(1)) simp
  have "(0 :: uint32) < of_nat k"
    using assms(2,3) by (simp add: word_less_nat_alt unat_of_nat_uint32)
  then show ?thesis using w by (simp add: sendRaw_def Let_def)
qed

theorem sendRaw_oversize_witness:
  "\<exists>c'. sendRaw (demo_conn []) [Wrote 4, Wrote (length (replicate (2 ^ 32 + 1) (0 :: byte)))] (replicate (2 ^ 32 + 1) 0)
       = (Returns (), c') \<and>
     tcp_sent c' = tcp_sent (demo_conn []) @ be32_encode (of_nat 1) @ replicate (2 ^ 32 + 1) 0"
  by (rule sendRaw_oversize) simp_all

text \<open>
  Connecting retries: the connection is the one of the first of the five attempts that
  succeeds, and an error means that all five failed.
\<close>

theorem NewTCPConn_retries:
  "case NewTCPConn dial addr of
     Inr c \<Rightarrow> tcp_endpoint c = addr \<and> (\<exists>k<5. dial (NetworkAddress addr) (1 + k) = Inr (tcp_rx c) \<and>
                (\<nexists>j rx. j < k \<and> dial (NetworkAddress addr) (1 + j) = Inr rx))
   | Inl e \<Rightarrow> (\<nexists>k rx. k < 5 \<and> dial (NetworkAddress addr) (1 + k) = Inr rx)"
proof (cases "NewTCPConn dial addr")
  case (Inl e)
  have "dial (NetworkAddress addr) (1 + k) \<noteq> Inr rx" if "k < 5" for k rx
    using dial_loop_fails[of "dial (NetworkAddress addr)" addr 1 4 e k] Inl that
    by (auto simp: NewTCPConn_def MaxRetryConnect_def)
  then show ?thesis using Inl by auto
next
  case (Inr c)
  then have d: "dial_loop (dial (NetworkAddress addr)) addr 1 4 = Inr c"
    by (simp add: NewTCPConn_def MaxRetryConnect_def)
  obtain k where k: "k \<le> 4" "dial (NetworkAddress addr) (1 + k) = Inr (tcp_rx c)"
    "\<forall>j<k. \<exists>e. dial (NetworkAddress addr) (1 + j) = Inl e"
    using dial_loop_first[OF d] by auto
  then have "\<nexists>j rx. j < k \<and> dial (NetworkAddress addr) (1 + j) = Inr rx"
    by (metis Inl_Inr_False)
  with k have "\<exists>k<5. dial (NetworkAddress addr) (1 + k) = Inr (tcp_rx c) \<and>
      (\<nexists>j rx. j < k \<and> dial (NetworkAddress addr) (1 + j) = Inr rx)"
    by (intro exI[of _ k]) simp
  then show ?thesis using Inr dial_loop_endpoint[OF d] by simp
qed

text \<open>
  A listener for a valid TCP address with an IPv6 host does not listen on the port
  asked for: \<open>GlobalBind\<close> fails, its error is dropped and the socket is bound to the empty
  address, that is, to any free port.
\<close>

theorem listener_ignores_ipv6_port:
  assumes "Valid addr" and "ConnType_of addr = PlainTCP" and "CHR '':'' \<in> set (Host addr)"
    and "NewTCPListener lis addr = Inr t"
  shows "ln_asked t = []"
proof -
  have "GlobalBind (NetworkAddress addr) = Inl ''Not a host:port address''"
    using assms(3) by (simp add: GlobalBind_valid[OF assms(1)])
  then show ?thesis using assms(2,4)
    by (auto simp: NewTCPListener_def Let_def split: sum.splits)
qed

theorem listener_ignores_ipv6_port_witness:
  "\<exists>t. NewTCPListener (\<lambda>s i. Inr ''[::]:41234'') ''tcp://[1::2]:80'' = Inr t \<and> ln_asked t = []"
proof -
  have v: "Valid ''tcp://[1::2]:80''" and c: "ConnType_of ''tcp://[1::2]:80'' = PlainTCP"
    and h: "CHR '':'' \<in> set (Host ''tcp://[1::2]:80'')"
    by (simp_all add: Host_def ConnType_of_def address_eval)
  obtain t where t: "NewTCPListener (\<lambda>s i. Inr ''[::]:41234'') ''tcp://[1::2]:80'' = Inr t"
    using c by (simp add: NewTCPListener_def MaxRetryConnect_def Let_def numeral_eq_Suc)
  show ?thesis using t listener_ignores_ipv6_port[OF v c h t] by blast
qed

end
