(* ===== verification/Net_Listener.thy ===== *)
theory Net_Listener
  imports Net_Tcp
begin

text \<open>
  network/tcp.go, the second half: the accept loop of a TCP listener and \<open>Stop\<close>, which runs beside
  it. The operations are cut where a goroutine can wait: the loop in \<open>Accept\<close> and in the send on
  \<open>quitListener\<close>, \<open>Stop\<close> in the receive from it, while it holds the lock of the listener. The
  result of \<open>Accept\<close> and the error of closing the socket are arguments.
\<close>

section \<open>The listener while it runs\<close>

text \<open>
  The goroutine of one call of \<open>listen\<close>. \<open>sv_open\<close>: the socket is open; \<open>sv_quit\<close>: the channel that is
  in \<open>t.quit\<close> now is closed; \<open>sv_stopping\<close>: a call of \<open>Stop\<close> waits and holds the lock; \<open>sv_conns\<close>: the
  connections handed to the function of the user; \<open>sv_results\<close>: what the calls of \<open>Stop\<close> returned.
\<close>

datatype loop = Accepting | Signalling | Returned

record TCPServer = TCPListener +
  sv_open :: bool
  sv_quit :: bool
  sv_loops :: "loop list"
  sv_stopping :: bool
  sv_conns :: "Address list"
  sv_results :: "raw_error option list"

definition new_server :: "TCPListener \<Rightarrow> TCPServer" where
  "new_server t =
     TCPListener.extend t \<lparr>sv_open = True, sv_quit = False, sv_loops = [], sv_stopping = False, sv_conns = [], sv_results = []\<rparr>"

definition NewTCPAddress :: "string \<Rightarrow> Address" where
  "NewTCPAddress addr = NewAddress PlainTCP addr"

section \<open>listen\<close>

text \<open>A listener that was stopped is left at once.\<close>

definition listen_begin :: "TCPServer \<Rightarrow> TCPServer" where
  "listen_begin s =
     (if ln_closed s then s\<lparr>sv_loops := sv_loops s @ [Returned]\<rparr>
      else s\<lparr>ln_listening := True, sv_loops := sv_loops s @ [Accepting]\<rparr>)"

text \<open>One round of loop \<open>i\<close>, with the result of \<open>Accept\<close>: an error, or the address of the peer.\<close>

definition listen_round :: "nat \<Rightarrow> raw_error + string \<Rightarrow> TCPServer \<Rightarrow> TCPServer" where
  "listen_round i accepted s =
     (case accepted of
        Inl err \<Rightarrow> if sv_quit s then s\<lparr>sv_loops := (sv_loops s)[i := Signalling]\<rparr> else s
      | Inr remote \<Rightarrow> s\<lparr>sv_conns := sv_conns s @ [NewTCPAddress remote]\<rparr>)"

section \<open>Stop\<close>

definition use_of_closed :: raw_error where
  "use_of_closed =
     \<lparr>err_text = ''use of closed network connection'', err_is_eof = False, err_is_net = True, err_timeout = False\<rparr>"

text \<open>The end of \<open>Stop\<close>, after it has waited, or when nothing listens.\<close>

definition stop_end :: "TCPServer \<Rightarrow> TCPServer" where
  "stop_end s =
     s\<lparr>sv_quit := False, ln_listening := False, ln_closed := True, sv_stopping := False,
       sv_results := sv_results s @ [None]\<rparr>"

text \<open>
  The start of \<open>Stop\<close>; \<open>None\<close> when closing a closed channel panics. Closing a closed socket is an
  error of its own; an error other than \<open>ErrClosed\<close> is returned, with \<open>t.quit\<close> closed.
\<close>

definition stop_begin :: "raw_error option \<Rightarrow> TCPServer \<Rightarrow> TCPServer option" where
  "stop_begin cerr s =
     (if sv_quit s then None
      else let err = (if sv_open s then cerr else Some use_of_closed);
               s1 = s\<lparr>sv_quit := True, sv_open := False\<rparr>
           in case err of
                Some e \<Rightarrow>
                  if handleError e \<noteq> ErrClosed then Some (s1\<lparr>sv_results := sv_results s @ [Some e]\<rparr>)
                  else if ln_listening s then Some (s1\<lparr>sv_stopping := True\<rparr>) else Some (stop_end s1)
              | None \<Rightarrow> if ln_listening s then Some (s1\<lparr>sv_stopping := True\<rparr>) else Some (stop_end s1))"

text \<open>The rendezvous on \<open>quitListener\<close>: loop \<open>i\<close> sends, \<open>Stop\<close> receives.\<close>

definition stop_meet :: "nat \<Rightarrow> TCPServer \<Rightarrow> TCPServer" where
  "stop_meet i s = stop_end (s\<lparr>sv_loops := (sv_loops s)[i := Returned]\<rparr>)"

definition Listening :: "TCPServer \<Rightarrow> bool" where
  "Listening s = ln_listening s"

section \<open>Steps\<close>

text \<open>\<open>listen\<close> and \<open>Stop\<close> start under the lock, which a waiting \<open>Stop\<close> holds.\<close>

inductive srv_step :: "TCPServer \<Rightarrow> TCPServer \<Rightarrow> bool" where
  listen: "\<not> sv_stopping s \<Longrightarrow> srv_step s (listen_begin s)"
| accept: "i < length (sv_loops s) \<Longrightarrow> sv_loops s ! i = Accepting \<Longrightarrow> sv_open s \<Longrightarrow> srv_step s (listen_round i (Inr a) s)"
| fail: "i < length (sv_loops s) \<Longrightarrow> sv_loops s ! i = Accepting \<Longrightarrow> srv_step s (listen_round i (Inl e) s)"
| stop: "\<not> sv_stopping s \<Longrightarrow> stop_begin cerr s = Some s' \<Longrightarrow> srv_step s s'"
| meet: "sv_stopping s \<Longrightarrow> i < length (sv_loops s) \<Longrightarrow> sv_loops s ! i = Signalling \<Longrightarrow> srv_step s (stop_meet i s)"

inductive srv_reachable :: "TCPServer \<Rightarrow> bool" where
  start: "\<not> ln_listening t \<Longrightarrow> \<not> ln_closed t \<Longrightarrow> srv_reachable (new_server t)"
| step: "srv_reachable s \<Longrightarrow> srv_step s s' \<Longrightarrow> srv_reachable s'"

section \<open>The invariant\<close>

definition active :: "TCPServer \<Rightarrow> nat \<Rightarrow> bool" where
  "active s i = (i < length (sv_loops s) \<and> sv_loops s ! i \<noteq> Returned)"

definition srv_inv :: "TCPServer \<Rightarrow> bool" where
  [inv_defs]: "srv_inv s =
     ((sv_stopping s \<longrightarrow> ln_listening s \<and> sv_quit s \<and> \<not> sv_open s) \<and>
      (ln_listening s \<longrightarrow> (\<exists>i. active s i)) \<and>
      (ln_closed s \<longrightarrow> \<not> sv_open s) \<and>
      (\<not> sv_quit s \<and> \<not> ln_closed s \<longrightarrow> sv_open s) \<and>
      ((\<exists>i. active s i) \<longrightarrow> ln_listening s \<or> ln_closed s))"

lemmas srv_defs = listen_begin_def listen_round_def stop_begin_def stop_end_def stop_meet_def

lemma new_server_fields [simp]:
  "ln_listening (new_server t) = ln_listening t" "ln_closed (new_server t) = ln_closed t" "sv_open (new_server t)"
  "\<not> sv_quit (new_server t)" "sv_loops (new_server t) = []" "\<not> sv_stopping (new_server t)"
  "sv_results (new_server t) = []" "sv_conns (new_server t) = []"
  by (simp_all add: new_server_def TCPListener.extend_def)

lemma active_append: "active s i \<Longrightarrow> active (s\<lparr>sv_loops := sv_loops s @ [x]\<rparr>) i"
  by (simp add: active_def nth_append)

lemma listen_begin_inv:
  assumes "srv_inv s" and "\<not> sv_stopping s"
  shows "srv_inv (listen_begin s)"
proof (cases "ln_closed s")
  case True
  then show ?thesis using assms active_append[of s _ Returned] by (auto simp: srv_inv_def listen_begin_def)
next
  case False
  have "active (listen_begin s) (length (sv_loops s))" using False by (simp add: active_def listen_begin_def)
  then show ?thesis using assms False by (auto simp: srv_inv_def listen_begin_def)
qed

lemma listen_round_inv: "srv_inv s \<Longrightarrow> active s i \<Longrightarrow> srv_inv (listen_round i r s)"
  by (auto simp: srv_inv_def listen_round_def active_def intro!: exI[of _ i] split: sum.splits)

lemma stop_end_inv: "\<not> sv_open s \<Longrightarrow> srv_inv (stop_end s)"
  by (simp add: srv_inv_def stop_end_def)

lemma stop_begin_inv: "srv_inv s \<Longrightarrow> \<not> sv_stopping s \<Longrightarrow> stop_begin cerr s = Some s' \<Longrightarrow> srv_inv s'"
  by (auto simp: stop_begin_def Let_def stop_end_inv split: if_splits option.splits) (auto simp: srv_inv_def active_def)

lemma srv_step_inv: "srv_step s s' \<Longrightarrow> srv_inv s \<Longrightarrow> srv_inv s'"
proof (induction rule: srv_step.induct)
  case (accept i s a)
  then show ?case by (simp add: listen_round_inv active_def)
next
  case (fail i s e)
  then show ?case by (simp add: listen_round_inv active_def)
next
  case (meet s i)
  then have "\<not> sv_open s" by (simp add: srv_inv_def)
  then show ?case by (simp add: stop_meet_def stop_end_inv)
qed (auto intro: listen_begin_inv stop_begin_inv)

lemma srv_reachable_inv: "srv_reachable s \<Longrightarrow> srv_inv s"
proof (induction rule: srv_reachable.induct)
  case (start t)
  then show ?case by (simp add: srv_inv_def active_def)
qed (rule srv_step_inv)

section \<open>Properties\<close>

text \<open>A server on which \<open>n\<close> calls of \<open>Listen\<close> run.\<close>

definition demo_listener :: TCPListener where
  "demo_listener = \<lparr>ln_asked = ''0.0.0.0:0'', ln_addr = ''0.0.0.0:2000'', ln_listening = False, ln_closed = False\<rparr>"

definition listening :: "nat \<Rightarrow> TCPServer" where
  "listening n = (listen_begin ^^ n) (new_server demo_listener)"

lemma listening_not_stopping: "\<not> sv_stopping (listening n)"
  by (induction n) (auto simp: listening_def listen_begin_def)

lemma listening_reachable: "srv_reachable (listening n)"
proof (induction n)
  case 0
  then show ?case by (simp add: listening_def srv_reachable.start demo_listener_def)
next
  case (Suc n)
  then show ?case using srv_reachable.step[OF Suc srv_step.listen[OF listening_not_stopping]] by (simp add: listening_def)
qed

definition stopping :: "nat \<Rightarrow> TCPServer" where
  "stopping n = (listening n)\<lparr>sv_quit := True, sv_open := False, sv_stopping := True\<rparr>"

lemma listening_fields: "sv_loops (listening n) = replicate n Accepting" "ln_listening (listening n) \<longleftrightarrow> 0 < n"
  "\<not> ln_closed (listening n)" "sv_open (listening n)" "\<not> sv_quit (listening n)" "sv_results (listening n) = []"
  by (induction n) (auto simp: listening_def listen_begin_def demo_listener_def replicate_append_same)

lemma stopping_reachable: "0 < n \<Longrightarrow> srv_reachable (stopping n)"
  by (rule srv_reachable.step[OF listening_reachable[of n] srv_step.stop[of _ None]])
    (simp_all add: stopping_def stop_begin_def Let_def listening_fields listening_not_stopping)

text \<open>The loops that still wait in \<open>Accept\<close>; a listener whose \<open>Stop\<close> has returned nil.\<close>

definition accepting :: "TCPServer \<Rightarrow> nat" where
  "accepting s = length (filter (\<lambda>l. l = Accepting) (sv_loops s))"

definition down :: "TCPServer \<Rightarrow> bool" where
  "down s = (\<not> sv_stopping s \<and> ln_closed s \<and> \<not> ln_listening s \<and> \<not> sv_open s \<and> \<not> sv_quit s)"

lemma use_of_closed_ErrClosed: "handleError use_of_closed = ErrClosed"
  by code_simp

lemma accepting_less:
  assumes "i < length (sv_loops s)" and "sv_loops s ! i = Accepting"
  shows "accepting (s\<lparr>sv_loops := (sv_loops s)[i := Signalling]\<rparr>) < accepting s"
proof -
  let ?P = "\<lambda>l. l = Accepting"
  have s: "sv_loops s = take i (sv_loops s) @ Accepting # drop (Suc i) (sv_loops s)"
    using id_take_nth_drop[OF assms(1)] assms(2) by simp
  have u: "(sv_loops s)[i := Signalling] = take i (sv_loops s) @ Signalling # drop (Suc i) (sv_loops s)"
    using assms(1) by (rule upd_conv_take_nth_drop)
  have "length (filter ?P (sv_loops s)) = length (filter ?P (take i (sv_loops s))) + Suc (length (filter ?P (drop (Suc i) (sv_loops s))))"
    by (subst s) simp
  then show ?thesis by (simp add: accepting_def u)
qed

text \<open>A step while \<open>Stop\<close> waits: a loop leaves \<open>Accept\<close>, or \<open>Stop\<close> returns.\<close>

lemma waiting_step:
  assumes "srv_inv s" and "sv_stopping s" and "srv_step s s'"
  shows "sv_conns s' = sv_conns s \<and>
    (if sv_stopping s' then accepting s' < accepting s \<and> sv_results s' = sv_results s
     else down s' \<and> sv_results s' = sv_results s @ [None])"
  using assms(3)
proof (cases rule: srv_step.cases)
  case (fail i e)
  then show ?thesis using assms(1,2) accepting_less[of i s] by (simp add: listen_round_def srv_inv_def)
next
  case (meet i)
  then show ?thesis using assms(1,2) by (simp add: stop_meet_def stop_end_def down_def srv_inv_def)
qed (use assms in \<open>auto simp: srv_inv_def\<close>)

lemma waiting_active:
  assumes "sv_stopping s" and "srv_step s s'"
  shows "(active s' j \<longrightarrow> active s j) \<and> (\<not> sv_stopping s' \<longrightarrow> (\<exists>i. active s i \<and> \<not> active s' i))"
  using assms(2)
proof (cases rule: srv_step.cases)
  case (fail i e)
  then show ?thesis using assms(1) by (cases "j = i") (simp_all add: listen_round_def active_def)
next
  case (meet i)
  then have "active s i" "\<not> active s' i" by (simp_all add: active_def stop_meet_def stop_end_def)
  moreover have "active s' j \<longrightarrow> active s j" using meet by (cases "j = i") (simp_all add: active_def stop_meet_def stop_end_def)
  ultimately show ?thesis by blast
qed (use assms(1) in \<open>auto simp: listen_round_def active_def\<close>)

lemma down_step:
  assumes "down s" and "srv_step s s'"
  shows "down s' \<and> sv_conns s' = sv_conns s \<and> (\<exists>rest. sv_results s' = sv_results s @ rest) \<and>
    (\<forall>i. active s' i \<longrightarrow> active s i)"
  using assms(2)
proof (cases rule: srv_step.cases)
  case listen
  then show ?thesis using assms(1) by (auto simp: down_def listen_begin_def active_def nth_append split: if_splits)
next
  case (fail i e)
  then show ?thesis using assms(1) by (simp add: down_def listen_round_def)
next
  case (stop cerr)
  then show ?thesis using assms(1) use_of_closed_ErrClosed by (auto simp: down_def stop_begin_def stop_end_def active_def)
qed (use assms(1) in \<open>auto simp: down_def\<close>)

text \<open>
  C18. \<open>Stop\<close> returns: when a call of \<open>Stop\<close> waits, in any reachable state, some step is possible, and in every run from
  there that is longer than the number of loops that wait in \<open>Accept\<close> it has returned nil, whatever the order of the
  steps; the listener is then closed and no longer listening. The connections it handed out do not matter: none is
  closed or waited for, although the comment of \<open>Stop\<close> says that it waits until they are all closed.
\<close>

theorem tcp_Stop_returns:
  assumes "srv_reachable s" and "sv_stopping s"
  shows "(\<exists>s'. srv_step s s') \<and>
    (\<forall>n s'. accepting s < n \<and> (srv_step ^^ n) s s' \<longrightarrow>
       (\<exists>rest. sv_results s' = sv_results s @ None # rest) \<and> ln_closed s' \<and> \<not> ln_listening s' \<and> sv_conns s' = sv_conns s)"
proof -
  have inv: "srv_inv s" by (rule srv_reachable_inv[OF assms(1)])
  then obtain i where i: "i < length (sv_loops s)" "sv_loops s ! i \<noteq> Returned"
    using assms(2) by (auto simp: srv_inv_def active_def)
  have step: "\<exists>s'. srv_step s s'"
    using i srv_step.fail[of i s use_of_closed] srv_step.meet[OF assms(2) i(1)] by (cases "sv_loops s ! i") auto
  have run: "(srv_step ^^ n) s s' \<Longrightarrow> srv_inv s' \<and> sv_conns s' = sv_conns s \<and>
      (sv_stopping s' \<and> accepting s' + n \<le> accepting s \<and> sv_results s' = sv_results s \<or>
       down s' \<and> (\<exists>rest. sv_results s' = sv_results s @ None # rest))" for n s'
  proof (induction n arbitrary: s')
    case 0
    then show ?case using inv assms(2) by simp
  next
    case (Suc n)
    then obtain s1 where s1: "(srv_step ^^ n) s s1" "srv_step s1 s'" by auto
    have inv': "srv_inv s'" using srv_step_inv[OF s1(2)] Suc.IH[OF s1(1)] by blast
    show ?case
    proof (cases "sv_stopping s1")
      case True
      then have "\<not> down s1" by (simp add: down_def)
      then show ?thesis using True Suc.IH[OF s1(1)] waiting_step[OF _ True s1(2)] inv' by (auto split: if_splits)
    next
      case False
      then show ?thesis using Suc.IH[OF s1(1)] down_step[OF _ s1(2)] inv' by fastforce
    qed
  qed
  have "(\<exists>rest. sv_results s' = sv_results s @ None # rest) \<and> ln_closed s' \<and> \<not> ln_listening s' \<and> sv_conns s' = sv_conns s"
    if "accepting s < n" "(srv_step ^^ n) s s'" for n s'
    using run[OF that(2)] that(1) by (auto simp: down_def)
  with step show ?thesis by blast
qed

theorem tcp_Stop_returns_witness:
  "(srv_step ^^ 2) (stopping 1) (stop_meet 0 (listen_round 0 (Inl use_of_closed) (stopping 1))) \<and>
   (\<exists>rest. sv_results (stop_meet 0 (listen_round 0 (Inl use_of_closed) (stopping 1))) = None # rest)"
proof -
  let ?a = "listen_round 0 (Inl use_of_closed) (stopping 1)"
  have a: "sv_stopping ?a" "sv_loops ?a = [Signalling]" by (simp_all add: listen_round_def stopping_def listening_fields)
  have "srv_step (stopping 1) ?a" by (rule srv_step.fail) (simp_all add: stopping_def listening_fields)
  moreover have "srv_step ?a (stop_meet 0 ?a)" using a by (intro srv_step.meet) simp_all
  ultimately have run: "(srv_step ^^ 2) (stopping 1) (stop_meet 0 ?a)" by (auto simp: numeral_2_eq_2)
  have "accepting (stopping 1) < 2" "sv_results (stopping 1) = []" "sv_stopping (stopping 1)"
    by (simp_all add: accepting_def stopping_def listening_fields)
  then show ?thesis using tcp_Stop_returns[OF stopping_reachable[of 1]] run by fastforce
qed

text \<open>
  C30. \<open>Stop\<close> really waits for the loop: when one call of \<open>Listen\<close> is running, a call of \<open>Stop\<close> that can close the socket
  does not return at once, and in whatever order the steps come then, once it has returned nil no accept loop is
  running, and none ever runs again. When closing the socket fails with another error, \<open>Stop\<close> returns that error
  at once, the loop is still running, and the next call of \<open>Stop\<close> panics.
\<close>

theorem tcp_Stop_waits_for_loop:
  assumes "srv_reachable s" and "\<not> sv_stopping s" and "\<not> ln_closed s" and "active s i" and "\<nexists>j. j \<noteq> i \<and> active s j"
    and "stop_begin cerr s = Some s1"
  shows "if cerr = None \<or> handleError (the cerr) = ErrClosed
    then sv_stopping s1 \<and> sv_results s1 = sv_results s \<and> active s1 i \<and>
      (\<forall>s2. srv_step\<^sup>*\<^sup>* s1 s2 \<and> \<not> sv_stopping s2 \<longrightarrow>
         (\<exists>rest. sv_results s2 = sv_results s @ None # rest) \<and> (\<nexists>j. active s2 j))
    else sv_results s1 = sv_results s @ [cerr] \<and> active s1 i \<and> stop_begin c s1 = None"
proof -
  have inv: "srv_inv s" by (rule srv_reachable_inv[OF assms(1)])
  have quit: "\<not> sv_quit s" using assms(6) by (auto simp: stop_begin_def split: if_splits)
  have s: "sv_open s" "ln_listening s" using inv quit assms(3,4) by (auto simp: srv_inv_def)
  show ?thesis
  proof (cases "cerr = None \<or> handleError (the cerr) = ErrClosed")
    case True
    then have s1: "s1 = s\<lparr>sv_quit := True, sv_open := False, sv_stopping := True\<rparr>"
      using assms(6) quit s by (cases cerr) (auto simp: stop_begin_def)
    have inv1: "srv_inv s1" by (rule stop_begin_inv[OF inv assms(2,6)])
    have run: "srv_step\<^sup>*\<^sup>* s1 s2 \<Longrightarrow> srv_inv s2 \<and>
        (sv_stopping s2 \<and> sv_results s2 = sv_results s \<and> (\<forall>j. active s2 j \<longrightarrow> j = i) \<or>
         down s2 \<and> (\<exists>rest. sv_results s2 = sv_results s @ None # rest) \<and> (\<forall>j. \<not> active s2 j))" for s2
    proof (induction rule: rtranclp_induct)
      case base
      then show ?case using inv1 assms(5) by (auto simp: s1 active_def)
    next
      case (step t u)
      have inv_u: "srv_inv u" using srv_step_inv[OF step(2)] step(3) by blast
      show ?case
      proof (cases "sv_stopping t")
        case True
        then have t: "\<not> down t" "\<forall>j. active t j \<longrightarrow> j = i" "sv_results t = sv_results s" using step(3) by (auto simp: down_def)
        have "\<forall>j. active u j \<longrightarrow> j = i" "\<not> sv_stopping u \<Longrightarrow> \<forall>j. \<not> active u j"
          using waiting_active[OF True step(2)] t(2) by blast+
        then show ?thesis using waiting_step[OF _ True step(2)] step(3) inv_u t(3) by (auto split: if_splits)
      next
        case False
        then show ?thesis using step(3) down_step[OF _ step(2)] inv_u by fastforce
      qed
    qed
    have "(\<exists>rest. sv_results s2 = sv_results s @ None # rest) \<and> (\<nexists>j. active s2 j)" if "srv_step\<^sup>*\<^sup>* s1 s2" "\<not> sv_stopping s2" for s2
      using run[OF that(1)] that(2) by blast
    then show ?thesis using True assms(4) by (auto simp: s1 active_def)
  next
    case False
    then show ?thesis using assms(4,6) quit s by (auto simp: stop_begin_def active_def)
  qed
qed

theorem tcp_Stop_waits_for_loop_witness:
  "sv_stopping (stopping 1) \<and> (\<nexists>j. active (stop_meet 0 (listen_round 0 (Inl use_of_closed) (stopping 1))) j)"
proof -
  let ?s = "listen_round 0 (Inl use_of_closed) (stopping 1)"
  have s: "sv_stopping ?s" "sv_loops ?s = [Signalling]"
    by (simp_all add: listen_round_def stopping_def listening_fields)
  then have meet: "srv_step ?s (stop_meet 0 ?s)" by (intro srv_step.meet) simp_all
  have "srv_step (stopping 1) ?s" by (rule srv_step.fail) (simp_all add: stopping_def listening_fields)
  from rtranclp.rtrancl_into_rtrancl[OF r_into_rtranclp[where r = srv_step, OF this] meet]
  have run: "srv_step\<^sup>*\<^sup>* (stopping 1) (stop_meet 0 ?s)" .
  have "active (listening 1) 0" "\<nexists>j. j \<noteq> 0 \<and> active (listening 1) j" by (simp_all add: active_def listening_fields)
  moreover have "stop_begin None (listening 1) = Some (stopping 1)"
    by (simp add: stop_begin_def stopping_def listening_fields)
  moreover note stop = tcp_Stop_waits_for_loop[OF listening_reachable listening_not_stopping listening_fields(3) calculation(1-3),
      of None, unfolded if_P[OF disjI1[OF refl]]]
  have "\<not> sv_stopping (stop_meet 0 ?s)" by (simp add: stop_meet_def stop_end_def)
  with run have "srv_step\<^sup>*\<^sup>* (stopping 1) (stop_meet 0 ?s) \<and> \<not> sv_stopping (stop_meet 0 ?s)" by (rule conjI)
  from mp[OF spec[OF conjunct2[OF conjunct2[OF conjunct2[OF stop]]]] this]
  have "\<nexists>j. active (stop_meet 0 ?s) j" by (rule conjunct2)
  with conjunct1[OF stop] show ?thesis by (rule conjI)
qed

text \<open>
  Stopping a listener is final and can be repeated: after \<open>Stop\<close> has returned nil, another
  \<open>Stop\<close> returns nil as well, not \<open>ErrClosed\<close>, and a later \<open>Listen\<close> returns at once without
  listening.
\<close>

theorem tcp_Stop_twice:
  assumes "ln_closed s" and "\<not> sv_open s" and "\<not> ln_listening s" and "\<not> sv_quit s" and "\<not> sv_stopping s"
  shows "stop_begin cerr s = Some (s\<lparr>sv_results := sv_results s @ [None]\<rparr>) \<and>
    listen_begin s = s\<lparr>sv_loops := sv_loops s @ [Returned]\<rparr>"
proof -
  have "handleError use_of_closed = ErrClosed" by code_simp
  then show ?thesis using assms
    by (cases s) (simp add: stop_begin_def stop_end_def listen_begin_def)
qed

definition stopped :: TCPServer where
  "stopped = stop_meet 0 (listen_round 0 (Inl use_of_closed) (stopping 1))"

theorem tcp_Stop_twice_witness:
  "\<exists>s. stop_begin None stopped = Some s \<and> sv_results s = [None, None]"
proof -
  have "ln_closed stopped" "\<not> sv_open stopped" "\<not> ln_listening stopped" "\<not> sv_quit stopped" "\<not> sv_stopping stopped"
    "sv_results stopped = [None]"
    by (simp_all add: stopped_def stop_meet_def stop_end_def listen_round_def stopping_def listening_fields)
  then show ?thesis using tcp_Stop_twice[of stopped None] by simp
qed

text \<open>
  C22. A second call of \<open>Listen\<close> is not refused, and then \<open>Stop\<close> is not enough: there is a reachable
  state in which \<open>Stop\<close> has returned nil, the listener is closed and says that it is not listening,
  and an accept loop runs all the same; every \<open>Accept\<close> of it fails and leaves the state as it is, so
  it goes on for ever.
\<close>

theorem second_Listen_outlives_Stop:
  "\<exists>s. srv_reachable s \<and> sv_results s = [None] \<and> ln_closed s \<and> \<not> Listening s \<and> \<not> sv_open s \<and>
     active s 1 \<and> (\<nexists>e. listen_round 1 (Inl e) s \<noteq> s)"
proof -
  let ?a = "listen_round 0 (Inl use_of_closed) (stopping 2)"
  let ?s = "stop_meet 0 ?a"
  have a: "sv_loops ?a = [Signalling, Accepting]" "sv_stopping ?a" "sv_results ?a = []"
    by (simp_all add: listen_round_def stopping_def listening_fields numeral_2_eq_2)
  have "srv_step (stopping 2) ?a"
    by (rule srv_step.fail) (simp_all add: stopping_def listening_fields)
  then have "srv_reachable ?a" by (rule srv_reachable.step[OF stopping_reachable, rotated]) simp
  moreover have "srv_step ?a ?s" using a by (intro srv_step.meet) simp_all
  ultimately have "srv_reachable ?s" by (rule srv_reachable.step)
  moreover have "sv_results ?s = [None]" "ln_closed ?s" "\<not> Listening ?s" "\<not> sv_quit ?s" "active ?s 1"
    using a by (simp_all add: stop_meet_def stop_end_def Listening_def active_def)
  moreover have "\<not> sv_open ?s" by (simp add: stop_meet_def stop_end_def listen_round_def stopping_def)
  moreover have "listen_round 1 (Inl e) ?s = ?s" for e using calculation(5) by (simp add: listen_round_def)
  ultimately show ?thesis by blast
qed

end
