(* ===== verification/Go_Chan.thy ===== *)
theory Go_Chan
  imports Go_Prelude
begin

text \<open>
  Go's buffered channels, which every concurrent component of the program is built on: the
  queues of a relay channel (relay/relay.go), of a client channel (relay/channel.go), of a
  reliable stream (client/stream.go) and of a local connection (network/local.go). An operation
  on a channel either happens, or blocks, or panics; the three are the constructors of
  \<open>chan_result\<close>. The locale \<open>fifo\<close> is what the components rely on, and
  \<open>buffered\<close> interprets it on the channel operations.
\<close>

section \<open>The channel type and its operations\<close>

record 'a gchan =
  chan_buf :: "'a list"
  chan_cap :: nat
  chan_closed :: bool

datatype 'r chan_result = Happens 'r | Blocks | Panics

definition make_chan :: "nat \<Rightarrow> 'a gchan" where
  "make_chan n = \<lparr>chan_buf = [], chan_cap = n, chan_closed = False\<rparr>"

text \<open>\<open>ch <- v\<close>: panics on a closed channel, blocks on a full buffer.\<close>

definition chan_send :: "'a gchan \<Rightarrow> 'a \<Rightarrow> 'a gchan chan_result" where
  "chan_send c v =
     (if chan_closed c then Panics
      else if length (chan_buf c) < chan_cap c then Happens (c\<lparr>chan_buf := chan_buf c @ [v]\<rparr>)
      else Blocks)"

text \<open>
  \<open>v, ok := <-ch\<close>: the oldest value; on a closed and drained channel \<open>None\<close> (Go's zero
  value with \<open>ok = false\<close>); blocks on an open empty one.
\<close>

definition chan_recv :: "'a gchan \<Rightarrow> ('a option \<times> 'a gchan) chan_result" where
  "chan_recv c =
     (case chan_buf c of
        v # vs \<Rightarrow> Happens (Some v, c\<lparr>chan_buf := vs\<rparr>)
      | [] \<Rightarrow> if chan_closed c then Happens (None, c) else Blocks)"

text \<open>\<open>close(ch)\<close> panics on a channel that is closed already.\<close>

definition chan_close :: "'a gchan \<Rightarrow> 'a gchan chan_result" where
  "chan_close c = (if chan_closed c then Panics else Happens (c\<lparr>chan_closed := True\<rparr>))"

lemmas chan_defs = make_chan_def chan_send_def chan_recv_def chan_close_def

definition wf_chan :: "'a gchan \<Rightarrow> bool" where
  "wf_chan c = (length (chan_buf c) \<le> chan_cap c)"

lemma wf_make_chan [simp]: "wf_chan (make_chan n)"
  by (simp add: wf_chan_def make_chan_def)

lemma chan_send_HappensD:
  assumes "chan_send c v = Happens c'"
  shows "chan_buf c' = chan_buf c @ [v]" and "chan_cap c' = chan_cap c" and "chan_closed c' = chan_closed c"
    and "length (chan_buf c) < chan_cap c" and "\<not> chan_closed c"
  using assms by (auto simp: chan_send_def split: if_splits)

lemma chan_recv_SomeD:
  assumes "chan_recv c = Happens (Some v, c')"
  shows "chan_buf c = v # chan_buf c'" and "chan_cap c' = chan_cap c" and "chan_closed c' = chan_closed c"
  using assms by (auto simp: chan_recv_def split: list.splits if_splits)

lemma wf_chan_send: "wf_chan c \<Longrightarrow> chan_send c v = Happens c' \<Longrightarrow> wf_chan c'"
  using chan_send_HappensD[of c v c'] by (simp add: wf_chan_def)

lemma wf_chan_recv: "wf_chan c \<Longrightarrow> chan_recv c = Happens (r, c') \<Longrightarrow> wf_chan c'"
  by (auto simp: wf_chan_def chan_recv_def split: list.splits if_splits)

section \<open>The interface the components rely on\<close>

text \<open>
  A bounded first-in first-out queue: its contents as a list, the sends and receives that
  happen, and the bound. The lemmas are about any schedule of sends and receives.
\<close>

datatype 'a chan_event = Sent 'a | Received 'a

fun sent_of :: "'a chan_event list \<Rightarrow> 'a list" where
  "sent_of [] = []"
| "sent_of (Sent v # es) = v # sent_of es"
| "sent_of (Received v # es) = sent_of es"

fun received_of :: "'a chan_event list \<Rightarrow> 'a list" where
  "received_of [] = []"
| "received_of (Sent v # es) = received_of es"
| "received_of (Received v # es) = v # received_of es"

locale fifo =
  fixes contents :: "'q \<Rightarrow> 'a list"
    and bound :: "'q \<Rightarrow> nat"
    and snd_step :: "'q \<Rightarrow> 'a \<Rightarrow> 'q \<Rightarrow> bool"
    and rcv_step :: "'q \<Rightarrow> 'a \<Rightarrow> 'q \<Rightarrow> bool"
  assumes snd_contents: "snd_step q v q' \<Longrightarrow> contents q' = contents q @ [v]"
    and rcv_contents: "rcv_step q v q' \<Longrightarrow> contents q = v # contents q'"
    and snd_bound: "snd_step q v q' \<Longrightarrow> length (contents q) < bound q \<and> bound q' = bound q"
    and rcv_bound: "rcv_step q v q' \<Longrightarrow> bound q' = bound q"
begin

inductive trace :: "'q \<Rightarrow> 'a chan_event list \<Rightarrow> 'q \<Rightarrow> bool" where
  trace_nil: "trace q [] q"
| trace_snd: "snd_step q v q1 \<Longrightarrow> trace q1 es q2 \<Longrightarrow> trace q (Sent v # es) q2"
| trace_rcv: "rcv_step q v q1 \<Longrightarrow> trace q1 es q2 \<Longrightarrow> trace q (Received v # es) q2"

lemma trace_fifo: "trace q es q' \<Longrightarrow> received_of es @ contents q' = contents q @ sent_of es"
proof (induction rule: trace.induct)
  case (trace_nil q)
  then show ?case by simp
next
  case (trace_snd q v q1 es q2)
  then show ?case by (simp add: snd_contents)
next
  case (trace_rcv q v q1 es q2)
  then show ?case using rcv_contents[of q v q1] by simp
qed

lemma trace_received_prefix:
  "trace q es q' \<Longrightarrow> contents q = [] \<Longrightarrow> prefix (received_of es) (sent_of es)"
  using trace_fifo[of q es q'] by (metis append_Nil prefixI)

lemma trace_bound:
  "trace q es q' \<Longrightarrow> length (contents q) \<le> bound q \<Longrightarrow>
     length (contents q') \<le> bound q' \<and> bound q' = bound q"
proof (induction rule: trace.induct)
  case (trace_nil q)
  then show ?case by simp
next
  case (trace_snd q v q1 es q2)
  then have "length (contents q1) \<le> bound q1"
    using snd_bound[of q v q1] snd_contents[of q v q1] by simp
  with trace_snd show ?case using snd_bound[of q v q1] by simp
next
  case (trace_rcv q v q1 es q2)
  then have "length (contents q1) \<le> bound q1"
    using rcv_bound[of q v q1] rcv_contents[of q v q1] by simp
  with trace_rcv show ?case using rcv_bound[of q v q1] by simp
qed

end

text \<open>Go's channels provide it.\<close>

definition chan_sends :: "'a gchan \<Rightarrow> 'a \<Rightarrow> 'a gchan \<Rightarrow> bool" where
  "chan_sends c v c' \<longleftrightarrow> chan_send c v = Happens c'"

definition chan_recvs :: "'a gchan \<Rightarrow> 'a \<Rightarrow> 'a gchan \<Rightarrow> bool" where
  "chan_recvs c v c' \<longleftrightarrow> chan_recv c = Happens (Some v, c')"

interpretation buffered: fifo chan_buf chan_cap chan_sends chan_recvs
  by unfold_locales
    (auto simp: chan_sends_def chan_recvs_def dest: chan_send_HappensD chan_recv_SomeD)

end
