(* ===== verification/Net_Local.thy ===== *)
theory Net_Local
  imports Net_Tcp Go_Chan
begin

text \<open>
  network/local.go: connections inside one process. A \<open>LocalManager\<close> maps the endpoints of
  open connections to connection objects and addresses to listeners; the two objects of a connection are made
  together by \<open>connect\<close>. Objects outlive their entry in the map, so they are kept in the list
  \<open>lm_objs\<close> and the map holds indices. Every object has a goroutine (\<open>start\<close>) that moves messages
  from \<open>incomingQueue\<close> to \<open>outgoingQueue\<close>; \<open>lc_moving\<close> is the message it has in hand.
  The manager's methods run under its mutex, so one that blocks stops every local connection.
\<close>

section \<open>State\<close>

definition LocalMaxBuffer :: nat where "LocalMaxBuffer = 200"

record endpoint =
  ep_addr :: Address
  ep_uid :: uint64

text \<open>\<open>lc_accepted\<close> and \<open>lc_received\<close> are histories: the messages put in \<open>incomingQueue\<close>
  and those taken by \<open>Receive\<close>.\<close>

record LocalConn =
  lc_local :: endpoint
  lc_remote :: endpoint
  lc_incomingQueue :: "bytes gchan"
  lc_outgoingQueue :: "bytes gchan"
  lc_moving :: "bytes option"
  lc_closeCh :: bool
  lc_counter :: counterSafe
  lc_accepted :: "bytes list"
  lc_received :: "bytes list"

text \<open>A listener is represented by its encoder, of type \<open>'e\<close>.\<close>

record 'e LocalManager =
  lm_objs :: "LocalConn list"
  lm_conns :: "(endpoint, nat) gomap"
  lm_listening :: "(Address, 'e) gomap"
  lm_counter :: uint64

datatype local_error = Not_listening Address Address | Local_net net_error | Local_marshal string
  | Already_listening Address | Bad_type string | Could_not_connect

definition NewLocalManager :: "'e LocalManager" where
  "NewLocalManager = \<lparr>lm_objs = [], lm_conns = [], lm_listening = [], lm_counter = 0\<rparr>"

definition newLocalConn :: "endpoint \<Rightarrow> endpoint \<Rightarrow> LocalConn" where
  "newLocalConn l r =
     \<lparr>lc_local = l, lc_remote = r, lc_incomingQueue = make_chan LocalMaxBuffer,
      lc_outgoingQueue = make_chan LocalMaxBuffer, lc_moving = None, lc_closeCh = False,
      lc_counter = \<lparr>ctr_tx = 0, ctr_rx = 0\<rparr>, lc_accepted = [], lc_received = []\<rparr>"

section \<open>Operations of the manager\<close>

definition isListening :: "'e LocalManager \<Rightarrow> Address \<Rightarrow> bool" where
  "isListening lm remote = (map_of (lm_listening lm) remote \<noteq> None)"

definition setListening :: "'e LocalManager \<Rightarrow> Address \<Rightarrow> 'e \<Rightarrow> 'e LocalManager" where
  "setListening lm addr enc = lm\<lparr>lm_listening := AList.update addr enc (lm_listening lm)\<rparr>"

definition unsetListening :: "'e LocalManager \<Rightarrow> Address \<Rightarrow> 'e LocalManager" where
  "unsetListening lm addr = lm\<lparr>lm_listening := AList.delete addr (lm_listening lm)\<rparr>"

text \<open>\<open>connect\<close>: the index of the outgoing object; the incoming one, given to the listener, is the next.\<close>

definition lm_connect :: "'e LocalManager \<Rightarrow> Address \<Rightarrow> Address \<Rightarrow> local_error + 'e LocalManager \<times> nat" where
  "lm_connect lm loc remote =
     (case map_of (lm_listening lm) remote of
        None \<Rightarrow> Inl (Not_listening loc remote)
      | Some info \<Rightarrow>
          (let outE = \<lparr>ep_addr = loc, ep_uid = lm_counter lm\<rparr>;
               incE = \<lparr>ep_addr = remote, ep_uid = lm_counter lm + 1\<rparr>;
               p = length (lm_objs lm)
           in Inr (lm\<lparr>lm_objs := lm_objs lm @ [newLocalConn outE incE, newLocalConn incE outE],
                      lm_conns := AList.update incE (p + 1) (AList.update outE p (lm_conns lm)),
                      lm_counter := lm_counter lm + 2\<rparr>, p)))"

definition put_conn :: "'e LocalManager \<Rightarrow> nat \<Rightarrow> LocalConn \<Rightarrow> 'e LocalManager" where
  "put_conn lm p c = lm\<lparr>lm_objs := (lm_objs lm)[p := c]\<rparr>"

text \<open>\<open>send\<close>: \<open>ErrClosed\<close> for an unknown endpoint; a full queue blocks.\<close>

definition lm_send :: "'e LocalManager \<Rightarrow> endpoint \<Rightarrow> bytes \<Rightarrow> ('e LocalManager \<times> local_error option) chan_result" where
  "lm_send lm e msg =
     (case map_of (lm_conns lm) e of
        None \<Rightarrow> Happens (lm, Some (Local_net ErrClosed))
      | Some q \<Rightarrow>
          (let c = lm_objs lm ! q
           in case chan_send (lc_incomingQueue c) msg of
                Happens ch \<Rightarrow>
                  Happens (put_conn lm q (c\<lparr>lc_incomingQueue := ch, lc_accepted := lc_accepted c @ [msg]\<rparr>), None)
              | Blocks \<Rightarrow> Blocks
              | Panics \<Rightarrow> Panics))"

definition lm_len :: "'e LocalManager \<Rightarrow> nat" where
  "lm_len lm = length (lm_conns lm)"

section \<open>The goroutine of a connection, and closing\<close>

text \<open>The two halves of a round of \<open>start\<close> that moves a message.\<close>

definition conn_take :: "LocalConn \<Rightarrow> LocalConn option" where
  "conn_take c =
     (if lc_closeCh c \<or> lc_moving c \<noteq> None then None
      else case chan_recv (lc_incomingQueue c) of
             Happens (Some buff, q) \<Rightarrow> Some (c\<lparr>lc_incomingQueue := q, lc_moving := Some buff\<rparr>)
           | _ \<Rightarrow> None)"

definition conn_move :: "LocalConn \<Rightarrow> LocalConn option" where
  "conn_move c =
     (case lc_moving c of
        None \<Rightarrow> None
      | Some buff \<Rightarrow>
          (case chan_send (lc_outgoingQueue c) buff of
             Happens q \<Rightarrow> Some (c\<lparr>lc_outgoingQueue := q, lc_moving := None\<rparr>)
           | _ \<Rightarrow> None))"

text \<open>The branch of \<open>start\<close> for the stop signal: both queues are closed, and the confirmation is sent.\<close>

definition conn_quit :: "LocalConn \<Rightarrow> LocalConn" where
  [simp]: "conn_quit c = c\<lparr>lc_outgoingQueue := (lc_outgoingQueue c)\<lparr>chan_closed := True\<rparr>,
     lc_incomingQueue := (lc_incomingQueue c)\<lparr>chan_closed := True\<rparr>\<rparr>"

text \<open>
  \<open>closeChannels\<close>: closes \<open>closeCh\<close> and waits for the goroutine, which moves the
  message it has in hand, then takes the stop signal and closes the two queues. (It may as well take some more messages
  first, where \<open>select\<close> picks them; these are rounds of \<open>conn_take\<close> and \<open>conn_move\<close> before the
  call.) The wait does not end when the message in hand does not fit in \<open>outgoingQueue\<close>.
\<close>

definition closeChannels :: "LocalConn \<Rightarrow> LocalConn chan_result" where
  "closeChannels c =
     (if lc_closeCh c then Panics
      else let stop = (\<lambda>c. Happens (conn_quit (c\<lparr>lc_closeCh := True\<rparr>)))
      in case lc_moving c of
           None \<Rightarrow> stop c
         | Some _ \<Rightarrow> (case conn_move c of Some c' \<Rightarrow> stop c' | None \<Rightarrow> Blocks))"

text \<open>\<open>close\<close> of the manager: both ends leave the map, then their queues are closed.\<close>

definition lm_close :: "'e LocalManager \<Rightarrow> nat \<Rightarrow> ('e LocalManager \<times> local_error option) chan_result" where
  "lm_close lm p =
     (let conn = lm_objs lm ! p
      in if map_of (lm_conns lm) (lc_local conn) = None then Happens (lm, Some (Local_net ErrClosed))
         else case closeChannels conn of
           Blocks \<Rightarrow> Blocks
         | Panics \<Rightarrow> Panics
         | Happens conn' \<Rightarrow>
             (let lm1 = (put_conn lm p conn')\<lparr>lm_conns := AList.delete (lc_local conn) (lm_conns lm)\<rparr>
              in case map_of (lm_conns lm1) (lc_remote conn) of
                   None \<Rightarrow> Happens (lm1, None)
                 | Some q \<Rightarrow>
                     (case closeChannels (lm_objs lm1 ! q) of
                        Blocks \<Rightarrow> Blocks
                      | Panics \<Rightarrow> Panics
                      | Happens rem \<Rightarrow>
                          Happens ((put_conn lm1 q rem)\<lparr>lm_conns := AList.delete (lc_remote conn) (lm_conns lm1)\<rparr>, None))))"

section \<open>Operations of a connection\<close>

text \<open>\<open>Send\<close>: the counter grows although the endpoint may be closed.\<close>

definition local_Send :: "('m \<Rightarrow> string + bytes) \<Rightarrow> 'e LocalManager \<Rightarrow> nat \<Rightarrow> 'm \<Rightarrow> ('e LocalManager \<times> local_error option) chan_result" where
  "local_Send marshal lm p msg =
     (case marshal msg of
        Inl e \<Rightarrow> Happens (lm, Some (Local_marshal e))
      | Inr buff \<Rightarrow>
          (let c = lm_objs lm ! p
           in lm_send (put_conn lm p (c\<lparr>lc_counter := updateTx (lc_counter c) (of_nat (length buff))\<rparr>)) (lc_remote c) buff))"

definition local_Receive :: "LocalConn \<Rightarrow> (LocalConn \<times> (local_error + bytes)) chan_result" where
  "local_Receive c =
     (case chan_recv (lc_outgoingQueue c) of
        Happens (Some buff, q) \<Rightarrow>
          Happens (c\<lparr>lc_outgoingQueue := q, lc_counter := updateRx (lc_counter c) (of_nat (length buff)),
                     lc_received := lc_received c @ [buff]\<rparr>, Inr buff)
      | Happens (None, q) \<Rightarrow> Happens (c, Inl (Local_net ErrClosed))
      | Blocks \<Rightarrow> Blocks
      | Panics \<Rightarrow> Panics)"

definition local_Close :: "'e LocalManager \<Rightarrow> nat \<Rightarrow> ('e LocalManager \<times> local_error option) chan_result" where
  "local_Close lm p =
     (if lc_closeCh (lm_objs lm ! p) then Happens (lm, Some (Local_net ErrClosed)) else lm_close lm p)"

section \<open>Connecting and listening\<close>

text \<open>
  \<open>NewLocalConnWithManager\<close>: attempt \<open>i\<close> finds the manager in the state \<open>lms i\<close>.
\<close>

fun local_dial :: "(nat \<Rightarrow> 'e LocalManager) \<Rightarrow> Address \<Rightarrow> Address \<Rightarrow> nat \<Rightarrow> nat \<Rightarrow> local_error + 'e LocalManager \<times> nat" where
  "local_dial lms loc remote i 0 = Inl Could_not_connect"
| "local_dial lms loc remote i (Suc rounds) =
     (case lm_connect (lms i) loc remote of
        Inr r \<Rightarrow> Inr r
      | Inl e \<Rightarrow> if i = MaxRetryConnect - 1 then Inl e else local_dial lms loc remote (i + 1) rounds)"

definition NewLocalConnWithManager :: "(nat \<Rightarrow> 'e LocalManager) \<Rightarrow> Address \<Rightarrow> Address \<Rightarrow> local_error + 'e LocalManager \<times> nat" where
  "NewLocalConnWithManager lms loc remote = local_dial lms loc remote 0 MaxRetryConnect"

record 'e LocalListener =
  ll_enc :: 'e
  ll_addr :: Address
  ll_listening :: bool

definition NewLocalListenerWithManager :: "'e LocalManager \<Rightarrow> Address \<Rightarrow> 'e \<Rightarrow> local_error + 'e LocalListener" where
  "NewLocalListenerWithManager lm addr e =
     (if ConnType_of addr \<noteq> Local then Inl (Bad_type (ConnType_of addr))
      else if isListening lm addr then Inl (Already_listening addr)
      else Inr \<lparr>ll_enc = e, ll_addr = addr, ll_listening = False\<rparr>)"

text \<open>\<open>Listen\<close> up to the point where it waits for \<open>Stop\<close>.\<close>

definition local_Listen :: "'e LocalManager \<Rightarrow> 'e LocalListener \<Rightarrow> local_error + 'e LocalManager \<times> 'e LocalListener" where
  "local_Listen lm ll =
     (if ll_listening ll then Inl (Already_listening (ll_addr ll))
      else Inr (setListening lm (ll_addr ll) (ll_enc ll), ll\<lparr>ll_listening := True\<rparr>))"

definition local_Stop :: "'e LocalManager \<Rightarrow> 'e LocalListener \<Rightarrow> 'e LocalManager \<times> 'e LocalListener" where
  "local_Stop lm ll =
     (if \<not> ll_listening ll then (lm, ll) else (unsetListening lm (ll_addr ll), ll\<lparr>ll_listening := False\<rparr>))"

text \<open>\<open>LocalHost.Connect\<close>: round \<open>k\<close> sees the states \<open>lms k\<close>.\<close>

fun host_rounds :: "(nat \<Rightarrow> nat \<Rightarrow> 'e LocalManager) \<Rightarrow> Address \<Rightarrow> Address \<Rightarrow> local_error option \<Rightarrow> nat \<Rightarrow> nat \<Rightarrow>
   local_error option + 'e LocalManager \<times> nat" where
  "host_rounds lms loc remote finalErr k 0 = Inl finalErr"
| "host_rounds lms loc remote finalErr k (Suc rounds) =
     (case NewLocalConnWithManager (lms k) loc remote of
        Inr r \<Rightarrow> Inr r
      | Inl e \<Rightarrow> host_rounds lms loc remote (Some e) (k + 1) rounds)"

definition localhost_Connect :: "(nat \<Rightarrow> nat \<Rightarrow> 'e LocalManager) \<Rightarrow> Address \<Rightarrow> Address \<Rightarrow> local_error option + 'e LocalManager \<times> nat" where
  "localhost_Connect lms loc addr =
     (if ConnType_of addr \<noteq> Local then Inl (Some (Bad_type addr))
      else host_rounds lms loc addr None 0 MaxRetryConnect)"

section \<open>Steps\<close>

text \<open>A message that cannot be marshalled changes nothing, so the steps send marshalled ones.\<close>

inductive local_step :: "'e LocalManager \<Rightarrow> 'e LocalManager \<Rightarrow> bool" where
  listen: "local_step lm (setListening lm addr enc)"
| unlisten: "local_step lm (unsetListening lm addr)"
| connect: "lm_connect lm loc remote = Inr (lm', p) \<Longrightarrow> local_step lm lm'"
| send: "p < length (lm_objs lm) \<Longrightarrow> local_Send Inr lm p buff = Happens (lm', err) \<Longrightarrow> local_step lm lm'"
| take: "p < length (lm_objs lm) \<Longrightarrow> conn_take (lm_objs lm ! p) = Some c' \<Longrightarrow> local_step lm (put_conn lm p c')"
| move: "p < length (lm_objs lm) \<Longrightarrow> conn_move (lm_objs lm ! p) = Some c' \<Longrightarrow> local_step lm (put_conn lm p c')"
| receive: "p < length (lm_objs lm) \<Longrightarrow> local_Receive (lm_objs lm ! p) = Happens (c', res) \<Longrightarrow> local_step lm (put_conn lm p c')"
| close: "p < length (lm_objs lm) \<Longrightarrow> local_Close lm p = Happens (lm', err) \<Longrightarrow> local_step lm lm'"

inductive local_reachable :: "'e LocalManager \<Rightarrow> bool" where
  start: "local_reachable NewLocalManager"
| step: "local_reachable lm \<Longrightarrow> local_step lm lm' \<Longrightarrow> local_reachable lm'"

section \<open>The invariant\<close>

definition partner :: "nat \<Rightarrow> nat" where
  "partner p = (if even p then p + 1 else p - 1)"

lemma partner_simps [simp]: "partner (partner p) = p" "partner p \<noteq> p"
  by (auto simp: partner_def elim: oddE)

lemma partner_less: "even n \<Longrightarrow> p < n \<Longrightarrow> partner p < n"
  by (auto simp: partner_def) presburger

definition conn_ok :: "LocalConn \<Rightarrow> bool" where
  "conn_ok c =
     (wf_chan (lc_incomingQueue c) \<and> chan_cap (lc_incomingQueue c) = LocalMaxBuffer \<and>
      wf_chan (lc_outgoingQueue c) \<and> chan_cap (lc_outgoingQueue c) = LocalMaxBuffer \<and>
      chan_closed (lc_incomingQueue c) = lc_closeCh c \<and> chan_closed (lc_outgoingQueue c) = lc_closeCh c \<and>
      (lc_closeCh c \<longrightarrow> lc_moving c = None) \<and>
      lc_received c @ chan_buf (lc_outgoingQueue c) @ (case lc_moving c of None \<Rightarrow> [] | Some b \<Rightarrow> [b]) @
        chan_buf (lc_incomingQueue c) = lc_accepted c)"

definition paired :: "LocalConn list \<Rightarrow> bool" where
  "paired objs =
     (even (length objs) \<and> (\<forall>p < length objs. ep_uid (lc_local (objs ! p)) = of_nat p \<and>
        lc_remote (objs ! p) = lc_local (objs ! partner p) \<and>
        lc_closeCh (objs ! p) = lc_closeCh (objs ! partner p)))"

definition conns_ok :: "LocalConn list \<Rightarrow> (endpoint, nat) gomap \<Rightarrow> bool" where
  "conns_ok objs conns =
     (wf_map conns \<and> fst ` set conns \<subseteq> lc_local ` set objs \<and>
      (\<forall>p < length objs. map_of conns (lc_local (objs ! p)) = (if lc_closeCh (objs ! p) then None else Some p)))"

definition local_inv :: "'e LocalManager \<Rightarrow> bool" where
  [inv_defs]: "local_inv lm =
     (lm_counter lm = of_nat (length (lm_objs lm)) \<and> list_all conn_ok (lm_objs lm) \<and>
      paired (lm_objs lm) \<and> conns_ok (lm_objs lm) (lm_conns lm))"

lemma newLocalConn_ok: "conn_ok (newLocalConn l r)"
  by (simp add: conn_ok_def newLocalConn_def) (simp add: make_chan_def)

lemma conn_take_ok:
  assumes "conn_ok c" and "conn_take c = Some c'"
  shows "conn_ok c' \<and> lc_local c' = lc_local c \<and> lc_remote c' = lc_remote c \<and> lc_closeCh c' = lc_closeCh c"
proof -
  obtain b q where "chan_recv (lc_incomingQueue c) = Happens (Some b, q)" "lc_moving c = None" "\<not> lc_closeCh c"
    "c' = c\<lparr>lc_incomingQueue := q, lc_moving := Some b\<rparr>"
    using assms(2) by (auto simp: conn_take_def split: if_splits chan_result.splits option.splits)
  with assms(1) show ?thesis using wf_chan_recv[of "lc_incomingQueue c" "Some b" q] chan_recv_SomeD[of "lc_incomingQueue c" b q]
    by (simp add: conn_ok_def)
qed

lemma conn_move_ok:
  assumes "conn_ok c" and "conn_move c = Some c'"
  shows "conn_ok c' \<and> lc_local c' = lc_local c \<and> lc_remote c' = lc_remote c \<and> lc_closeCh c' = lc_closeCh c \<and>
    lc_moving c' = None"
proof -
  obtain b q where "chan_send (lc_outgoingQueue c) b = Happens q" "lc_moving c = Some b"
    "c' = c\<lparr>lc_outgoingQueue := q, lc_moving := None\<rparr>"
    using assms(2) by (auto simp: conn_move_def split: option.splits chan_result.splits)
  with assms(1) show ?thesis using wf_chan_send[of "lc_outgoingQueue c" b q] chan_send_HappensD[of "lc_outgoingQueue c" b q]
    by (simp add: conn_ok_def)
qed

lemma local_Receive_ok:
  assumes "conn_ok c" and "local_Receive c = Happens (c', res)"
  shows "conn_ok c' \<and> lc_local c' = lc_local c \<and> lc_remote c' = lc_remote c \<and> lc_closeCh c' = lc_closeCh c"
proof (cases "c' = c")
  case False
  then obtain b q where "chan_recv (lc_outgoingQueue c) = Happens (Some b, q)"
    "c' = c\<lparr>lc_outgoingQueue := q, lc_counter := updateRx (lc_counter c) (of_nat (length b)), lc_received := lc_received c @ [b]\<rparr>"
    using assms(2) by (auto simp: local_Receive_def split: chan_result.splits option.splits)
  with assms(1) show ?thesis using wf_chan_recv[of "lc_outgoingQueue c" "Some b" q] chan_recv_SomeD[of "lc_outgoingQueue c" b q]
    by (simp add: conn_ok_def)
qed (use assms in auto)

lemma closeChannels_ok:
  assumes "conn_ok c" and "closeChannels c = Happens c'"
  shows "conn_ok c' \<and> lc_local c' = lc_local c \<and> lc_remote c' = lc_remote c \<and> lc_closeCh c'"
proof (cases "lc_moving c")
  case None
  with assms show ?thesis by (auto simp: closeChannels_def conn_ok_def wf_chan_def split: if_splits)
next
  case (Some b)
  then obtain c1 where c1: "conn_move c = Some c1"
    and c': "c' = c1\<lparr>lc_closeCh := True, lc_outgoingQueue := (lc_outgoingQueue c1)\<lparr>chan_closed := True\<rparr>,
               lc_incomingQueue := (lc_incomingQueue c1)\<lparr>chan_closed := True\<rparr>\<rparr>"
    using assms(2) by (auto simp: closeChannels_def split: if_splits option.splits)
  from conn_move_ok[OF assms(1) c1] show ?thesis by (auto simp: c' conn_ok_def wf_chan_def)
qed

text \<open>Replacing an object by one with the same endpoints and state of its stop signal.\<close>

lemma put_conn_inv:
  assumes "local_inv lm" and "p < length (lm_objs lm)" and "conn_ok c"
    and "lc_local c = lc_local (lm_objs lm ! p)" and "lc_remote c = lc_remote (lm_objs lm ! p)"
    and "lc_closeCh c = lc_closeCh (lm_objs lm ! p)"
  shows "local_inv (put_conn lm p c)"
proof -
  let ?objs = "(lm_objs lm)[p := c]"
  have same: "lc_local (?objs ! q) = lc_local (lm_objs lm ! q)" "lc_remote (?objs ! q) = lc_remote (lm_objs lm ! q)"
    "lc_closeCh (?objs ! q) = lc_closeCh (lm_objs lm ! q)" for q
    by (cases "q = p"; use assms(2,4-6) in simp)+
  have "map lc_local ?objs = map lc_local (lm_objs lm)"
    by (rule nth_equalityI) (auto simp: same)
  then have "lc_local ` set ?objs = lc_local ` set (lm_objs lm)" by (metis list.set_map)
  moreover have "list_all conn_ok ?objs" using assms(1,3)
    by (auto simp: local_inv_def list_all_iff dest!: set_update_subset_insert[THEN subsetD])
  ultimately show ?thesis using assms(1)
    by (simp add: local_inv_def put_conn_def paired_def conns_ok_def same)
qed

lemma conn_ok_nth: "local_inv lm \<Longrightarrow> p < length (lm_objs lm) \<Longrightarrow> conn_ok (lm_objs lm ! p)"
  by (simp add: local_inv_def list_all_length)

lemma of_nat_uint64_inj: "p < 2 ^ 64 \<Longrightarrow> q < 2 ^ 64 \<Longrightarrow> (of_nat p :: uint64) = of_nat q \<Longrightarrow> p = q"
  by (drule arg_cong[where f = unat]) (simp add: unat_of_nat)

text \<open>Endpoints are unique as long as the counter has not wrapped around.\<close>

lemma local_unique:
  assumes "local_inv lm" and "length (lm_objs lm) < 2 ^ 64" and "p < length (lm_objs lm)" and "q < length (lm_objs lm)"
    and "lc_local (lm_objs lm ! p) = lc_local (lm_objs lm ! q)"
  shows "p = q"
proof -
  have "(of_nat p :: uint64) = of_nat q" using assms by (metis local_inv_def paired_def)
  then show ?thesis using assms(2-4) by (intro of_nat_uint64_inj) auto
qed

lemma lm_connect_inv:
  assumes "local_inv lm" and "lm_connect lm loc remote = Inr (lm', p)" and "length (lm_objs lm') < 2 ^ 64"
  shows "local_inv lm'"
proof -
  let ?n = "length (lm_objs lm)"
  let ?o = "\<lparr>ep_addr = loc, ep_uid = lm_counter lm\<rparr>" and ?i = "\<lparr>ep_addr = remote, ep_uid = lm_counter lm + 1\<rparr>"
  have lm': "lm' = lm\<lparr>lm_objs := lm_objs lm @ [newLocalConn ?o ?i, newLocalConn ?i ?o],
      lm_conns := AList.update ?i (?n + 1) (AList.update ?o ?n (lm_conns lm)), lm_counter := lm_counter lm + 2\<rparr>"
    using assms(2) by (auto simp: lm_connect_def Let_def split: option.splits)
  have n: "even ?n" "?n + 2 < 2 ^ 64" "lm_counter lm = of_nat ?n"
    using assms(1,3) by (auto simp: lm' local_inv_def paired_def)
  have new: "lc_local (newLocalConn a b) = a" "lc_remote (newLocalConn a b) = b" "\<not> lc_closeCh (newLocalConn a b)" for a b
    by (auto simp: newLocalConn_def)
  have part: "partner q < ?n \<longleftrightarrow> q < ?n" for q
    using n(1) partner_less[of ?n q] partner_less[of ?n "partner q"] by auto
  have old: "ep_uid (lc_local (lm_objs lm ! q)) = of_nat q" if "q < ?n" for q
    using assms(1) that by (auto simp: local_inv_def paired_def)
  have fresh: "lc_local (lm_objs lm ! q) \<noteq> ?o" "lc_local (lm_objs lm ! q) \<noteq> ?i" if "q < ?n" for q
  proof -
    have "(of_nat q :: uint64) \<noteq> of_nat ?n" "(of_nat q :: uint64) \<noteq> of_nat (Suc ?n)"
      using that n(2) of_nat_uint64_inj[of q ?n] of_nat_uint64_inj[of q "Suc ?n"] by auto
    then show "lc_local (lm_objs lm ! q) \<noteq> ?o" "lc_local (lm_objs lm ! q) \<noteq> ?i"
      using old[OF that] n(3) by (auto simp: add.commute)
  qed
  have oi: "?o \<noteq> ?i" by simp
  have pn: "partner ?n = Suc ?n" "partner (Suc ?n) = ?n" using n(1) by (auto simp: partner_def)
  have "paired (lm_objs lm')"
    unfolding paired_def
  proof (intro conjI allI impI)
    show "even (length (lm_objs lm'))" using n(1) by (simp add: lm')
  next
    fix q assume "q < length (lm_objs lm')"
    then consider "q < ?n" | "q = ?n" | "q = Suc ?n" by (auto simp: lm' less_Suc_eq)
    note cases = this
    show "ep_uid (lc_local (lm_objs lm' ! q)) = of_nat q"
      using cases old n(3) by cases (auto simp: lm' nth_append new add.commute)
    have "lc_remote (lm_objs lm' ! q) = lc_local (lm_objs lm' ! partner q) \<and>
      lc_closeCh (lm_objs lm' ! q) = lc_closeCh (lm_objs lm' ! partner q)"
    proof (cases "q < ?n")
      case True
      then have "lm_objs lm' ! q = lm_objs lm ! q" "lm_objs lm' ! partner q = lm_objs lm ! partner q"
        using part[of q] by (auto simp: lm' nth_append)
      then show ?thesis
        using assms(1) True by (simp_all add: local_inv_def paired_def)
    next
      case False
      with cases have "q = ?n \<or> q = Suc ?n" by blast
      then show ?thesis
        by (auto simp: lm' nth_append new pn)
    qed
    then show "lc_remote (lm_objs lm' ! q) = lc_local (lm_objs lm' ! partner q)"
      "lc_closeCh (lm_objs lm' ! q) = lc_closeCh (lm_objs lm' ! partner q)" by blast+
  qed
  moreover have "conns_ok (lm_objs lm') (lm_conns lm')"
  proof -
    have ok: "conns_ok (lm_objs lm) (lm_conns lm)" using assms(1) by (simp add: local_inv_def)
    have "map_of (lm_conns lm') (lc_local (lm_objs lm' ! q)) = (if lc_closeCh (lm_objs lm' ! q) then None else Some q)"
      if "q < length (lm_objs lm')" for q
    proof (cases "q < ?n")
      case True
      then show ?thesis using ok fresh[OF True] by (simp add: lm' lookup_update nth_append conns_ok_def)
    next
      case False
      then have "q = ?n \<or> q = Suc ?n" using that by (auto simp: lm' less_Suc_eq)
      then show ?thesis by (auto simp: lm' lookup_update nth_append new)
    qed
    moreover have "fst ` set (lm_conns lm') \<subseteq> lc_local ` set (lm_objs lm')"
      using ok by (auto simp: lm' keys_update new conns_ok_def)
    moreover have "wf_map (lm_conns lm')" using ok by (auto simp: lm' conns_ok_def)
    ultimately show ?thesis by (simp add: conns_ok_def)
  qed
  ultimately show ?thesis using assms(1) n(3) by (simp add: local_inv_def lm' newLocalConn_ok)
qed

lemma conns_lookup:
  assumes "local_inv lm" and "length (lm_objs lm) < 2 ^ 64" and "map_of (lm_conns lm) e = Some q"
  shows "q < length (lm_objs lm) \<and> lc_local (lm_objs lm ! q) = e \<and> \<not> lc_closeCh (lm_objs lm ! q)"
proof -
  have ok: "conns_ok (lm_objs lm) (lm_conns lm)" using assms(1) by (simp add: local_inv_def)
  then have "e \<in> lc_local ` set (lm_objs lm)" using lookup_Some_key[OF assms(3)] by (auto simp: conns_ok_def)
  then obtain p where "p < length (lm_objs lm)" "e = lc_local (lm_objs lm ! p)" by (auto simp: in_set_conv_nth)
  with ok assms(3) show ?thesis by (auto simp: conns_ok_def split: if_splits)
qed

lemma lm_send_inv:
  assumes "local_inv lm" and "length (lm_objs lm) < 2 ^ 64" and "lm_send lm e msg = Happens (lm', err)"
  shows "local_inv lm'"
proof (cases "map_of (lm_conns lm) e")
  case None
  with assms show ?thesis by (simp add: lm_send_def)
next
  case (Some q)
  then obtain ch where ch: "chan_send (lc_incomingQueue (lm_objs lm ! q)) msg = Happens ch"
    and lm': "lm' = put_conn lm q ((lm_objs lm ! q)\<lparr>lc_incomingQueue := ch, lc_accepted := lc_accepted (lm_objs lm ! q) @ [msg]\<rparr>)"
    using assms(3) by (auto simp: lm_send_def Let_def split: chan_result.splits)
  have q: "q < length (lm_objs lm)" using conns_lookup[OF assms(1,2) Some] by blast
  have "conn_ok ((lm_objs lm ! q)\<lparr>lc_incomingQueue := ch, lc_accepted := lc_accepted (lm_objs lm ! q) @ [msg]\<rparr>)"
    using conn_ok_nth[OF assms(1) q] ch wf_chan_send[OF _ ch] chan_send_HappensD[OF ch]
    by (auto simp: conn_ok_def split: option.splits)
  then show ?thesis unfolding lm' using q by (intro put_conn_inv[OF assms(1)]) auto
qed

lemma local_Send_inv:
  assumes "local_inv lm" and "length (lm_objs lm) < 2 ^ 64" and "p < length (lm_objs lm)"
    and "local_Send marshal lm p msg = Happens (lm', err)"
  shows "local_inv lm'"
proof (cases "marshal msg")
  case (Inl e)
  with assms show ?thesis by (simp add: local_Send_def)
next
  case (Inr buff)
  let ?c = "lm_objs lm ! p"
  let ?c' = "?c\<lparr>lc_counter := updateTx (lc_counter ?c) (of_nat (length buff))\<rparr>"
  have "conn_ok ?c'" using conn_ok_nth[OF assms(1,3)] by (simp add: conn_ok_def)
  then have inv: "local_inv (put_conn lm p ?c')" using assms(3) by (intro put_conn_inv[OF assms(1)]) auto
  have snd: "lm_send (put_conn lm p ?c') (lc_remote ?c) buff = Happens (lm', err)"
    using assms(4) Inr by (simp add: local_Send_def Let_def)
  show ?thesis by (rule lm_send_inv[OF inv _ snd]) (use assms(2) in \<open>simp add: put_conn_def\<close>)
qed

text \<open>
  Closing: both objects of the pair are stopped, both entries are gone.
\<close>

lemma lm_close_cases:
  assumes "local_inv lm" and "length (lm_objs lm) < 2 ^ 64" and "p < length (lm_objs lm)"
    and "\<not> lc_closeCh (lm_objs lm ! p)" and "lm_close lm p = Happens (lm', err)"
  obtains c r where "closeChannels (lm_objs lm ! p) = Happens c" "closeChannels (lm_objs lm ! partner p) = Happens r"
    "lm' = lm\<lparr>lm_objs := (lm_objs lm)[p := c, partner p := r],
      lm_conns := AList.delete (lc_local (lm_objs lm ! partner p)) (AList.delete (lc_local (lm_objs lm ! p)) (lm_conns lm))\<rparr>"
    "err = None"
proof -
  let ?q = "partner p"
  have q: "?q < length (lm_objs lm)" and rem: "lc_remote (lm_objs lm ! p) = lc_local (lm_objs lm ! ?q)"
    and open_q: "\<not> lc_closeCh (lm_objs lm ! ?q)"
    using assms(1,3,4) by (auto simp: local_inv_def paired_def intro: partner_less)
  have lk: "map_of (lm_conns lm) (lc_local (lm_objs lm ! p)) = Some p" "map_of (lm_conns lm) (lc_local (lm_objs lm ! ?q)) = Some ?q"
    using assms(1,3,4) q open_q by (auto simp: local_inv_def conns_ok_def)
  have diff: "lc_local (lm_objs lm ! ?q) \<noteq> lc_local (lm_objs lm ! p)"
    using local_unique[OF assms(1,2) q assms(3)] by auto
  obtain c where c: "closeChannels (lm_objs lm ! p) = Happens c"
    using assms(5) lk(1) by (auto simp: lm_close_def Let_def split: chan_result.splits)
  have nth: "(lm_objs lm)[p := c] ! ?q = lm_objs lm ! ?q" using partner_simps(2)[of p] by (metis nth_list_update_neq)
  obtain r where r: "closeChannels (lm_objs lm ! ?q) = Happens r"
    using assms(5) lk c diff by (auto simp: lm_close_def Let_def rem put_conn_def lookup_delete nth split: chan_result.splits)
  from assms(5) lk c r diff show ?thesis
    by (intro that[OF c r]) (auto simp: lm_close_def Let_def rem put_conn_def lookup_delete nth)
qed

lemma lm_close_inv:
  assumes "local_inv lm" and "length (lm_objs lm) < 2 ^ 64" and "p < length (lm_objs lm)"
    and "\<not> lc_closeCh (lm_objs lm ! p)" and "lm_close lm p = Happens (lm', err)"
  shows "local_inv lm'"
proof -
  let ?q = "partner p" and ?n = "length (lm_objs lm)"
  obtain c r where c: "closeChannels (lm_objs lm ! p) = Happens c" and r: "closeChannels (lm_objs lm ! ?q) = Happens r"
    and lm': "lm' = lm\<lparr>lm_objs := (lm_objs lm)[p := c, ?q := r],
      lm_conns := AList.delete (lc_local (lm_objs lm ! ?q)) (AList.delete (lc_local (lm_objs lm ! p)) (lm_conns lm))\<rparr>"
    using lm_close_cases[OF assms] by blast
  have q: "?q < ?n" using assms(1,3) by (auto simp: local_inv_def paired_def intro: partner_less)
  note ok = closeChannels_ok[OF conn_ok_nth[OF assms(1,3)] c] closeChannels_ok[OF conn_ok_nth[OF assms(1) q] r]
  let ?objs = "(lm_objs lm)[p := c, ?q := r]"
  have nth: "?objs ! k = (if k = ?q then r else if k = p then c else lm_objs lm ! k)" for k
    using assms(3) q by (cases "k = ?q"; cases "k = p") auto
  have same: "lc_local (?objs ! k) = lc_local (lm_objs lm ! k)" "lc_remote (?objs ! k) = lc_remote (lm_objs lm ! k)"
    "lc_closeCh (?objs ! k) \<longleftrightarrow> k = p \<or> k = ?q \<or> lc_closeCh (lm_objs lm ! k)" for k
    using ok by (auto simp: nth)
  have pair: "partner k = p \<longleftrightarrow> k = ?q" "partner k = ?q \<longleftrightarrow> k = p" for k by (metis partner_simps(1))+
  have "paired ?objs" using assms(1) by (simp add: local_inv_def paired_def same pair) blast
  moreover have "list_all conn_ok ?objs"
    using assms(1) ok by (auto simp: local_inv_def list_all_length nth)
  moreover have "map lc_local ?objs = map lc_local (lm_objs lm)" by (rule nth_equalityI) (auto simp: same)
  then have "lc_local ` set ?objs = lc_local ` set (lm_objs lm)" by (metis list.set_map)
  moreover have "map_of (lm_conns lm') (lc_local (lm_objs lm ! k)) = (if lc_closeCh (?objs ! k) then None else Some k)" if "k < ?n" for k
    using that assms(1) local_unique[OF assms(1,2) that assms(3)] local_unique[OF assms(1,2) that q]
    by (auto simp: lm' lookup_delete same local_inv_def conns_ok_def)
  ultimately show ?thesis using assms(1)
    by (auto simp: lm' local_inv_def conns_ok_def same keys_delete)
qed

lemma local_Close_inv:
  assumes "local_inv lm" and "length (lm_objs lm) < 2 ^ 64" and "p < length (lm_objs lm)"
    and "local_Close lm p = Happens (lm', err)"
  shows "local_inv lm'"
  using assms lm_close_inv[OF assms(1-3)] by (auto simp: local_Close_def split: if_splits)

lemma lm_send_length: "lm_send lm e b = Happens (lm', err) \<Longrightarrow> length (lm_objs lm') = length (lm_objs lm)"
  by (auto simp: lm_send_def put_conn_def Let_def split: option.splits chan_result.splits)

lemma local_step_length: "local_step lm lm' \<Longrightarrow> length (lm_objs lm) \<le> length (lm_objs lm')"
proof (induction rule: local_step.induct)
  case (send p lm buff lm' err)
  then show ?case by (auto simp: local_Send_def Let_def put_conn_def dest!: lm_send_length)
next
  case (close p lm lm' err)
  then show ?case
    by (auto simp: local_Close_def lm_close_def put_conn_def Let_def split: if_splits option.splits chan_result.splits)
qed (auto simp: setListening_def unsetListening_def put_conn_def lm_connect_def Let_def split: option.splits)

lemma local_step_inv:
  assumes "local_step lm lm'" and "local_inv lm" and "length (lm_objs lm') < 2 ^ 64"
  shows "local_inv lm'"
proof -
  have "length (lm_objs lm) < 2 ^ 64" using local_step_length[OF assms(1)] assms(3) by simp
  with assms show ?thesis
  proof (induction rule: local_step.induct)
    case (listen lm addr enc)
    then show ?case by (simp add: local_inv_def setListening_def)
  next
    case (unlisten lm addr)
    then show ?case by (simp add: local_inv_def unsetListening_def)
  next
    case (connect lm loc remote lm' p)
    then show ?case by (blast intro: lm_connect_inv)
  next
    case (send p lm buff lm' err)
    then show ?case by (blast intro: local_Send_inv)
  next
    case (take p lm c')
    then show ?case using conn_take_ok[OF conn_ok_nth take(2)] by (intro put_conn_inv) auto
  next
    case (move p lm c')
    then show ?case using conn_move_ok[OF conn_ok_nth move(2)] by (intro put_conn_inv) auto
  next
    case (receive p lm c' res)
    then show ?case using local_Receive_ok[OF conn_ok_nth receive(2)] by (intro put_conn_inv) auto
  next
    case (close p lm lm' err)
    then show ?case by (blast intro: local_Close_inv)
  qed
qed

lemma local_reachable_inv: "local_reachable lm \<Longrightarrow> length (lm_objs lm) < 2 ^ 64 \<Longrightarrow> local_inv lm"
proof (induction rule: local_reachable.induct)
  case start
  then show ?case by (simp add: local_inv_def NewLocalManager_def paired_def conns_ok_def)
next
  case (step lm lm')
  then show ?case using local_step_length[OF step(2)] by (intro local_step_inv[OF step(2)]) auto
qed

section \<open>A run that fills a connection\<close>

text \<open>One connection whose incoming end has \<open>k\<close> messages nobody receives.\<close>

definition end_out :: endpoint where "end_out = \<lparr>ep_addr = ''local://a:1'', ep_uid = 0\<rparr>"
definition end_in :: endpoint where "end_in = \<lparr>ep_addr = ''local://b:2'', ep_uid = 1\<rparr>"

definition loaded :: "nat \<Rightarrow> LocalConn" where
  "loaded k = (newLocalConn end_in end_out)\<lparr>lc_outgoingQueue := (make_chan LocalMaxBuffer)\<lparr>chan_buf := replicate k [1]\<rparr>,
     lc_accepted := replicate k [1]\<rparr>"

definition sender_after :: "nat \<Rightarrow> LocalConn" where
  "sender_after k = (newLocalConn end_out end_in)\<lparr>lc_counter := \<lparr>ctr_tx = of_nat k, ctr_rx = 0\<rparr>\<rparr>"

definition pair_with :: "LocalConn \<Rightarrow> LocalConn \<Rightarrow> unit LocalManager" where
  "pair_with c d = \<lparr>lm_objs = [c, d], lm_conns = [(end_out, 0), (end_in, 1)],
     lm_listening = [(''local://b:2'', ())], lm_counter = 2\<rparr>"

definition in_hand :: "nat \<Rightarrow> LocalConn" where
  "in_hand k = (loaded k)\<lparr>lc_moving := Some [1], lc_accepted := replicate (Suc k) [1]\<rparr>"

definition queued :: "nat \<Rightarrow> LocalConn" where
  "queued k = (loaded k)\<lparr>lc_incomingQueue := (make_chan LocalMaxBuffer)\<lparr>chan_buf := [[1]]\<rparr>, lc_accepted := replicate (Suc k) [1]\<rparr>"

lemmas pair_defs = pair_with_def loaded_def sender_after_def in_hand_def queued_def newLocalConn_def make_chan_def end_out_def end_in_def

lemma pair_reachable_start: "local_reachable (pair_with (sender_after 0) (loaded 0))"
proof -
  let ?lm = "setListening NewLocalManager ''local://b:2'' ()"
  have "local_reachable ?lm" by (intro local_reachable.step[OF local_reachable.start] local_step.listen)
  moreover have "lm_connect ?lm ''local://a:1'' ''local://b:2'' = Inr (pair_with (sender_after 0) (loaded 0), 0)"
    by (simp add: lm_connect_def setListening_def NewLocalManager_def pair_defs Let_def)
  ultimately show ?thesis by (blast intro: local_reachable.step local_step.connect)
qed

lemma pair_send:
  assumes "local_reachable (pair_with (sender_after k) (loaded k))"
  shows "local_reachable (pair_with (sender_after (Suc k)) (in_hand k))"
proof -
  have "local_Send Inr (pair_with (sender_after k) (loaded k)) 0 [1] = Happens (pair_with (sender_after (Suc k)) (queued k), None)"
    by (simp add: local_Send_def lm_send_def put_conn_def pair_defs chan_send_def LocalMaxBuffer_def Let_def updateTx_def
        replicate_append_same add.commute)
  then have "local_reachable (pair_with (sender_after (Suc k)) (queued k))"
    by (intro local_reachable.step[OF assms] local_step.send[of 0]) (auto simp: pair_with_def)
  moreover have "conn_take (queued k) = Some (in_hand k)"
    by (simp add: conn_take_def pair_defs chan_recv_def)
  then have "local_step (pair_with (sender_after (Suc k)) (queued k))
      (put_conn (pair_with (sender_after (Suc k)) (queued k)) 1 (in_hand k))"
    by (intro local_step.take) (auto simp: pair_with_def)
  ultimately show ?thesis using local_reachable.step by (fastforce simp: put_conn_def pair_with_def)
qed

lemma pair_reachable: "k \<le> LocalMaxBuffer \<Longrightarrow> local_reachable (pair_with (sender_after k) (loaded k))"
proof (induction k)
  case 0
  then show ?case by (simp add: pair_reachable_start)
next
  case (Suc k)
  have "conn_move (in_hand k) = Some (loaded (Suc k))"
    using Suc.prems by (simp add: conn_move_def pair_defs chan_send_def replicate_append_same)
  then have "local_step (pair_with (sender_after (Suc k)) (in_hand k))
      (put_conn (pair_with (sender_after (Suc k)) (in_hand k)) 1 (loaded (Suc k)))"
    by (intro local_step.move) (auto simp: pair_with_def)
  then show ?case using local_reachable.step[OF pair_send] Suc by (fastforce simp: put_conn_def pair_with_def)
qed

section \<open>Properties of the local connections\<close>

text \<open>
  C20. Delivery on local connections: a message sent on one end of a connection is queued at the
  other end of the same connection and nowhere else, and what an end has received is a prefix of what was queued for it,
  in order; its queues never hold more than \<open>LocalMaxBuffer\<close> messages each.
\<close>

theorem local_messages_fifo:
  assumes "local_reachable lm" and "length (lm_objs lm) < 2 ^ 64" and "p < length (lm_objs lm)" and "k < length (lm_objs lm)"
    and "marshal m = Inr b" and "local_Send marshal lm p m = Happens (lm', None)"
  shows "lc_accepted (lm_objs lm' ! k) = lc_accepted (lm_objs lm ! k) @ (if k = partner p then [b] else []) \<and>
    prefix (lc_received (lm_objs lm' ! k)) (lc_accepted (lm_objs lm' ! k)) \<and>
    length (chan_buf (lc_incomingQueue (lm_objs lm' ! k))) \<le> LocalMaxBuffer \<and>
    length (chan_buf (lc_outgoingQueue (lm_objs lm' ! k))) \<le> LocalMaxBuffer"
proof -
  let ?c = "lm_objs lm ! p"
  let ?lm1 = "put_conn lm p (?c\<lparr>lc_counter := updateTx (lc_counter ?c) (of_nat (length b))\<rparr>)"
  have inv: "local_inv lm" by (rule local_reachable_inv[OF assms(1,2)])
  have snd: "lm_send ?lm1 (lc_remote ?c) b = Happens (lm', None)"
    using assms(5,6) by (simp add: local_Send_def Let_def)
  then obtain q where q: "map_of (lm_conns lm) (lc_remote ?c) = Some q"
    by (auto simp: lm_send_def put_conn_def split: option.splits)
  have rem: "lc_remote ?c = lc_local (lm_objs lm ! partner p)" and pp: "partner p < length (lm_objs lm)"
    using inv assms(3) by (auto simp: local_inv_def paired_def intro: partner_less)
  have "q = partner p"
    using conns_lookup[OF inv assms(2) q] local_unique[OF inv assms(2) _ pp] rem by metis
  moreover have "lm_objs ?lm1 ! k = (if k = p then ?c\<lparr>lc_counter := updateTx (lc_counter ?c) (of_nat (length b))\<rparr> else lm_objs lm ! k)"
    using assms(3) by (simp add: put_conn_def)
  ultimately have acc: "lc_accepted (lm_objs lm' ! k) = lc_accepted (lm_objs lm ! k) @ (if k = partner p then [b] else [])"
    using snd q pp assms(3,4) partner_simps(2)[of p]
    by (auto simp: lm_send_def put_conn_def Let_def nth_list_update split: chan_result.splits)
  have "local_inv lm'" by (rule local_Send_inv[OF inv assms(2,3,6)])
  moreover have "k < length (lm_objs lm')" using lm_send_length[OF snd] assms(4) by (simp add: put_conn_def)
  ultimately have "conn_ok (lm_objs lm' ! k)" by (rule conn_ok_nth)
  then have "prefix (lc_received (lm_objs lm' ! k)) (lc_accepted (lm_objs lm' ! k))"
    "length (chan_buf (lc_incomingQueue (lm_objs lm' ! k))) \<le> LocalMaxBuffer"
    "length (chan_buf (lc_outgoingQueue (lm_objs lm' ! k))) \<le> LocalMaxBuffer"
    unfolding conn_ok_def prefix_def wf_chan_def by metis+
  with acc show ?thesis by blast
qed

theorem local_messages_fifo_witness:
  "\<exists>lm'. local_Send Inr (pair_with (sender_after 0) (loaded 0)) 0 [1] = Happens (lm', None) \<and>
     lc_accepted (lm_objs lm' ! 1) = [[1]]"
proof -
  have "local_Send Inr (pair_with (sender_after 0) (loaded 0)) 0 [1] = Happens (pair_with (sender_after 1) (queued 0), None)"
    by (simp add: local_Send_def lm_send_def put_conn_def pair_defs chan_send_def LocalMaxBuffer_def Let_def updateTx_def)
  from local_messages_fifo[OF pair_reachable_start _ _ _ _ this, of 1 "[1]"] this show ?thesis
    by (intro exI[of _ "pair_with (sender_after 1) (queued 0)"]) (simp add: pair_with_def partner_def loaded_def)
qed

text \<open>
  Closing one end closes the connection: both ends leave the manager, every later \<open>Send\<close>
  on either end returns \<open>ErrClosed\<close>, a second \<open>Close\<close> on either end returns \<open>ErrClosed\<close> and
  changes nothing, and an end that has read what was left in its queue is told \<open>ErrClosed\<close>.
\<close>

theorem local_close_both_ends:
  assumes "local_reachable lm" and "length (lm_objs lm) < 2 ^ 64" and "p < length (lm_objs lm)"
    and "local_Close lm p = Happens (lm', None)" and "k = p \<or> k = partner p" and "marshal m = Inr b"
  shows "map_of (lm_conns lm') (lc_local (lm_objs lm' ! k)) = None \<and>
    (\<exists>lm2. local_Send marshal lm' k m = Happens (lm2, Some (Local_net ErrClosed))) \<and>
    local_Close lm' k = Happens (lm', Some (Local_net ErrClosed)) \<and>
    (chan_buf (lc_outgoingQueue (lm_objs lm' ! k)) = [] \<longrightarrow>
       local_Receive (lm_objs lm' ! k) = Happens (lm_objs lm' ! k, Inl (Local_net ErrClosed)))"
proof -
  have inv: "local_inv lm" by (rule local_reachable_inv[OF assms(1,2)])
  have cl: "\<not> lc_closeCh (lm_objs lm ! p)" "lm_close lm p = Happens (lm', None)"
    using assms(4) by (auto simp: local_Close_def split: if_splits)
  obtain c r where c: "closeChannels (lm_objs lm ! p) = Happens c" and r: "closeChannels (lm_objs lm ! partner p) = Happens r"
    and lm': "lm' = lm\<lparr>lm_objs := (lm_objs lm)[p := c, partner p := r],
      lm_conns := AList.delete (lc_local (lm_objs lm ! partner p)) (AList.delete (lc_local (lm_objs lm ! p)) (lm_conns lm))\<rparr>"
    using lm_close_cases[OF inv assms(2,3) cl] by blast
  have objs: "lm_objs lm' = (lm_objs lm)[p := c, partner p := r]" by (simp add: lm')
  have pp: "partner p < length (lm_objs lm)" using inv assms(3) by (auto simp: local_inv_def paired_def intro: partner_less)
  note ok = closeChannels_ok[OF conn_ok_nth[OF inv assms(3)] c] closeChannels_ok[OF conn_ok_nth[OF inv pp] r]
  have inv': "local_inv lm'" by (rule lm_close_inv[OF inv assms(2,3) cl])
  have closed: "lc_closeCh (lm_objs lm' ! p)" "lc_closeCh (lm_objs lm' ! partner p)" and len: "length (lm_objs lm') = length (lm_objs lm)"
    using ok assms(3) pp partner_simps(2)[of p] by (auto simp: objs nth_list_update)
  have k: "k < length (lm_objs lm')" "partner k < length (lm_objs lm')" "lc_closeCh (lm_objs lm' ! k)" "lc_closeCh (lm_objs lm' ! partner k)"
    using assms(5) assms(3) pp closed len by auto
  have all: "map_of (lm_conns lm') (lc_local (lm_objs lm' ! j)) = (if lc_closeCh (lm_objs lm' ! j) then None else Some j)"
    "lc_remote (lm_objs lm' ! j) = lc_local (lm_objs lm' ! partner j)" if "j < length (lm_objs lm')" for j
    using inv' that by (simp_all add: local_inv_def conns_ok_def paired_def)
  from all(1)[OF k(1)] all(1)[OF k(2)] all(2)[OF k(1)] k(3,4)
  have gone: "map_of (lm_conns lm') (lc_local (lm_objs lm' ! k)) = None"
    "map_of (lm_conns lm') (lc_remote (lm_objs lm' ! k)) = None" by simp_all
  have "chan_closed (lc_outgoingQueue (lm_objs lm' ! k))" using conn_ok_nth[OF inv' k(1)] k(3) by (simp add: conn_ok_def)
  then show ?thesis using gone k(3) assms(6)
    by (simp add: local_Send_def lm_send_def put_conn_def local_Close_def local_Receive_def chan_recv_def Let_def)
qed

theorem local_close_both_ends_witness:
  "\<exists>lm'. local_Close (pair_with (sender_after 0) (loaded 0)) 0 = Happens (lm', None) \<and>
     local_Close lm' 1 = Happens (lm', Some (Local_net ErrClosed))"
proof -
  obtain lm' where lm': "local_Close (pair_with (sender_after 0) (loaded 0)) 0 = Happens (lm', None)"
    by (simp add: local_Close_def lm_close_def closeChannels_def put_conn_def pair_defs Let_def)
  from local_close_both_ends[OF pair_reachable_start _ _ lm', of 1 Inr "[]" "[]"] lm' show ?thesis
    by (simp add: pair_with_def partner_def)
qed

text \<open>
  Closing a connection can block for ever with the lock of the manager held: when the other end
  has not received \<open>LocalMaxBuffer + 1\<close> messages, its goroutine waits for room in the queue and never
  sees the stop signal.
\<close>

theorem local_close_can_block:
  "\<exists>lm :: unit LocalManager. local_reachable lm \<and> lm_len lm = 2 \<and> local_Close lm 0 = Blocks \<and> local_Close lm 1 = Blocks"
proof -
  let ?lm = "pair_with (sender_after (Suc LocalMaxBuffer)) (in_hand LocalMaxBuffer)"
  have "local_reachable ?lm" by (intro pair_send pair_reachable) simp
  moreover have hand: "closeChannels (in_hand LocalMaxBuffer) = Blocks"
    by (simp add: closeChannels_def conn_move_def pair_defs chan_send_def)
  obtain c where c: "closeChannels (sender_after (Suc LocalMaxBuffer)) = Happens c"
    by (simp add: closeChannels_def pair_defs)
  have ends: "lc_local (sender_after k) = end_out" "lc_remote (sender_after k) = end_in" "lc_local (in_hand k) = end_in"
    "\<not> lc_closeCh (sender_after k)" "\<not> lc_closeCh (in_hand k)" "end_out \<noteq> end_in" for k
    by (simp_all add: pair_defs)
  have "local_Close ?lm 0 = Blocks" "local_Close ?lm 1 = Blocks"
    using ends by (simp_all add: local_Close_def lm_close_def put_conn_def pair_with_def hand c)
  ultimately show ?thesis by (intro exI[of _ ?lm]) (simp add: lm_len_def pair_with_def)
qed

lemma local_dial_iff:
  "(\<exists>r. local_dial lms loc remote i rounds = Inr r) \<longleftrightarrow>
     (\<exists>j < rounds. isListening (lms (i + j)) remote \<and> (\<forall>j' < j. i + j' \<noteq> MaxRetryConnect - 1))"
proof (induction rounds arbitrary: i)
  case 0
  then show ?case by simp
next
  case (Suc rounds)
  have conn: "(\<exists>r. lm_connect (lms i) loc remote = Inr r) = isListening (lms i) remote"
    by (auto simp: lm_connect_def isListening_def Let_def split: option.splits)
  have split: "(\<exists>j < Suc rounds. P j) \<longleftrightarrow> P 0 \<or> (\<exists>j < rounds. P (Suc j))" for P
    by (auto simp: less_Suc_eq_0_disj)
  have all: "(\<forall>j' < Suc j. Q j') \<longleftrightarrow> Q 0 \<and> (\<forall>j' < j. Q (Suc j'))" for Q :: "nat \<Rightarrow> bool" and j
    by (auto simp: less_Suc_eq_0_disj)
  show ?case
    using conn Suc[of "i + 1"] unfolding split all
    by (cases "lm_connect (lms i) loc remote") auto
qed

lemma host_rounds_iff:
  "(\<exists>r. host_rounds lms loc remote e k rounds = Inr r) \<longleftrightarrow>
     (\<exists>j < rounds. \<exists>r. NewLocalConnWithManager (lms (k + j)) loc remote = Inr r)"
proof (induction rounds arbitrary: e k)
  case 0
  then show ?case by simp
next
  case (Suc rounds)
  have split: "(\<exists>j < Suc rounds. P j) \<longleftrightarrow> P 0 \<or> (\<exists>j < rounds. P (Suc j))" for P
    by (auto simp: less_Suc_eq_0_disj)
  show ?case using Suc[of _ "k + 1"] unfolding split
    by (cases "NewLocalConnWithManager (lms k) loc remote") auto
qed

text \<open>
  \<open>LocalHost.Connect\<close> looks for a listener \<open>MaxRetryConnect\<close> times
  \<open>MaxRetryConnect\<close>, not the \<open>MaxRetryConnect\<close> times its comment promises: it succeeds exactly
  when the address is local and somebody listens on it at one of these 25 attempts.
\<close>

theorem local_connect_attempts:
  "(\<exists>r. localhost_Connect (lms :: nat \<Rightarrow> nat \<Rightarrow> 'e LocalManager) loc addr = Inr r) \<longleftrightarrow>
     ConnType_of addr = Local \<and> (\<exists>k < MaxRetryConnect. \<exists>i < MaxRetryConnect. isListening (lms k i) addr)"
proof -
  have "(\<exists>r. NewLocalConnWithManager l loc addr = Inr r) \<longleftrightarrow> (\<exists>i < MaxRetryConnect. isListening (l i) addr)"
    for l :: "nat \<Rightarrow> 'e LocalManager"
    unfolding NewLocalConnWithManager_def local_dial_iff by (auto simp: MaxRetryConnect_def)
  then show ?thesis
    using host_rounds_iff[of lms loc addr None 0 MaxRetryConnect] by (simp add: localhost_Connect_def)
qed

end
