(* ===== verification/Net_Dispatch.thy ===== *)
theory Net_Dispatch
  imports Net_Encoding Net_Address
begin

text \<open>
  network/dispatch.go: the dispatchers that hand a received message to the processor registered for
  its type. \<open>BlockingDispatcher\<close> calls the processor, \<open>RoutineDispatcher\<close> starts a goroutine
  that calls it; both keep one processor per type. A processor is known by its identity, so its type is
  open; a call is the triple of processor, sender and message.
\<close>

section \<open>The two dispatchers\<close>

record ('t, 'p) BlockingDispatcher =
  bd_procs :: "('t, 'p) gomap"

definition NewBlockingDispatcher :: "('t, 'p) BlockingDispatcher" where
  "NewBlockingDispatcher = \<lparr>bd_procs = []\<rparr>"

text \<open>\<open>RegisterProcessor\<close>: the loop over the message types; a later registration replaces an earlier one.\<close>

fun RegisterProcessor :: "('t, 'p) BlockingDispatcher \<Rightarrow> 'p \<Rightarrow> ('t, 'v) message list \<Rightarrow> ('t, 'p) BlockingDispatcher" where
  "RegisterProcessor d p [] = d"
| "RegisterProcessor d p (msg # msgs) =
     RegisterProcessor (d\<lparr>bd_procs := AList.update (getValueType msg) p (bd_procs d)\<rparr>) p msgs"

text \<open>\<open>RegisterProcessorFunc\<close> wraps a function in a processor.\<close>

definition RegisterProcessorFunc ::
  "('f \<Rightarrow> 'p) \<Rightarrow> ('t, 'p) BlockingDispatcher \<Rightarrow> ('t, 'v) message \<Rightarrow> 'f \<Rightarrow> ('t, 'p) BlockingDispatcher" where
  "RegisterProcessorFunc defaultProcessor d msg fn = RegisterProcessor d (defaultProcessor fn) [msg]"

text \<open>\<open>Dispatch\<close>: an error, or the call that has been made.\<close>

definition blocking_Dispatch ::
  "('t, 'p) BlockingDispatcher \<Rightarrow> Address \<Rightarrow> ('t, 'v) message \<Rightarrow> string + 'p \<times> Address \<times> ('t, 'v) message" where
  "blocking_Dispatch d src msg =
     (case map_of (bd_procs d) (getValueType msg) of
        None \<Rightarrow> Inl ''blocking dispatcher: no processor for type''
      | Some p \<Rightarrow> Inr (p, src, msg))"

record ('t, 'p, 'v) RoutineDispatcher =
  rd_blocking :: "('t, 'p) BlockingDispatcher"
  rd_routines :: "('p \<times> Address \<times> ('t, 'v) message) list"

definition NewRoutineDispatcher :: "('t, 'p, 'v) RoutineDispatcher" where
  "NewRoutineDispatcher = \<lparr>rd_blocking = NewBlockingDispatcher, rd_routines = []\<rparr>"

text \<open>The goroutines it has started run in any order.\<close>

definition routine_Dispatch ::
  "('t, 'p, 'v) RoutineDispatcher \<Rightarrow> Address \<Rightarrow> ('t, 'v) message \<Rightarrow> string + ('t, 'p, 'v) RoutineDispatcher" where
  "routine_Dispatch d src msg =
     (case map_of (bd_procs (rd_blocking d)) (getValueType msg) of
        None \<Rightarrow> Inl ''no Processor attached to this message type''
      | Some p \<Rightarrow> Inr (d\<lparr>rd_routines := rd_routines d @ [(p, src, msg)]\<rparr>))"

text \<open>\<open>defaultProcessor\<close>, the struct around a function that \<open>RegisterProcessorFunc\<close> makes, and its \<open>Process\<close>.\<close>

record 'f defaultProcessor =
  dp_fn :: 'f

definition defaultProcessor_Process :: "(Address \<Rightarrow> ('t, 'v) message \<Rightarrow> 'out) defaultProcessor \<Rightarrow> Address \<Rightarrow> ('t, 'v) message \<Rightarrow> 'out" where
  "defaultProcessor_Process dp src msg = dp_fn dp src msg"

lemma registered_function_called:
  assumes "blocking_Dispatch (RegisterProcessorFunc (\<lambda>fn. \<lparr>dp_fn = fn\<rparr>) d msg fn) src m = Inr (p, src', m')" and "getValueType m = getValueType msg"
  shows "defaultProcessor_Process p src' m' = fn src m"
  using assms by (auto simp: blocking_Dispatch_def RegisterProcessorFunc_def defaultProcessor_Process_def lookup_update)

section \<open>The interface the router relies on\<close>

text \<open>
  What \<open>Dispatcher\<close> promises: a message goes to the processor that was registered last for its
  type, and to nobody where none was.
\<close>

locale dispatcher =
  fixes reg :: "'d \<Rightarrow> 'p \<Rightarrow> ('t, 'v) message list \<Rightarrow> 'd"
    and target :: "'d \<Rightarrow> 't \<Rightarrow> 'p option"
  assumes target_reg: "target (reg d p msgs) t = (if t \<in> getValueType ` set msgs then Some p else target d t)"
begin

fun last_for :: "'t \<Rightarrow> ('p \<times> ('t, 'v) message list) list \<Rightarrow> 'p option" where
  "last_for t [] = None"
| "last_for t ((p, msgs) # rs) =
     (case last_for t rs of Some q \<Rightarrow> Some q | None \<Rightarrow> if t \<in> getValueType ` set msgs then Some p else None)"

lemma target_last:
  "target (foldl (\<lambda>d (p, msgs). reg d p msgs) d rs) t = (case last_for t rs of Some q \<Rightarrow> Some q | None \<Rightarrow> target d t)"
proof (induction rs arbitrary: d)
  case Nil
  then show ?case by simp
next
  case (Cons r rs)
  then show ?case by (cases r) (auto simp: target_reg split: option.splits)
qed

end

definition bd_target :: "('t, 'p) BlockingDispatcher \<Rightarrow> 't \<Rightarrow> 'p option" where
  "bd_target d t = map_of (bd_procs d) t"

lemma bd_target_reg:
  "bd_target (RegisterProcessor d p msgs) t = (if t \<in> getValueType ` set msgs then Some p else bd_target d t)"
  by (induction d p msgs rule: RegisterProcessor.induct) (auto simp: bd_target_def lookup_update)

interpretation blocking: dispatcher RegisterProcessor bd_target
  by unfold_locales (rule bd_target_reg)

definition rd_register :: "('t, 'p, 'v) RoutineDispatcher \<Rightarrow> 'p \<Rightarrow> ('t, 'v) message list \<Rightarrow> ('t, 'p, 'v) RoutineDispatcher" where
  "rd_register d p msgs = d\<lparr>rd_blocking := RegisterProcessor (rd_blocking d) p msgs\<rparr>"

definition rd_target :: "('t, 'p, 'v) RoutineDispatcher \<Rightarrow> 't \<Rightarrow> 'p option" where
  "rd_target d t = bd_target (rd_blocking d) t"

interpretation routine: dispatcher rd_register rd_target
  by unfold_locales (simp add: rd_register_def rd_target_def bd_target_reg)

section \<open>Properties of the dispatchers\<close>

text \<open>A sequence of registrations on a fresh dispatcher.\<close>

definition bd_registered :: "('p \<times> ('t, 'v) message list) list \<Rightarrow> ('t, 'p) BlockingDispatcher" where
  "bd_registered rs = foldl (\<lambda>d (p, msgs). RegisterProcessor d p msgs) NewBlockingDispatcher rs"

definition rd_registered :: "('p \<times> ('t, 'v) message list) list \<Rightarrow> ('t, 'p, 'v) RoutineDispatcher" where
  "rd_registered rs = foldl (\<lambda>d (p, msgs). rd_register d p msgs) NewRoutineDispatcher rs"

text \<open>The processor registered last for the type of a message.\<close>

definition last_registered :: "'t \<Rightarrow> ('p \<times> ('t, 'v) message list) list \<Rightarrow> 'p option" where
  "last_registered t rs = map_option fst (List.find (\<lambda>(p, msgs). t \<in> getValueType ` set msgs) (rev rs))"

lemma find_append: "List.find P (xs @ ys) = (case List.find P xs of Some x \<Rightarrow> Some x | None \<Rightarrow> List.find P ys)"
  by (induction xs) auto

lemma last_for_eq: "blocking.last_for t rs = last_registered t rs" "routine.last_for t rs = last_registered t rs"
  by (induction rs) (auto simp: last_registered_def find_append split: option.splits)

text \<open>
  After any registrations both dispatchers send a message to the one processor that was registered
  last for its type, the blocking one by a call, the other by one new goroutine, and return an error
  exactly when no registration covers the type.
\<close>

theorem dispatch_to_last_registered:
  "(case last_registered (getValueType msg) rs of
      None \<Rightarrow> (\<exists>e. blocking_Dispatch (bd_registered rs) src msg = Inl e) \<and> (\<exists>e. routine_Dispatch (rd_registered rs) src msg = Inl e)
    | Some p \<Rightarrow> blocking_Dispatch (bd_registered rs) src msg = Inr (p, src, msg) \<and>
        routine_Dispatch (rd_registered rs) src msg =
          Inr ((rd_registered rs)\<lparr>rd_routines := rd_routines (rd_registered rs) @ [(p, src, msg)]\<rparr>))"
proof -
  have "bd_target (bd_registered rs) t = last_registered t rs" "rd_target (rd_registered rs) t = last_registered t rs" for t
    unfolding bd_registered_def rd_registered_def blocking.target_last routine.target_last last_for_eq
    by (simp_all add: NewBlockingDispatcher_def NewRoutineDispatcher_def bd_target_def rd_target_def split: option.splits)
  then show ?thesis
    by (auto simp: blocking_Dispatch_def routine_Dispatch_def bd_target_def rd_target_def split: option.splits)
qed

end
