(* ===== verification/Net_Router.thy ===== *)
theory Net_Router
  imports Net_Dispatch Net_Tcp Event_Bus
begin

text \<open>
  network/router.go: the router, which keeps the connections of a host. Each connection has a
  goroutine (\<open>handleConn\<close>) that receives messages and dispatches them. Connections are objects
  with an identity: they are kept in the list \<open>rt_objs\<close>, the map \<open>rt_connections\<close> of the source
  holds indices, and \<open>rt_handlers\<close> lists the connections whose goroutine runs. The lock of the router is
  taken and released by each helper on its own, so the steps of the model are these helpers:
  \<open>rt_pending\<close> has the connections whose caller is between \<open>registerConnection\<close> and
  \<open>launchHandleRoutine\<close>, \<open>rt_leaving\<close> those whose goroutine is between \<open>wg.Done\<close> and
  \<open>removeConnection\<close>. The host, the outcome of each call on a connection and the publisher of events are
  arguments or logs: \<open>rt_events\<close> has the events published.
\<close>

section \<open>State\<close>

record rconn =
  rc_remote :: Address
  rc_open :: bool
  rc_counter :: counterSafe

datatype router_event = EventUp Address nat | EventDown Address

definition EventConnUp :: string where "EventConnUp = ''EventConnUp''"
definition EventConnDown :: string where "EventConnDown = ''EventConnDown''"

fun event_Name :: "router_event \<Rightarrow> string" where
  "event_Name (EventUp a c) = EventConnUp"
| "event_Name (EventDown a) = EventConnDown"

record Router =
  rt_address :: Address
  rt_objs :: "rconn list"
  rt_connections :: "(Address, nat) gomap"
  rt_isClosed :: bool
  rt_wg :: int
  rt_handlers :: "nat list"
  rt_pending :: "nat list"
  rt_leaving :: "nat list"
  rt_traffic :: counterSafe
  rt_events :: "router_event list"

definition NewRouter :: "Address \<Rightarrow> Router" where
  "NewRouter address =
     \<lparr>rt_address = address, rt_objs = [], rt_connections = [], rt_isClosed = False, rt_wg = 0, rt_handlers = [],
      rt_pending = [], rt_leaving = [],
      rt_traffic = \<lparr>ctr_tx = 0, ctr_rx = 0\<rparr>, rt_events = []\<rparr>"

datatype router_err = Nil_packet | Net_err net_error | Host_err string

section \<open>Registering connections\<close>

definition registerConnection :: "Router \<Rightarrow> nat \<Rightarrow> Router \<times> router_err option" where
  "registerConnection r c =
     (let remote = rc_remote (rt_objs r ! c)
      in if rt_isClosed r then (r, Some (Net_err ErrClosed))
         else if map_of (rt_connections r) remote \<noteq> None then (r, None)
         else (r\<lparr>rt_connections := AList.update remote c (rt_connections r),
                 rt_events := rt_events r @ [EventUp remote c]\<rparr>, None))"

definition launchHandleRoutine :: "Router \<Rightarrow> nat \<Rightarrow> Router \<times> router_err option" where
  "launchHandleRoutine r c =
     (if rt_isClosed r then (r, Some (Net_err ErrClosed))
      else (r\<lparr>rt_wg := rt_wg r + 1, rt_handlers := rt_handlers r @ [c]\<rparr>, None))"

definition removeConnection :: "Router \<Rightarrow> nat \<Rightarrow> Router" where
  "removeConnection r c = r\<lparr>rt_connections := AList.delete (rc_remote (rt_objs r ! c)) (rt_connections r)\<rparr>"

definition connection :: "Router \<Rightarrow> Address \<Rightarrow> nat option" where
  "connection r addr = map_of (rt_connections r) addr"

definition Closed :: "Router \<Rightarrow> bool" where
  "Closed r = rt_isClosed r"

text \<open>A new connection object of the host.\<close>

definition add_conn :: "Router \<Rightarrow> rconn \<Rightarrow> Router \<times> nat" where
  "add_conn r c = (r\<lparr>rt_objs := rt_objs r @ [c]\<rparr>, length (rt_objs r))"

text \<open>
  The two calls \<open>connect\<close> and the listening function of \<open>Start\<close> make for a new connection, each of which
  takes the lock; other goroutines may run between them.
\<close>

definition router_register :: "Router \<Rightarrow> rconn \<Rightarrow> Router \<times> (router_err + nat)" where
  "router_register r conn =
     (let (r1, c) = add_conn r conn
      in case registerConnection r1 c of
           (r2, Some e) \<Rightarrow> (r2, Inl e)
         | (r2, None) \<Rightarrow> (r2\<lparr>rt_pending := rt_pending r2 @ [c]\<rparr>, Inr c))"

definition router_launch :: "Router \<Rightarrow> nat \<Rightarrow> Router \<times> router_err option" where
  "router_launch r c = (case launchHandleRoutine r c of (r1, err) \<Rightarrow> (r1\<lparr>rt_pending := remove1 c (rt_pending r1)\<rparr>, err))"

text \<open>\<open>connect\<close>, and the function \<open>Start\<close> gives to \<open>host.Listen\<close>, when nothing runs between the two calls.\<close>

definition router_connect :: "Router \<Rightarrow> string + rconn \<Rightarrow> Router \<times> (router_err + nat)" where
  "router_connect r host_result =
     (case host_result of
        Inl e \<Rightarrow> (r, Inl (Host_err e))
      | Inr conn \<Rightarrow>
          (case router_register r conn of
             (r1, Inl e) \<Rightarrow> (r1, Inl e)
           | (r1, Inr c) \<Rightarrow>
               (case router_launch r1 c of
                  (r2, Some e) \<Rightarrow> (r2, Inl e)
                | (r2, None) \<Rightarrow> (r2, Inr c))))"

definition router_accept :: "Router \<Rightarrow> rconn \<Rightarrow> Router" where
  "router_accept r conn =
     (case router_register r conn of
        (r1, Inl e) \<Rightarrow> r1
      | (r1, Inr c) \<Rightarrow> fst (router_launch r1 c))"

section \<open>Sending\<close>

text \<open>
  \<open>Send\<close>: \<open>host1\<close> and \<open>host2\<close> are the outcomes of the two possible calls of
  \<open>host.Connect\<close>, \<open>send1\<close> and \<open>send2\<close> those of the two possible calls of
  \<open>c.Send\<close>. The result has the connections the message was given to.
\<close>

definition net_router_Send ::
  "Router \<Rightarrow> Address \<Rightarrow> bool \<Rightarrow> string + rconn \<Rightarrow> string + rconn \<Rightarrow> net_error option \<Rightarrow> net_error option \<Rightarrow>
   Router \<times> nat list \<times> router_err option" where
  "net_router_Send r to is_nil host1 host2 send1 send2 =
     (if is_nil then (r, [], Some Nil_packet)
      else (let (r1, found) = (case connection r to of Some c \<Rightarrow> (r, Inr c) | None \<Rightarrow> router_connect r host1)
            in case found of
                 Inl e \<Rightarrow> (r1, [], Some e)
               | Inr c \<Rightarrow>
                   (if send1 = None then (r1, [c], None)
                    else (case router_connect r1 host2 of
                            (r2, Inl e) \<Rightarrow> (r2, [c], Some e)
                          | (r2, Inr c2) \<Rightarrow> (r2, [c, c2], map_option Net_err send2)))))"

section \<open>The goroutine of a connection\<close>

text \<open>
  One round of \<open>handleConn\<close>: whether the loop goes on (after a dispatch or a temporary error), and the
  calls of processors, which are the result of \<open>dispatch\<close>.
\<close>

definition handle_round ::
  "(Address \<Rightarrow> 'm \<Rightarrow> string + 'call) \<Rightarrow> Router \<Rightarrow> nat \<Rightarrow> net_error + 'm \<Rightarrow> bool \<times> 'call list" where
  "handle_round dispatch r c received =
     (if Closed r then (False, [])
      else case received of
        Inl err \<Rightarrow> (\<not> (err = ErrTimeout \<or> err = ErrClosed \<or> err = ErrEOF), [])
      | Inr packet \<Rightarrow>
          (case dispatch (rc_remote (rt_objs r ! c)) packet of
             Inl e \<Rightarrow> (True, [])
           | Inr call \<Rightarrow> (True, [call])))"

definition close_obj :: "rconn list \<Rightarrow> nat \<Rightarrow> rconn list" where
  "close_obj objs c = objs[c := (objs ! c)\<lparr>rc_open := False\<rparr>]"

text \<open>
  The deferred function of \<open>handleConn\<close>: it closes the connection, keeps its traffic and leaves the wait
  group; then, in a step of its own, it takes the lock and removes the connection. No \<open>EventDown\<close> is
  published: the call is commented out.
\<close>

definition handle_done :: "Router \<Rightarrow> nat \<Rightarrow> Router" where
  "handle_done r c =
     (let conn = rt_objs r ! c
      in r\<lparr>rt_objs := close_obj (rt_objs r) c,
           rt_traffic := updateTx (updateRx (rt_traffic r) (ctr_rx (rc_counter conn))) (ctr_tx (rc_counter conn)),
           rt_wg := rt_wg r - 1, rt_handlers := remove1 c (rt_handlers r), rt_leaving := rt_leaving r @ [c]\<rparr>)"

definition handle_remove :: "Router \<Rightarrow> nat \<Rightarrow> Router" where
  "handle_remove r c = (removeConnection r c)\<lparr>rt_leaving := remove1 c (rt_leaving r)\<rparr>"

section \<open>Stopping and counting\<close>

text \<open>\<open>Stop\<close> up to \<open>wg.Wait\<close>, which returns when the wait group is at zero.\<close>

definition router_Stop :: "Router \<Rightarrow> Router" where
  "router_Stop r = r\<lparr>rt_isClosed := True, rt_objs := foldl close_obj (rt_objs r) (map snd (rt_connections r))\<rparr>"

definition stop_returns :: "Router \<Rightarrow> bool" where
  "stop_returns r = (rt_isClosed r \<and> rt_wg r = 0)"

definition router_Tx :: "Router \<Rightarrow> uint64" where
  "router_Tx r = sum_list (map (\<lambda>(a, c). ctr_tx (rc_counter (rt_objs r ! c))) (rt_connections r)) + ctr_tx (rt_traffic r)"

definition router_Rx :: "Router \<Rightarrow> uint64" where
  "router_Rx r = sum_list (map (\<lambda>(a, c). ctr_rx (rc_counter (rt_objs r ! c))) (rt_connections r)) + ctr_rx (rt_traffic r)"

section \<open>Steps\<close>

text \<open>
  A goroutine leaves its loop when the connection is closed at either end, which can be at any time.
  The traffic of an open connection grows.
\<close>

inductive router_step :: "Router \<Rightarrow> Router \<Rightarrow> bool" where
  register: "router_step r (fst (router_register r conn))"
| launch: "c \<in> set (rt_pending r) \<Longrightarrow> router_step r (fst (router_launch r c))"
| leave: "c \<in> set (rt_handlers r) \<Longrightarrow> router_step r (handle_done r c)"
| remove: "c \<in> set (rt_leaving r) \<Longrightarrow> router_step r (handle_remove r c)"
| traffic: "c < length (rt_objs r) \<Longrightarrow>
    router_step r (r\<lparr>rt_objs := (rt_objs r)[c := (rt_objs r ! c)\<lparr>rc_counter := ctr\<rparr>]\<rparr>)"
| stop: "router_step r (router_Stop r)"

inductive router_reachable :: "Router \<Rightarrow> bool" where
  start: "router_reachable (NewRouter address)"
| step: "router_reachable r \<Longrightarrow> router_step r r' \<Longrightarrow> router_reachable r'"

section \<open>The invariant\<close>

text \<open>
  What a registered connection is: under its own address, with a goroutine unless the goroutine is yet to be
  launched or about to remove it, or the router is closed; and closed itself when the router is.
\<close>

definition registered_ok :: "Router \<Rightarrow> Address \<Rightarrow> nat \<Rightarrow> bool" where
  "registered_ok r a c =
     (c < length (rt_objs r) \<and> rc_remote (rt_objs r ! c) = a \<and>
      (c \<in> set (rt_handlers r) \<or> c \<in> set (rt_pending r) \<or> c \<in> set (rt_leaving r) \<or> rt_isClosed r) \<and>
      (rt_isClosed r \<longrightarrow> \<not> rc_open (rt_objs r ! c)))"

definition router_inv :: "Router \<Rightarrow> bool" where
  [inv_defs]: "router_inv r =
     (wf_map (rt_connections r) \<and> all_entries (registered_ok r) (rt_connections r) \<and>
      distinct (rt_handlers r @ rt_pending r @ rt_leaving r) \<and>
      list_all (\<lambda>c. c < length (rt_objs r)) (rt_handlers r @ rt_pending r @ rt_leaving r) \<and>
      rt_wg r = int (length (rt_handlers r)) \<and>
      list_all (\<lambda>e. event_Name e = EventConnUp) (rt_events r))"

lemma all_entries_weaken: "all_entries P m \<Longrightarrow> (\<And>k v. P k v \<Longrightarrow> Q k v) \<Longrightarrow> all_entries Q m"
  by (auto simp: all_entries_def list_all_iff)

text \<open>Adding an object that nobody knows.\<close>

lemma add_conn_inv:
  assumes "router_inv r"
  shows "router_inv (r\<lparr>rt_objs := rt_objs r @ [conn]\<rparr>)"
proof -
  have "all_entries (registered_ok (r\<lparr>rt_objs := rt_objs r @ [conn]\<rparr>)) (rt_connections r)"
    using assms by (auto simp: router_inv_def registered_ok_def nth_append elim!: all_entries_weaken)
  then show ?thesis using assms by (auto simp: router_inv_def list_all_iff intro: less_SucI)
qed

lemma register_inv:
  assumes "router_inv r"
  shows "router_inv (fst (router_register r conn))"
proof -
  let ?r = "r\<lparr>rt_objs := rt_objs r @ [conn]\<rparr>" and ?c = "length (rt_objs r)"
  have inv: "router_inv ?r" by (rule add_conn_inv[OF assms])
  have fresh: "?c \<notin> set (rt_handlers r @ rt_pending r @ rt_leaving r)" using assms by (auto simp: router_inv_def list_all_iff)
  have mono: "all_entries (registered_ok (s\<lparr>rt_pending := rt_pending r @ [?c]\<rparr>)) m"
    if "all_entries (registered_ok ?r) m" "rt_objs s = rt_objs ?r" "rt_handlers s = rt_handlers r" "rt_leaving s = rt_leaving r"
      "rt_isClosed s = rt_isClosed r" for s m
    using that by (auto simp: registered_ok_def elim!: all_entries_weaken)
  show ?thesis
  proof (cases "rt_isClosed r")
    case True
    then show ?thesis using inv by (simp add: router_register_def add_conn_def registerConnection_def Let_def)
  next
    case False
    show ?thesis
    proof (cases "map_of (rt_connections r) (rc_remote conn)")
      case (Some d)
      then have reg: "fst (router_register r conn) = ?r\<lparr>rt_pending := rt_pending r @ [?c]\<rparr>"
        using False by (simp add: router_register_def add_conn_def registerConnection_def Let_def)
      have "all_entries (registered_ok (?r\<lparr>rt_pending := rt_pending r @ [?c]\<rparr>)) (rt_connections r)"
        by (rule mono) (use inv in \<open>simp_all add: router_inv_def\<close>)
      then show ?thesis using inv fresh unfolding reg by (auto simp: router_inv_def list_all_iff)
    next
      case None
      let ?m = "AList.update (rc_remote conn) ?c (rt_connections r)"
      let ?s = "?r\<lparr>rt_connections := ?m, rt_events := rt_events r @ [EventUp (rc_remote conn) ?c]\<rparr>"
      have reg: "fst (router_register r conn) = ?s\<lparr>rt_pending := rt_pending r @ [?c]\<rparr>"
        using None False by (simp add: router_register_def add_conn_def registerConnection_def Let_def)
      have old: "all_entries (registered_ok (?s\<lparr>rt_pending := rt_pending r @ [?c]\<rparr>)) (rt_connections r)"
        by (rule mono) (use inv in \<open>simp_all add: router_inv_def\<close>)
      have "all_entries (registered_ok (?s\<lparr>rt_pending := rt_pending r @ [?c]\<rparr>)) ?m"
        using old by (rule all_entries_update) (use False in \<open>simp add: registered_ok_def\<close>)
      then show ?thesis using inv fresh unfolding reg by (auto simp: router_inv_def list_all_iff)
    qed
  qed
qed

lemma launch_inv:
  assumes "router_inv r" and "c \<in> set (rt_pending r)"
  shows "router_inv (fst (router_launch r c))"
proof (cases "rt_isClosed r")
  case True
  have "all_entries (registered_ok (r\<lparr>rt_pending := remove1 c (rt_pending r)\<rparr>)) (rt_connections r)"
    using assms(1) True by (auto simp: router_inv_def registered_ok_def elim!: all_entries_weaken)
  then show ?thesis using assms True
    by (auto simp: router_inv_def router_launch_def launchHandleRoutine_def list_all_iff dest: notin_set_remove1)
next
  case False
  let ?s = "r\<lparr>rt_wg := rt_wg r + 1, rt_handlers := rt_handlers r @ [c], rt_pending := remove1 c (rt_pending r)\<rparr>"
  have launch: "fst (router_launch r c) = ?s" using False by (simp add: router_launch_def launchHandleRoutine_def)
  have "all_entries (registered_ok ?s) (rt_connections r)"
    using assms by (auto simp: router_inv_def registered_ok_def elim!: all_entries_weaken)
  then show ?thesis using assms unfolding launch
    by (auto simp: router_inv_def list_all_iff dest: notin_set_remove1)
qed

lemma close_obj_frame [simp]:
  "length (close_obj objs c) = length objs" "rc_remote (close_obj objs c ! k) = rc_remote (objs ! k)"
  "rc_counter (close_obj objs c ! k) = rc_counter (objs ! k)"
  by (cases "k = c"; cases "c < length objs"; simp add: close_obj_def list_update_beyond)+

lemma close_obj_open: "rc_open (close_obj objs c ! k) \<Longrightarrow> rc_open (objs ! k)"
  by (cases "k = c"; cases "c < length objs") (auto simp: close_obj_def list_update_beyond)

lemma handle_done_inv:
  assumes "router_inv r" and "c \<in> set (rt_handlers r)"
  shows "router_inv (handle_done r c)"
proof -
  have "all_entries (registered_ok (handle_done r c)) (rt_connections r)"
    using assms(1) by (auto simp: router_inv_def registered_ok_def handle_done_def Let_def dest: close_obj_open elim!: all_entries_weaken)
  moreover have "int (length (remove1 c (rt_handlers r))) = int (length (rt_handlers r)) - 1"
  proof -
    have "length (remove1 c (rt_handlers r)) = length (rt_handlers r) - 1" using assms(2) by (simp add: length_remove1)
    with length_pos_if_in_set[OF assms(2)] show ?thesis by linarith
  qed
  ultimately show ?thesis using assms
    by (auto simp: router_inv_def handle_done_def Let_def list_all_iff dest: notin_set_remove1)
qed

lemma handle_remove_inv:
  assumes "router_inv r" and "c \<in> set (rt_leaving r)"
  shows "router_inv (handle_remove r c)"
proof -
  let ?m = "AList.delete (rc_remote (rt_objs r ! c)) (rt_connections r)"
  have "all_entries (registered_ok (handle_remove r c)) ?m"
    using assms(1) by (fastforce simp: router_inv_def all_entries_def list_all_iff AList.delete_eq registered_ok_def
        handle_remove_def removeConnection_def)
  then show ?thesis using assms
    by (auto simp: router_inv_def handle_remove_def removeConnection_def list_all_iff dest: notin_set_remove1)
qed

lemma foldl_close_obj:
  "length (foldl close_obj objs cs) = length objs \<and> rc_remote (foldl close_obj objs cs ! k) = rc_remote (objs ! k) \<and>
     (rc_open (foldl close_obj objs cs ! k) \<longrightarrow> rc_open (objs ! k))"
  by (induction cs arbitrary: objs) (auto dest: close_obj_open)

lemma foldl_close_obj_closed: "c \<in> set cs \<Longrightarrow> c < length objs \<Longrightarrow> \<not> rc_open (foldl close_obj objs cs ! c)"
proof (induction cs arbitrary: objs)
  case (Cons d cs)
  show ?case
  proof (cases "c = d")
    case True
    then have "\<not> rc_open (close_obj objs d ! c)" using Cons.prems(2) by (simp add: close_obj_def)
    then show ?thesis using foldl_close_obj[of "close_obj objs d" cs c] by auto
  next
    case False
    then show ?thesis using Cons by simp
  qed
qed simp

lemma router_step_inv: "router_step r r' \<Longrightarrow> router_inv r \<Longrightarrow> router_inv r'"
proof (induction rule: router_step.induct)
  case (traffic c r ctr)
  let ?r = "r\<lparr>rt_objs := (rt_objs r)[c := (rt_objs r ! c)\<lparr>rc_counter := ctr\<rparr>]\<rparr>"
  have "rc_remote (rt_objs ?r ! k) = rc_remote (rt_objs r ! k)" "rc_open (rt_objs ?r ! k) = rc_open (rt_objs r ! k)" for k
    using traffic(1) by (cases "k = c"; simp)+
  then have "registered_ok ?r = registered_ok r" by (simp add: registered_ok_def fun_eq_iff)
  then show ?case using traffic by (simp add: router_inv_def)
next
  case (stop r)
  have "registered_ok (router_Stop r) a c" if "(a, c) \<in> set (rt_connections r)" for a c
  proof -
    have "registered_ok r a c" using stop that by (auto simp: router_inv_def all_entries_def list_all_iff)
    moreover have "c \<in> set (map snd (rt_connections r))" using that by force
    ultimately show ?thesis using foldl_close_obj_closed[of c "map snd (rt_connections r)" "rt_objs r"]
      by (simp add: registered_ok_def router_Stop_def foldl_close_obj)
  qed
  then have "all_entries (registered_ok (router_Stop r)) (rt_connections r)" by (auto simp: all_entries_def list_all_iff)
  then show ?case using stop by (simp add: router_inv_def router_Stop_def foldl_close_obj)
qed (auto intro: register_inv launch_inv handle_done_inv handle_remove_inv)

lemma router_reachable_inv: "router_reachable r \<Longrightarrow> router_inv r"
proof (induction rule: router_reachable.induct)
  case (start address)
  then show ?case by (simp add: router_inv_def NewRouter_def)
next
  case (step r r')
  then show ?case by (blast intro: router_step_inv)
qed

text \<open>The operations whose steps nothing interrupts lead to reachable states.\<close>

lemma register_pending: "router_register r conn = (r1, Inr c) \<Longrightarrow> c \<in> set (rt_pending r1)"
  by (auto simp: router_register_def add_conn_def split: prod.splits option.splits)

lemma register_reachable: "router_reachable r \<Longrightarrow> router_register r conn = (r1, res) \<Longrightarrow> router_reachable r1"
  using router_reachable.step[OF _ router_step.register[of r conn]] by simp

lemma launch_reachable:
  "router_reachable r \<Longrightarrow> c \<in> set (rt_pending r) \<Longrightarrow> router_launch r c = (r1, err) \<Longrightarrow> router_reachable r1"
  using router_reachable.step[OF _ router_step.launch[of c r]] by simp

lemma router_accept_reachable:
  assumes "router_reachable r"
  shows "router_reachable (router_accept r conn)"
proof -
  obtain r1 res where reg: "router_register r conn = (r1, res)" by (cases "router_register r conn")
  have r1: "router_reachable r1" by (rule register_reachable[OF assms reg])
  show ?thesis
  proof (cases res)
    case (Inr c)
    then have "c \<in> set (rt_pending r1)" using register_pending[of r conn r1 c] reg by simp
    then have "router_reachable (fst (router_launch r1 c))" using router_reachable.step[OF r1 router_step.launch] by simp
    then show ?thesis by (simp add: router_accept_def reg Inr)
  qed (simp add: router_accept_def reg r1)
qed

lemma router_connect_reachable: "router_reachable r \<Longrightarrow> router_reachable (fst (router_connect r h))"
proof (cases h)
  case (Inr conn)
  assume r: "router_reachable r"
  obtain r1 res where reg: "router_register r conn = (r1, res)" by (cases "router_register r conn")
  show ?thesis
  proof (cases res)
    case (Inr c)
    obtain r2 err where "router_launch r1 c = (r2, err)" by (cases "router_launch r1 c")
    moreover from this have "router_reachable r2"
      using launch_reachable register_reachable[OF r reg] register_pending reg Inr by blast
    ultimately show ?thesis using \<open>h = Inr conn\<close> Inr reg by (cases err) (simp_all add: router_connect_def)
  qed (use \<open>h = Inr conn\<close> reg register_reachable[OF r reg] in \<open>simp add: router_connect_def\<close>)
qed (simp add: router_connect_def)

lemma net_router_Send_reachable:
  assumes "router_reachable r"
  shows "router_reachable (fst (net_router_Send r to is_nil host1 host2 send1 send2))"
proof -
  define first where "first = (case connection r to of Some c \<Rightarrow> (r, Inr c) | None \<Rightarrow> router_connect r host1)"
  have first: "router_reachable (fst first)"
    using assms router_connect_reachable[OF assms, of host1] by (simp add: first_def split: option.splits)
  obtain r1 found where f: "first = (r1, found)" by (cases first)
  obtain r2 res where s: "router_connect r1 host2 = (r2, res)" by (cases "router_connect r1 host2")
  have "router_reachable r1" "router_reachable r2"
    using first router_connect_reachable[of r1 host2] by (simp_all add: f s)
  then show ?thesis using assms
    unfolding net_router_Send_def first_def[symmetric] f
    by (cases found; cases res) (simp_all add: s)
qed

section \<open>Two connections from one address\<close>

definition toy_conn :: rconn where
  "toy_conn = \<lparr>rc_remote = ''tcp://10.0.0.4:2000'', rc_open = True, rc_counter = \<lparr>ctr_tx = 5, ctr_rx = 7\<rparr>\<rparr>"

definition two_conns :: Router where
  "two_conns = router_accept (router_accept (NewRouter ''tcp://10.0.0.1:1'') toy_conn) toy_conn"

lemma two_conns_reachable: "router_reachable two_conns"
  unfolding two_conns_def
  by (intro router_accept_reachable router_reachable.start)

lemma two_conns_eq:
  "two_conns = \<lparr>rt_address = ''tcp://10.0.0.1:1'', rt_objs = [toy_conn, toy_conn],
     rt_connections = [(''tcp://10.0.0.4:2000'', 0)], rt_isClosed = False, rt_wg = 2, rt_handlers = [0, 1],
     rt_pending = [], rt_leaving = [], rt_traffic = \<lparr>ctr_tx = 0, ctr_rx = 0\<rparr>, rt_events = [EventUp ''tcp://10.0.0.4:2000'' 0]\<rparr>"
  by (simp add: two_conns_def router_accept_def router_register_def router_launch_def add_conn_def registerConnection_def
      launchHandleRoutine_def NewRouter_def toy_conn_def Let_def)

section \<open>Properties of the router\<close>

text \<open>
  C28. Bookkeeping of every reachable router, with the helpers of its goroutines interleaved in any order: the wait
  group counts the goroutines that have not called \<open>wg.Done\<close>; a connection is registered at most once and under
  its own remote address; a registered connection has a goroutine, unless the goroutine is still to be launched, or has
  left the wait group and is about to remove it, or the router was closed in between; and once \<open>Stop\<close> has closed
  the router every registered connection is closed.
\<close>

theorem router_bookkeeping:
  assumes "router_reachable r"
  shows "rt_wg r = int (length (rt_handlers r)) \<and> distinct (rt_handlers r @ rt_pending r @ rt_leaving r) \<and>
    distinct (map fst (rt_connections r)) \<and>
    (\<forall>(a, c) \<in> set (rt_connections r). c < length (rt_objs r) \<and> rc_remote (rt_objs r ! c) = a \<and>
       (if rt_isClosed r then \<not> rc_open (rt_objs r ! c)
        else c \<in> set (rt_handlers r) \<union> set (rt_pending r) \<union> set (rt_leaving r)))"
  using router_reachable_inv[OF assms]
  by (auto simp: router_inv_def wf_map_def all_entries_def list_all_iff registered_ok_def)

text \<open>A router that is stopped between the registration of a connection and the start of its goroutine.\<close>

definition stopped_between :: Router where
  "stopped_between = fst (router_launch (router_Stop (fst (router_register (NewRouter ''tcp://10.0.0.1:1'') toy_conn))) 0)"

lemma stopped_between_reachable: "router_reachable stopped_between"
proof -
  let ?r = "fst (router_register (NewRouter ''tcp://10.0.0.1:1'') toy_conn)"
  have "router_reachable (router_Stop ?r)"
    by (intro router_reachable.step[OF _ router_step.stop] router_reachable.step[OF _ router_step.register] router_reachable.start)
  then show ?thesis unfolding stopped_between_def
    by (rule router_reachable.step[OF _ router_step.launch])
      (simp add: router_register_def add_conn_def registerConnection_def router_Stop_def NewRouter_def Let_def)
qed

lemma stopped_between_fields:
  "rt_connections stopped_between = [(''tcp://10.0.0.4:2000'', 0)]" "rt_handlers stopped_between = []"
  "rt_pending stopped_between = []" "rt_leaving stopped_between = []" "stop_returns stopped_between"
  "rt_isClosed stopped_between" "rt_objs stopped_between = [toy_conn\<lparr>rc_open := False\<rparr>]" "rt_wg stopped_between = 0"
  by (simp_all add: stopped_between_def router_launch_def launchHandleRoutine_def router_register_def add_conn_def
      registerConnection_def router_Stop_def NewRouter_def toy_conn_def stop_returns_def close_obj_def Let_def)

theorem router_bookkeeping_witness:
  "rt_wg two_conns = 2 \<and> rt_wg two_conns = int (length (rt_handlers two_conns)) \<and>
   rt_wg stopped_between = 0 \<and> \<not> rc_open (rt_objs stopped_between ! 0)"
  using router_bookkeeping[OF two_conns_reachable] router_bookkeeping[OF stopped_between_reachable]
  by (simp add: two_conns_eq stopped_between_fields)

text \<open>What a closed router without goroutines has registered stays registered.\<close>

lemma closed_router_stays:
  assumes "router_step\<^sup>*\<^sup>* r r'" and "rt_isClosed r" and "rt_handlers r @ rt_pending r @ rt_leaving r = []"
  shows "rt_connections r' = rt_connections r \<and> rt_isClosed r' \<and> rt_handlers r' @ rt_pending r' @ rt_leaving r' = []"
  using assms(1)
proof (induction rule: rtranclp_induct)
  case base
  then show ?case using assms(2,3) by simp
next
  case (step r1 r2)
  from step.hyps(2) step.IH show ?case
    by (cases rule: router_step.cases) (auto simp: router_register_def add_conn_def registerConnection_def router_Stop_def Let_def)
qed

text \<open>
  C27. \<open>Stop\<close> may come between \<open>registerConnection\<close> and \<open>launchHandleRoutine\<close> of a connection, which take the
  lock one after the other. Then \<open>Stop\<close> has nothing to wait for and returns, no goroutine is started, and the
  connection stays registered whatever happens afterwards.
\<close>

theorem stop_orphans_connection:
  "\<exists>r a c. router_reachable r \<and> stop_returns r \<and> connection r a = Some c \<and>
     c \<notin> set (rt_handlers r) \<union> set (rt_pending r) \<union> set (rt_leaving r) \<and>
     (\<nexists>r'. router_step\<^sup>*\<^sup>* r r' \<and> connection r' a \<noteq> Some c)"
proof -
  have c: "connection stopped_between ''tcp://10.0.0.4:2000'' = Some 0" by (simp add: connection_def stopped_between_fields)
  moreover have "rt_connections r' = rt_connections stopped_between" if "router_step\<^sup>*\<^sup>* stopped_between r'" for r'
    using closed_router_stays[OF that] stopped_between_fields(2-4,6) by simp
  then have "connection r' ''tcp://10.0.0.4:2000'' = Some 0" if "router_step\<^sup>*\<^sup>* stopped_between r'" for r'
    using c that unfolding connection_def by metis
  moreover have "0 \<notin> set (rt_handlers stopped_between) \<union> set (rt_pending stopped_between) \<union> set (rt_leaving stopped_between)"
    by (simp add: stopped_between_fields)
  ultimately show ?thesis using stopped_between_reachable stopped_between_fields(5) by blast
qed

text \<open>
  Nobody is ever told that a connection went down: every event a router publishes is an
  \<open>EventUp\<close>, so a receiver registered for \<open>EventConnDown\<close> is never called.
\<close>

theorem router_never_publishes_down:
  assumes "router_reachable r" and "e \<in> set (rt_events r)"
  shows "event_Name e \<noteq> EventConnDown \<and> event_Name e = EventConnUp"
  using router_reachable_inv[OF assms(1)] assms(2)
  by (auto simp: router_inv_def list_all_iff EventConnUp_def EventConnDown_def)

theorem router_never_publishes_down_witness: "event_Name (EventUp ''tcp://10.0.0.4:2000'' 0) \<noteq> EventConnDown"
  using router_never_publishes_down[OF two_conns_reachable, of "EventUp ''tcp://10.0.0.4:2000'' 0"] by (simp add: two_conns_eq)

text \<open>
  A second connection from the same address is handled but not registered, with two effects:
  \<open>Stop\<close> does not close it, so it waits for the goroutine of an open connection; and when
  its goroutine ends, it removes the entry of the first connection, which is open and still handled.
\<close>

theorem second_connection_unmanaged:
  "\<exists>r c1 c2 a. router_reachable r \<and> connection r a = Some c1 \<and>
     (let s = router_Stop r in \<not> stop_returns s \<and> c2 \<in> set (rt_handlers s) \<and> rc_open (rt_objs s ! c2)) \<and>
     (let x = handle_remove (handle_done r c2) c2 in connection x a = None \<and> c1 \<in> set (rt_handlers x) \<and> rc_open (rt_objs x ! c1))"
proof -
  have "(let s = router_Stop two_conns in \<not> stop_returns s \<and> 1 \<in> set (rt_handlers s) \<and> rc_open (rt_objs s ! 1))"
    by (simp add: two_conns_eq router_Stop_def stop_returns_def close_obj_def toy_conn_def Let_def)
  moreover have "(let x = handle_remove (handle_done two_conns 1) 1 in
      connection x ''tcp://10.0.0.4:2000'' = None \<and> 0 \<in> set (rt_handlers x) \<and> rc_open (rt_objs x ! 0))"
    by (simp add: two_conns_eq handle_done_def handle_remove_def removeConnection_def connection_def close_obj_def toy_conn_def Let_def)
  moreover have "connection two_conns ''tcp://10.0.0.4:2000'' = Some 0" by (simp add: two_conns_eq connection_def)
  ultimately show ?thesis using two_conns_reachable by blast
qed

lemma sum_list_delete:
  "wf_map m \<Longrightarrow> map_of m k = Some v \<Longrightarrow>
     sum_list (map (\<lambda>(k, v). f v) m) = f v + sum_list (map (\<lambda>(k, v). f v) (AList.delete k m))"
  for f :: "'v \<Rightarrow> 'a :: comm_monoid_add"
proof (induction m)
  case Nil
  then show ?case by simp
next
  case (Cons x m)
  obtain k' v' where x: "x = (k', v')" by (cases x)
  show ?case
  proof (cases "k' = k")
    case True
    with Cons.prems x have "k \<notin> fst ` set m" "v' = v" by (auto simp: wf_map_def)
    then show ?thesis using True by (simp add: x)
  next
    case False
    with Cons x show ?thesis by (simp add: wf_map_def add.left_commute)
  qed
qed

text \<open>
  C34. Traffic is conserved, but not at every moment: when the goroutine of a registered connection has ended, the
  counters of the router are what they were (modulo \<open>2 ^ 64\<close>), the traffic of the connection being kept after
  it is removed; between \<open>wg.Done\<close> and \<open>removeConnection\<close> they count this connection twice.
\<close>

theorem router_traffic_conserved:
  assumes "router_reachable r" and "connection r (rc_remote (rt_objs r ! c)) = Some c"
  shows "router_Tx (handle_remove (handle_done r c) c) = router_Tx r \<and> router_Rx (handle_remove (handle_done r c) c) = router_Rx r \<and>
    router_Tx (handle_done r c) = router_Tx r + ctr_tx (rc_counter (rt_objs r ! c)) \<and>
    router_Rx (handle_done r c) = router_Rx r + ctr_rx (rc_counter (rt_objs r ! c))"
proof -
  let ?m = "rt_connections r" and ?a = "rc_remote (rt_objs r ! c)"
  have inv: "router_inv r" by (rule router_reachable_inv[OF assms(1)])
  have "map_of ?m ?a = Some c" "wf_map ?m" using assms(2) inv by (auto simp: connection_def router_inv_def)
  note del = sum_list_delete[OF this(2,1)]
  show ?thesis
    unfolding router_Tx_def router_Rx_def
    using del[of "\<lambda>c. ctr_tx (rc_counter (rt_objs r ! c))"] del[of "\<lambda>c. ctr_rx (rc_counter (rt_objs r ! c))"]
    by (simp add: handle_done_def handle_remove_def removeConnection_def Let_def updateTx_def updateRx_def)
qed

theorem router_traffic_conserved_witness:
  "router_Tx (handle_remove (handle_done two_conns 0) 0) = 5 \<and> router_Tx (handle_done two_conns 0) = 10"
  using router_traffic_conserved[OF two_conns_reachable, of 0]
  by (simp add: two_conns_eq connection_def toy_conn_def router_Tx_def)

end
