(* ===== verification/Net_Hosts.thy ===== *)
theory Net_Hosts
  imports Net_Listener Net_Local Net_Router
begin

text \<open>
  The hosts of network/tcp.go and network/local.go and the routers made from them, the functions that
  use the default local manager, and the methods of connections and listeners that only read a
  field.
\<close>

section \<open>Hosts over TCP\<close>

record TCPHost = th_listener :: "TCPListener option"

text \<open>\<open>NewTCPHost\<close> returns a host in every case; its listener is nil when there is an error.\<close>

definition NewTCPHost :: "(string \<Rightarrow> nat \<Rightarrow> raw_error + string) \<Rightarrow> Address \<Rightarrow> TCPHost \<times> host_error option" where
  "NewTCPHost lis addr =
     (case NewTCPListener lis addr of
        Inl e \<Rightarrow> (\<lparr>th_listener = None\<rparr>, Some e)
      | Inr t \<Rightarrow> (\<lparr>th_listener = Some t\<rparr>, None))"

text \<open>\<open>NewRouter\<close> asks the host for its address; on a host without a listener that panics.\<close>

definition host_Address :: "TCPHost \<Rightarrow> Address option" where
  "host_Address h = map_option tcp_Address (th_listener h)"

definition NewTCPRouter :: "(string \<Rightarrow> nat \<Rightarrow> raw_error + string) \<Rightarrow> Address \<Rightarrow> (host_error + Router) option" where
  "NewTCPRouter lis addr =
     (case NewTCPHost lis addr of
        (h, Some e) \<Rightarrow> Some (Inl e)
      | (h, None) \<Rightarrow> (case host_Address h of None \<Rightarrow> None | Some a \<Rightarrow> Some (Inr (NewRouter a))))"

definition tcp_Remote :: "TCPConn \<Rightarrow> Address" where "tcp_Remote c = tcp_endpoint c"

text \<open>\<open>local\<close> is the text of the socket's own address.\<close>

definition tcp_Local :: "string \<Rightarrow> TCPConn \<Rightarrow> Address" where "tcp_Local loc c = NewTCPAddress loc"
definition tcp_Type :: "TCPConn \<Rightarrow> string" where "tcp_Type c = PlainTCP"
definition ctr_Rx :: "counterSafe \<Rightarrow> uint64" where "ctr_Rx c = ctr_rx c"
definition ctr_Tx :: "counterSafe \<Rightarrow> uint64" where "ctr_Tx c = ctr_tx c"

section \<open>Local hosts\<close>

definition NewLocalAddress :: "string \<Rightarrow> Address" where "NewLocalAddress addr = NewAddress Local addr"

record 'e LocalHost =
  lh_addr :: Address
  lh_listener :: "'e LocalListener option"

text \<open>\<open>multi\<close> is a fresh \<open>MultiProtoEncoder\<close>, used when the encoder is nil.\<close>

definition NewLocalHostWithManager :: "'e \<Rightarrow> 'e LocalManager \<Rightarrow> Address \<Rightarrow> 'e option \<Rightarrow> 'e LocalHost \<times> local_error option" where
  "NewLocalHostWithManager multi lm addr e =
     (let enc = (case e of None \<Rightarrow> multi | Some x \<Rightarrow> x)
      in case NewLocalListenerWithManager lm addr enc of
           Inl err \<Rightarrow> (\<lparr>lh_addr = addr, lh_listener = None\<rparr>, Some err)
         | Inr l \<Rightarrow> (\<lparr>lh_addr = addr, lh_listener = Some l\<rparr>, None))"

definition NewLocalRouterWithManager :: "'e \<Rightarrow> 'e LocalManager \<Rightarrow> Address \<Rightarrow> 'e option \<Rightarrow> (local_error + Router) option" where
  "NewLocalRouterWithManager multi l addr e =
     (case NewLocalHostWithManager multi l addr e of
        (h, Some err) \<Rightarrow> Some (Inl err)
      | (h, None) \<Rightarrow> (case lh_listener h of None \<Rightarrow> None | Some ll \<Rightarrow> Some (Inr (NewRouter (ll_addr ll)))))"

definition ll_Address :: "'e LocalListener \<Rightarrow> Address" where "ll_Address ll = ll_addr ll"
definition ll_Listening :: "'e LocalListener \<Rightarrow> bool" where "ll_Listening ll = ll_listening ll"
definition lc_Local :: "LocalConn \<Rightarrow> Address" where "lc_Local c = ep_addr (lc_local c)"
definition lc_Remote :: "LocalConn \<Rightarrow> Address" where "lc_Remote c = ep_addr (lc_remote c)"
definition lc_Type :: "LocalConn \<Rightarrow> string" where "lc_Type c = Local"

text \<open>The functions that take the global \<open>defaultLocalManager\<close>, which is their first argument here.\<close>

definition LocalReset :: "'e LocalManager" where "LocalReset = NewLocalManager"

definition NewLocalRouter :: "'e LocalManager \<Rightarrow> 'e \<Rightarrow> Address \<Rightarrow> 'e option \<Rightarrow> (local_error + Router) option" where
  "NewLocalRouter defaultLocalManager multi addr enc = NewLocalRouterWithManager multi defaultLocalManager addr enc"

definition NewLocalHost :: "'e LocalManager \<Rightarrow> 'e \<Rightarrow> Address \<Rightarrow> 'e option \<Rightarrow> 'e LocalHost \<times> local_error option" where
  "NewLocalHost defaultLocalManager multi addr e = NewLocalHostWithManager multi defaultLocalManager addr e"

definition NewLocalConn :: "(nat \<Rightarrow> 'e LocalManager) \<Rightarrow> Address \<Rightarrow> Address \<Rightarrow> local_error + 'e LocalManager \<times> nat" where
  "NewLocalConn defaultLocalManager loc remote = NewLocalConnWithManager defaultLocalManager loc remote"

definition NewLocalListener :: "'e LocalManager \<Rightarrow> Address \<Rightarrow> 'e \<Rightarrow> local_error + 'e LocalListener" where
  "NewLocalListener defaultLocalManager addr enc = NewLocalListenerWithManager defaultLocalManager addr enc"

section \<open>Properties\<close>

text \<open>
  When a local router can be made: exactly when the address has the local type and nobody listens
  there. A host that could not get its listener is returned all the same, with the error; no router is
  made from it, and making one never panics.
\<close>

theorem local_router_iff:
  "NewLocalRouterWithManager multi lm addr e =
     Some (if ConnType_of addr = Local \<and> \<not> isListening lm addr then Inr (NewRouter addr)
           else Inl (if ConnType_of addr = Local then Already_listening addr else Bad_type (ConnType_of addr))) \<and>
   lh_addr (fst (NewLocalHostWithManager multi lm addr e)) = addr"
  by (simp add: NewLocalRouterWithManager_def NewLocalHostWithManager_def NewLocalListenerWithManager_def Let_def)

text \<open>
  Local listeners are not exclusive: two listeners made for one address before either of them
  listens can both listen; the second takes the connections over, and stopping the first one leaves
  nobody listening at the address, although the second still believes it is.
\<close>

theorem local_listener_taken_over:
  assumes "NewLocalListenerWithManager lm addr e1 = Inr l1" and "NewLocalListenerWithManager lm addr e2 = Inr l2"
  shows "\<exists>lm1 l1' lm2 l2'. local_Listen lm l1 = Inr (lm1, l1') \<and> local_Listen lm1 l2 = Inr (lm2, l2') \<and>
    map_of (lm_listening lm2) addr = Some e2 \<and> \<not> isListening (fst (local_Stop lm2 l1')) addr \<and> ll_listening l2'"
  using assms
  by (auto simp: NewLocalListenerWithManager_def local_Listen_def local_Stop_def setListening_def unsetListening_def
      isListening_def lookup_update lookup_delete split: if_splits)

theorem local_listener_taken_over_witness:
  "\<exists>lm1 l1' lm2 l2'.
     local_Listen NewLocalManager \<lparr>ll_enc = True, ll_addr = ''local://a:1'', ll_listening = False\<rparr> = Inr (lm1, l1') \<and>
     local_Listen lm1 \<lparr>ll_enc = False, ll_addr = ''local://a:1'', ll_listening = False\<rparr> = Inr (lm2, l2') \<and>
     \<not> isListening (fst (local_Stop lm2 l1')) ''local://a:1''"
proof -
  have "NewLocalListenerWithManager NewLocalManager ''local://a:1'' e = Inr \<lparr>ll_enc = e, ll_addr = ''local://a:1'', ll_listening = False\<rparr>" for e :: bool
    by (simp add: NewLocalListenerWithManager_def isListening_def NewLocalManager_def) code_simp
  from local_listener_taken_over[OF this this] show ?thesis by blast
qed

end
