(* ===== verification/Net_Stack.thy ===== *)
theory Net_Stack
  imports Net_Router
begin

text \<open>
  The network package as one path: a message is encoded, framed and written by one host, read,
  decoded and dispatched by the goroutine of the connection at the other. The parts are in
  Net\_Encoding, Net\_Tcp, Net\_Dispatch and Net\_Router.
\<close>

section \<open>The goroutine of a TCP connection\<close>

text \<open>\<open>handleConn\<close> compares the error of \<open>Receive\<close> with three errors of the package; others compare as unknown.\<close>

definition compared :: "'x conn_error \<Rightarrow> net_error" where
  "compared e = (case e of Net n \<Rightarrow> n | _ \<Rightarrow> ErrUnknown)"

text \<open>
  At most \<open>n\<close> rounds of the loop of \<open>handleConn\<close> over connection \<open>c\<close> of the router, whose socket is \<open>p\<close>:
  whether the loop still runs, and the calls of processors, in order. The loop waits where \<open>Receive\<close>
  does.
\<close>

fun handleConn ::
  "(bytes \<Rightarrow> 'x + ('t, 'v) message) \<Rightarrow> (Address \<Rightarrow> ('t, 'v) message \<Rightarrow> string + 'call) \<Rightarrow> Router \<Rightarrow> nat \<Rightarrow> nat \<Rightarrow> TCPConn \<Rightarrow>
     bool \<times> 'call list" where
  "handleConn unmarshal dispatch r c 0 p = (True, [])"
| "handleConn unmarshal dispatch r c (Suc n) p =
     (case tcp_Receive unmarshal p of
        (Waits, _) \<Rightarrow> (True, [])
      | (Fails e, p') \<Rightarrow>
          (case handle_round dispatch r c (Inl (compared e)) of
             (False, calls) \<Rightarrow> (False, calls)
           | (True, calls) \<Rightarrow> (case handleConn unmarshal dispatch r c n p' of (go, more_calls) \<Rightarrow> (go, calls @ more_calls)))
      | (Returns m, p') \<Rightarrow>
          (case handle_round dispatch r c (Inr m) of
             (False, calls) \<Rightarrow> (False, calls)
           | (True, calls) \<Rightarrow> (case handleConn unmarshal dispatch r c n p' of (go, more_calls) \<Rightarrow> (go, calls @ more_calls))))"

definition dispatched :: "(Address \<Rightarrow> ('t, 'v) message \<Rightarrow> string + 'call) \<Rightarrow> Address \<Rightarrow> ('t, 'v) message list \<Rightarrow> 'call list" where
  "dispatched dispatch src ms = concat (map (\<lambda>m. case dispatch src m of Inl _ \<Rightarrow> [] | Inr call \<Rightarrow> [call]) ms)"

lemma handleConn_dispatches:
  assumes "\<not> rt_isClosed r"
  shows "tcp_recv_n unmarshal n p = Some ms \<Longrightarrow>
    handleConn unmarshal dispatch r c n p = (True, dispatched dispatch (rc_remote (rt_objs r ! c)) ms)"
proof (induction n arbitrary: p ms)
  case 0
  then show ?case by (simp add: dispatched_def)
next
  case (Suc n)
  obtain m p' ms' where m: "tcp_Receive unmarshal p = (Returns m, p')" "tcp_recv_n unmarshal n p' = Some ms'" "ms = m # ms'"
    using Suc.prems by (auto split: prod.splits io_result.splits)
  have "handle_round dispatch r c (Inr m) = (True, dispatched dispatch (rc_remote (rt_objs r ! c)) [m])"
    using assms by (simp add: handle_round_def Closed_def dispatched_def split: sum.splits)
  then show ?case using m Suc.IH[OF m(2)] by (simp add: dispatched_def)
qed

text \<open>An error of the three ends the loop, without a call.\<close>

lemma handleConn_ends:
  assumes "tcp_Receive unmarshal p = (Fails (Net e), p')" and "e \<in> {ErrTimeout, ErrClosed, ErrEOF}"
  shows "handleConn unmarshal dispatch r c (Suc n) p = (False, [])"
  using assms by (auto simp: handle_round_def compared_def)

section \<open>From one host to the processor of another\<close>

text \<open>
  C7. The network end to end: the messages one host sends over a TCP connection, one after the other and
  with any short writes, make the router of the other host call, in the same order and with the address of
  the connection, the processor registered last for the type of each, however the stream is cut into
  segments; a message nobody registered for is skipped, and the goroutine goes on.
\<close>

theorem network_end_to_end:
  fixes pbe :: "('t, 'v, 'e) pb_encoder" and pbd :: "('t, 'v, 'e) pb_decoder"
  assumes "reg_consistent reg"
    and "list_all (\<lambda>(orc, m). header_written orc \<and> fits (multi_Marshal pbe reg m) \<and> pb_faithful pbe pbd m) jobs"
    and "tcp_send_all (multi_Marshal pbe reg) a jobs = Some a'" and "tcp_sent a = []"
    and "all_data (tcp_rx p)" and "stream_of (tcp_rx p) = tcp_sent a'" and "\<not> rt_isClosed r"
  shows "handleConn (multi_Unmarshal pbd reg) (blocking_Dispatch (bd_registered rs)) r c (length jobs) p =
    (True, concat (map (\<lambda>(orc, m). case last_registered (msg_type m) rs of
        None \<Rightarrow> [] | Some q \<Rightarrow> [(q, rc_remote (rt_objs r ! c), PtrTo (msg_type m) (contents m))]) jobs))"
proof -
  let ?ms = "map (\<lambda>(orc, m). PtrTo (msg_type m) (contents m)) jobs"
  have target: "map_of (bd_procs (bd_registered rs)) t = last_registered t rs" for t
    using blocking.target_last[of NewBlockingDispatcher rs t]
    by (simp add: bd_target_def bd_registered_def last_for_eq NewBlockingDispatcher_def split: option.splits)
  have one: "(case blocking_Dispatch (bd_registered rs) src (PtrTo (msg_type m) (contents m)) of Inl _ \<Rightarrow> [] | Inr call \<Rightarrow> [call]) =
      (case last_registered (msg_type m) rs of None \<Rightarrow> [] | Some q \<Rightarrow> [(q, src, PtrTo (msg_type m) (contents m))])" for src and m :: "('t, 'v) message"
    by (simp add: blocking_Dispatch_def target getValueType_eq split: option.splits)
  have calls: "dispatched (blocking_Dispatch (bd_registered rs)) (rc_remote (rt_objs r ! c)) ?ms =
      concat (map (\<lambda>(orc, m). case last_registered (msg_type m) rs of
        None \<Rightarrow> [] | Some q \<Rightarrow> [(q, rc_remote (rt_objs r ! c), PtrTo (msg_type m) (contents m))]) jobs)"
    unfolding dispatched_def map_map by (intro arg_cong[of _ _ concat] map_cong) (auto simp: one simp del: getValueType_eq)
  show ?thesis unfolding handleConn_dispatches[OF assms(7) tcp_recv_all[OF assms(1-6)]] calls ..
qed

theorem network_end_to_end_witness:
  "handleConn (multi_Unmarshal raw_pbd demo_reg)
     (blocking_Dispatch (bd_registered [(''first'', [Struct ''Ping'' [] :: (string, bytes) message]), (''second'', [Struct ''Ping'' []])])) two_conns 0 2 (demo_conn demo_rx) =
   (True, [(''second'', rc_remote (rt_objs two_conns ! 0), PtrTo ''Ping'' [1]), (''second'', rc_remote (rt_objs two_conns ! 0), PtrTo ''Ping'' [2])])"
proof -
  let ?rs = "[(''first'', [Struct ''Ping'' [] :: (string, bytes) message]), (''second'', [Struct ''Ping'' []])]"
  obtain a' where a': "tcp_send_all (multi_Marshal raw_pbe demo_reg) (demo_conn []) demo_jobs = Some a'" "tcp_sent a' = stream_of demo_rx"
    using demo_jobs_sent by blast
  have "\<not> rt_isClosed two_conns" by (simp add: two_conns_eq)
  then have "handleConn (multi_Unmarshal raw_pbd demo_reg) (blocking_Dispatch (bd_registered ?rs)) two_conns 0 (length demo_jobs) (demo_conn demo_rx) =
      (True, concat (map (\<lambda>(orc, m). case last_registered (msg_type m) ?rs of
        None \<Rightarrow> [] | Some q \<Rightarrow> [(q, rc_remote (rt_objs two_conns ! 0), PtrTo (msg_type m) (contents m))]) demo_jobs))"
    by (intro network_end_to_end[OF demo_reg_consistent demo_jobs_ok a'(1)]) (simp_all add: demo_conn_def a'(2) demo_rx_def)
  moreover have "length demo_jobs = 2" by (simp add: demo_jobs_def)
  ultimately show ?thesis by (simp add: demo_jobs_def last_registered_def numeral_2_eq_2 del: handleConn.simps)
qed

end
