(* ===== verification/Go_Steps.thy ===== *)
theory Go_Steps
  imports Main
begin

text \<open>
  Systems of steps: the components with goroutines are step relations, and one of them implements
  another when a simulation relates their states. The locale \<open>simulation\<close> is the contract; the relay
  and its rooms, and the stacks of two clients and a session of reliable streams, interpret it.
\<close>

locale simulation =
  fixes cinit :: "'c \<Rightarrow> bool" and cstep :: "'c \<Rightarrow> 'c \<Rightarrow> bool"
    and ainit :: "'a \<Rightarrow> bool" and astep :: "'a \<Rightarrow> 'a \<Rightarrow> bool"
    and sim :: "'c \<Rightarrow> 'a \<Rightarrow> bool"
  assumes sim_init: "cinit c \<Longrightarrow> \<exists>a. ainit a \<and> sim c a"
    and sim_step: "sim c a \<Longrightarrow> cstep c c' \<Longrightarrow> \<exists>a'. astep\<^sup>*\<^sup>* a a' \<and> sim c' a'"
begin

lemma sim_run:
  assumes "cstep\<^sup>*\<^sup>* c c'" and "sim c a"
  shows "\<exists>a'. astep\<^sup>*\<^sup>* a a' \<and> sim c' a'"
  using assms
proof (induction rule: rtranclp_induct)
  case base
  then show ?case by blast
next
  case (step c1 c2)
  then obtain a1 where "astep\<^sup>*\<^sup>* a a1" "sim c1 a1" by blast
  then show ?case using sim_step[OF _ step.hyps(2)] by (metis rtranclp_trans)
qed

text \<open>Every state the implementation reaches is related to one the specification reaches.\<close>

lemma simulates:
  assumes "cinit c" and "cstep\<^sup>*\<^sup>* c c'"
  shows "\<exists>a a'. ainit a \<and> astep\<^sup>*\<^sup>* a a' \<and> sim c' a'"
  using sim_init[OF assms(1)] sim_run[OF assms(2)] by blast

text \<open>What holds in every state the specification reaches holds, along the relation, in the implementation.\<close>

lemma transfers:
  assumes "cinit c" and "cstep\<^sup>*\<^sup>* c c'" and "\<And>a a'. ainit a \<Longrightarrow> astep\<^sup>*\<^sup>* a a' \<Longrightarrow> P a'" and "\<And>a. sim c' a \<Longrightarrow> P a \<Longrightarrow> Q c'"
  shows "Q c'"
  using simulates[OF assms(1,2)] assms(3,4) by blast

end

end
