(* ===== verification/Relay_Messages.thy ===== *)
theory Relay_Messages
  imports Go_Prelude
begin

text \<open>
  The messages of the relay protocol, relay/relay.proto and the structs and getters of
  relay/relay.pb.go. An enum of protobuf version 3 is an open \<open>int32\<close>, so each has a case for
  the values without a name. A pointer field is an option; a getter on a nil pointer returns the
  zero value.
\<close>

datatype RelayMessage_TYPE = JOIN | JOIN_RESPONSE | LEAVE | INGRESS | EGRESS | OTHER_TYPE "32 word"

datatype JoinResponse_STATUS = OK | FAILURE | OTHER_STATUS "32 word"

record JoinResponse =
  jr_status :: JoinResponse_STATUS
  jr_reason :: string

record Ingress =
  in_blob :: bytes

record Egress =
  eg_address :: string
  eg_blob :: bytes

record RelayMessage =
  rm_channel :: string
  rm_type :: RelayMessage_TYPE
  rm_joinResponse :: "JoinResponse option"
  rm_ingress :: "Ingress option"
  rm_egress :: "Egress option"

definition GetStatus :: "JoinResponse option \<Rightarrow> JoinResponse_STATUS" where
  "GetStatus m = (case m of None \<Rightarrow> OK | Some r \<Rightarrow> jr_status r)"

definition GetReason :: "JoinResponse option \<Rightarrow> string" where
  "GetReason m = (case m of None \<Rightarrow> [] | Some r \<Rightarrow> jr_reason r)"

definition Ingress_GetBlob :: "Ingress option \<Rightarrow> bytes" where
  "Ingress_GetBlob m = (case m of None \<Rightarrow> [] | Some r \<Rightarrow> in_blob r)"

definition Egress_GetAddress :: "Egress option \<Rightarrow> string" where
  "Egress_GetAddress m = (case m of None \<Rightarrow> [] | Some r \<Rightarrow> eg_address r)"

definition Egress_GetBlob :: "Egress option \<Rightarrow> bytes" where
  "Egress_GetBlob m = (case m of None \<Rightarrow> [] | Some r \<Rightarrow> eg_blob r)"

definition GetChannel :: "RelayMessage option \<Rightarrow> string" where
  "GetChannel m = (case m of None \<Rightarrow> [] | Some r \<Rightarrow> rm_channel r)"

definition GetType :: "RelayMessage option \<Rightarrow> RelayMessage_TYPE" where
  "GetType m = (case m of None \<Rightarrow> JOIN | Some r \<Rightarrow> rm_type r)"

definition GetJoinResponse :: "RelayMessage option \<Rightarrow> JoinResponse option" where
  "GetJoinResponse m = (case m of None \<Rightarrow> None | Some r \<Rightarrow> rm_joinResponse r)"

definition GetIngress :: "RelayMessage option \<Rightarrow> Ingress option" where
  "GetIngress m = (case m of None \<Rightarrow> None | Some r \<Rightarrow> rm_ingress r)"

definition GetEgress :: "RelayMessage option \<Rightarrow> Egress option" where
  "GetEgress m = (case m of None \<Rightarrow> None | Some r \<Rightarrow> rm_egress r)"

lemmas getter_defs = GetChannel_def GetType_def GetJoinResponse_def GetIngress_def GetEgress_def
  GetStatus_def GetReason_def Ingress_GetBlob_def Egress_GetAddress_def Egress_GetBlob_def

text \<open>A message with only its channel and type set, as Go's struct literals leave it.\<close>

definition plain_msg :: "string \<Rightarrow> RelayMessage_TYPE \<Rightarrow> RelayMessage" where
  "plain_msg ch ty =
     \<lparr>rm_channel = ch, rm_type = ty, rm_joinResponse = None, rm_ingress = None, rm_egress = None\<rparr>"

definition join_response_msg :: "string \<Rightarrow> JoinResponse \<Rightarrow> RelayMessage" where
  "join_response_msg ch jr = (plain_msg ch JOIN_RESPONSE)\<lparr>rm_joinResponse := Some jr\<rparr>"

definition ingress_msg :: "string \<Rightarrow> bytes \<Rightarrow> RelayMessage" where
  "ingress_msg ch blob = (plain_msg ch INGRESS)\<lparr>rm_ingress := Some \<lparr>in_blob = blob\<rparr>\<rparr>"

definition egress_msg :: "string \<Rightarrow> bytes \<Rightarrow> RelayMessage" where
  "egress_msg ch blob = (plain_msg ch EGRESS)\<lparr>rm_egress := Some \<lparr>eg_address = [], eg_blob = blob\<rparr>\<rparr>"

lemmas msg_defs = plain_msg_def join_response_msg_def ingress_msg_def egress_msg_def

section \<open>Names of the enumerations\<close>

text \<open>
  The numbers of the enumerations, the two tables of each, and \<open>String\<close>, which is \<open>proto.EnumName\<close>:
  the name in the table, or the number in decimal (\<open>itoa\<close>).
\<close>

definition type_number :: "RelayMessage_TYPE \<Rightarrow> 32 word" where
  "type_number t =
     (case t of JOIN \<Rightarrow> 0 | JOIN_RESPONSE \<Rightarrow> 1 | LEAVE \<Rightarrow> 2 | INGRESS \<Rightarrow> 3 | EGRESS \<Rightarrow> 4 | OTHER_TYPE n \<Rightarrow> n)"

definition RelayMessage_TYPE_name :: "(32 word, string) gomap" where
  "RelayMessage_TYPE_name =
     [(0, ''JOIN''), (1, ''JOIN_RESPONSE''), (2, ''LEAVE''), (3, ''INGRESS''), (4, ''EGRESS'')]"

definition RelayMessage_TYPE_value :: "(string, 32 word) gomap" where
  "RelayMessage_TYPE_value =
     [(''JOIN'', 0), (''JOIN_RESPONSE'', 1), (''LEAVE'', 2), (''INGRESS'', 3), (''EGRESS'', 4)]"

definition type_String :: "(32 word \<Rightarrow> string) \<Rightarrow> RelayMessage_TYPE \<Rightarrow> string" where
  "type_String itoa t =
     (case map_of RelayMessage_TYPE_name (type_number t) of Some s \<Rightarrow> s | None \<Rightarrow> itoa (type_number t))"

definition status_number :: "JoinResponse_STATUS \<Rightarrow> 32 word" where
  "status_number t = (case t of OK \<Rightarrow> 0 | FAILURE \<Rightarrow> 1 | OTHER_STATUS n \<Rightarrow> n)"

definition JoinResponse_STATUS_name :: "(32 word, string) gomap" where
  "JoinResponse_STATUS_name = [(0, ''OK''), (1, ''FAILURE'')]"

definition JoinResponse_STATUS_value :: "(string, 32 word) gomap" where
  "JoinResponse_STATUS_value = [(''OK'', 0), (''FAILURE'', 1)]"

definition status_String :: "(32 word \<Rightarrow> string) \<Rightarrow> JoinResponse_STATUS \<Rightarrow> string" where
  "status_String itoa t =
     (case map_of JoinResponse_STATUS_name (status_number t) of Some s \<Rightarrow> s | None \<Rightarrow> itoa (status_number t))"

text \<open>The zero messages, which \<open>Reset\<close> leaves.\<close>

definition RelayMessage_Reset :: RelayMessage where "RelayMessage_Reset = plain_msg [] JOIN"
definition JoinResponse_Reset :: JoinResponse where "JoinResponse_Reset = \<lparr>jr_status = OK, jr_reason = []\<rparr>"
definition Ingress_Reset :: Ingress where "Ingress_Reset = \<lparr>in_blob = []\<rparr>"
definition Egress_Reset :: Egress where "Egress_Reset = \<lparr>eg_address = [], eg_blob = []\<rparr>"

text \<open>The tables of names and of values are inverse to each other, so the text of a known type gives its number back.\<close>

lemma type_tables: "map_of RelayMessage_TYPE_value s = Some n \<longleftrightarrow> map_of RelayMessage_TYPE_name n = Some s"
  by (auto simp: RelayMessage_TYPE_value_def RelayMessage_TYPE_name_def)

lemma status_tables: "map_of JoinResponse_STATUS_value s = Some n \<longleftrightarrow> map_of JoinResponse_STATUS_name n = Some s"
  by (auto simp: JoinResponse_STATUS_value_def JoinResponse_STATUS_name_def)

text \<open>A nil message reads as the zero message.\<close>

lemma getters_of_nil:
  "GetChannel None = GetChannel (Some RelayMessage_Reset)" "GetType None = GetType (Some RelayMessage_Reset)"
  "GetJoinResponse None = GetJoinResponse (Some RelayMessage_Reset)" "GetStatus None = GetStatus (Some JoinResponse_Reset)"
  "Egress_GetBlob None = Egress_GetBlob (Some Egress_Reset)" "Ingress_GetBlob None = Ingress_GetBlob (Some Ingress_Reset)"
  by (simp_all add: getter_defs RelayMessage_Reset_def JoinResponse_Reset_def Egress_Reset_def Ingress_Reset_def plain_msg_def)

end
