(* ===== verification/Relay_Server.thy ===== *)
theory Relay_Server
  imports Go_Chan Go_Steps Net_Router Relay_Messages
begin

text \<open>
  relay/relay.go: the relay and its channels. Every channel has a goroutine (\<open>process\<close>) that
  selects over four queues; the relay's handlers (\<open>Process\<close> for a message of the network,
  \<open>Receive\<close> for a connection that went down, \<open>Stop\<close>) hold the mutex \<open>channelsMut\<close>
  while they run and feed the queues with \<open>newMessage\<close>, which blocks on a full queue. The model
  keeps these interleavings: a handler that holds the mutex is the list \<open>rl_calls\<close> of the
  \<open>newMessage\<close> calls it still has to make, and the goroutine of a channel that has to delete
  its channel waits for the mutex in the state \<open>Deleting\<close>. Messages given to the router are
  collected in \<open>rl_out\<close>; the relay only logs the errors of \<open>Send\<close>.
\<close>

section \<open>State\<close>

definition ChannelQueueSize :: nat where "ChannelQueueSize = 100"
definition ChannelSize :: nat where "ChannelSize = 30"
definition MaxChannel :: nat where "MaxChannel = 50"

record messageInfo =
  mi_address :: Address
  mi_msg :: "Ingress option"

text \<open>Where the goroutine of a channel is.\<close>

datatype routine = Selecting | Deleting | Exited

record channel =
  ch_id :: string
  ch_incoming :: "messageInfo gchan"
  ch_join :: "Address gchan"
  ch_leave :: "Address gchan"
  ch_finished :: "bool gchan"
  ch_clients :: "(Address, bool) gomap"
  ch_done :: bool
  ch_routine :: routine

record Relay =
  rl_channels :: "(string, channel) gomap"
  rl_calls :: "(string \<times> Address \<times> RelayMessage) list"
  rl_out :: "(Address \<times> RelayMessage) list"

definition NewRelay :: Relay where
  "NewRelay = \<lparr>rl_channels = [], rl_calls = [], rl_out = []\<rparr>"

section \<open>A channel\<close>

definition newChannel :: "string \<Rightarrow> channel" where
  "newChannel i =
     \<lparr>ch_id = i, ch_incoming = make_chan ChannelQueueSize, ch_join = make_chan ChannelQueueSize,
      ch_leave = make_chan ChannelQueueSize, ch_finished = make_chan 1, ch_clients = [],
      ch_done = False, ch_routine = Selecting\<rparr>"

definition map_happens :: "('a \<Rightarrow> 'b) \<Rightarrow> 'a chan_result \<Rightarrow> 'b chan_result" where
  "map_happens f r = (case r of Happens a \<Rightarrow> Happens (f a) | Blocks \<Rightarrow> Blocks | Panics \<Rightarrow> Panics)"

text \<open>\<open>newMessage\<close>: the queue depends on the type; other types are logged.\<close>

definition newMessage :: "channel \<Rightarrow> Address \<Rightarrow> RelayMessage \<Rightarrow> channel chan_result" where
  "newMessage ch from m =
     (case rm_type m of
        JOIN \<Rightarrow> map_happens (\<lambda>q. ch\<lparr>ch_join := q\<rparr>) (chan_send (ch_join ch) from)
      | LEAVE \<Rightarrow> map_happens (\<lambda>q. ch\<lparr>ch_leave := q\<rparr>) (chan_send (ch_leave ch) from)
      | INGRESS \<Rightarrow>
          map_happens (\<lambda>q. ch\<lparr>ch_incoming := q\<rparr>)
            (chan_send (ch_incoming ch) \<lparr>mi_address = from, mi_msg = rm_ingress m\<rparr>)
      | _ \<Rightarrow> Happens ch)"

text \<open>\<open>addClient\<close>: the new client set and the answer.\<close>

definition addClient :: "channel \<Rightarrow> Address \<Rightarrow> channel \<times> (Address \<times> RelayMessage) list" where
  "addClient ch client =
     (let reply = (\<lambda>st reason. [(client, join_response_msg (ch_id ch) \<lparr>jr_status = st, jr_reason = reason\<rparr>)])
      in if map_of (ch_clients ch) client \<noteq> None then (ch, reply OK [])
         else if length (ch_clients ch) < ChannelSize
         then (ch\<lparr>ch_clients := AList.update client True (ch_clients ch)\<rparr>, reply OK [])
         else (ch, reply FAILURE ''channel: can't join a full channel''))"

definition setDone :: "channel \<Rightarrow> channel" where
  [simp]: "setDone ch = ch\<lparr>ch_done := True\<rparr>"

definition isDone :: "channel \<Rightarrow> bool" where
  [simp]: "isDone ch = ch_done ch"

text \<open>The branch of a client that leaves: the last one takes the channel down.\<close>

definition removeClient :: "channel \<Rightarrow> Address \<Rightarrow> channel" where
  "removeClient ch addr =
     (let clients = AList.delete addr (ch_clients ch)
      in if length clients = 0
         then (setDone (ch\<lparr>ch_clients := clients\<rparr>))\<lparr>ch_routine := Deleting\<rparr>
         else ch\<lparr>ch_clients := clients\<rparr>)"

text \<open>The branch of an incoming message: to every client but the sender.\<close>

definition broadcast :: "channel \<Rightarrow> messageInfo \<Rightarrow> (Address \<times> RelayMessage) list" where
  "broadcast ch info =
     (if map_of (ch_clients ch) (mi_address info) = None then []
      else (let rm = egress_msg (ch_id ch) (Ingress_GetBlob (mi_msg info))
            in map (\<lambda>c. (c, rm)) (filter (\<lambda>c. c \<noteq> mi_address info) (map fst (ch_clients ch)))))"

text \<open>
  The \<open>select\<close> of \<open>process\<close>: the outcome of every case that is ready. Go picks any of them.
\<close>

definition select_cases :: "channel \<Rightarrow> (channel \<times> (Address \<times> RelayMessage) list) list" where
  "select_cases ch =
     (case chan_recv (ch_finished ch) of
        Happens (_, q) \<Rightarrow> [(ch\<lparr>ch_finished := q, ch_routine := Exited\<rparr>, [])] | _ \<Rightarrow> []) @
     (case chan_recv (ch_join ch) of
        Happens (Some addr, q) \<Rightarrow> [addClient (ch\<lparr>ch_join := q\<rparr>) addr] | _ \<Rightarrow> []) @
     (case chan_recv (ch_leave ch) of
        Happens (Some addr, q) \<Rightarrow> [(removeClient (ch\<lparr>ch_leave := q\<rparr>) addr, [])] | _ \<Rightarrow> []) @
     (case chan_recv (ch_incoming ch) of
        Happens (Some info, q) \<Rightarrow>
          [(ch\<lparr>ch_incoming := q\<rparr>, broadcast (ch\<lparr>ch_incoming := q\<rparr>) info)] | _ \<Rightarrow> [])"

text \<open>\<open>stop\<close>: closes the stop signal unless the channel is done.\<close>

definition channel_stop :: "channel \<Rightarrow> channel chan_result" where
  "channel_stop ch =
     (if isDone ch then Happens ch
      else map_happens (\<lambda>q. (setDone ch)\<lparr>ch_finished := q\<rparr>) (chan_close (ch_finished ch)))"

section \<open>The relay's handlers\<close>

datatype net_message = Relay_msg RelayMessage | Other_msg

definition too_many_channels :: RelayMessage where
  "too_many_channels = join_response_msg [] \<lparr>jr_status = FAILURE, jr_reason = ''too many channels''\<rparr>"

text \<open>
  \<open>Process\<close> up to the call of \<open>newMessage\<close>, which is left in \<open>rl_calls\<close>.
\<close>

definition relay_Process :: "Relay \<Rightarrow> Address \<Rightarrow> net_message \<Rightarrow> Relay" where
  "relay_Process r from msg =
     (case msg of
        Other_msg \<Rightarrow> r
      | Relay_msg m \<Rightarrow>
          if rm_channel m = [] then r
          else (case map_of (rl_channels r) (rm_channel m) of
                  None \<Rightarrow>
                    if length (rl_channels r) > MaxChannel
                    then r\<lparr>rl_out := rl_out r @ [(from, too_many_channels)]\<rparr>
                    else r\<lparr>rl_channels := AList.update (rm_channel m) (newChannel (rm_channel m)) (rl_channels r),
                           rl_calls := [(rm_channel m, from, m)]\<rparr>
                | Some ch \<Rightarrow> r\<lparr>rl_calls := [(rm_channel m, from, m)]\<rparr>))"

text \<open>\<open>Receive\<close>: a LEAVE for the address on every channel; other events are ignored.\<close>

definition relay_Receive :: "Relay \<Rightarrow> string \<Rightarrow> Address \<Rightarrow> Relay" where
  "relay_Receive r event_name down =
     (if event_name \<noteq> EventConnDown then r
      else r\<lparr>rl_calls := map (\<lambda>(i, ch). (i, down, plain_msg i LEAVE)) (rl_channels r)\<rparr>)"

definition deleteChannel :: "Relay \<Rightarrow> string \<Rightarrow> Relay" where
  "deleteChannel r i = r\<lparr>rl_channels := AList.delete i (rl_channels r)\<rparr>"

text \<open>\<open>Stop\<close> stops every channel; \<open>None\<close> where closing a stop signal twice would panic.\<close>

fun stop_all :: "(string, channel) gomap \<Rightarrow> (string, channel) gomap option" where
  "stop_all [] = Some []"
| "stop_all ((i, ch) # m) =
     (case channel_stop ch of
        Happens ch' \<Rightarrow> map_option (\<lambda>m'. (i, ch') # m') (stop_all m)
      | _ \<Rightarrow> None)"

definition relay_Stop :: "Relay \<Rightarrow> Relay option" where
  "relay_Stop r = map_option (\<lambda>m. r\<lparr>rl_channels := m\<rparr>) (stop_all (rl_channels r))"

section \<open>Steps of the relay\<close>

definition put_channel :: "Relay \<Rightarrow> string \<Rightarrow> channel \<Rightarrow> Relay" where
  "put_channel r i ch = r\<lparr>rl_channels := AList.update i ch (rl_channels r)\<rparr>"

inductive relay_step :: "Relay \<Rightarrow> Relay \<Rightarrow> bool" where
  handle: "rl_calls r = [] \<Longrightarrow> relay_step r (relay_Process r from msg)"
| conn_down: "rl_calls r = [] \<Longrightarrow> relay_step r (relay_Receive r event_name down)"
| call: "rl_calls r = (i, from, m) # rest \<Longrightarrow> map_of (rl_channels r) i = Some ch \<Longrightarrow>
    newMessage ch from m = Happens ch' \<Longrightarrow>
    relay_step r ((put_channel r i ch')\<lparr>rl_calls := rest\<rparr>)"
| select: "map_of (rl_channels r) i = Some ch \<Longrightarrow> ch_routine ch = Selecting \<Longrightarrow>
    (ch', sends) \<in> set (select_cases ch) \<Longrightarrow>
    relay_step r ((put_channel r i ch')\<lparr>rl_out := rl_out r @ sends\<rparr>)"
| delete: "rl_calls r = [] \<Longrightarrow> map_of (rl_channels r) i = Some ch \<Longrightarrow> ch_routine ch = Deleting \<Longrightarrow>
    relay_step r (deleteChannel r i)"
| stop: "rl_calls r = [] \<Longrightarrow> relay_Stop r = Some r' \<Longrightarrow> relay_step r r'"

inductive relay_reachable :: "Relay \<Rightarrow> bool" where
  start: "relay_reachable NewRelay"
| step: "relay_reachable r \<Longrightarrow> relay_step r r' \<Longrightarrow> relay_reachable r'"

section \<open>The invariant\<close>

definition queue_ok :: "'a gchan \<Rightarrow> bool" where
  "queue_ok q = (wf_chan q \<and> chan_cap q = ChannelQueueSize \<and> \<not> chan_closed q)"

definition channel_ok :: "string \<Rightarrow> channel \<Rightarrow> bool" where
  [inv_defs]: "channel_ok i ch =
     (ch_id ch = i \<and> i \<noteq> [] \<and> wf_map (ch_clients ch) \<and> length (ch_clients ch) \<le> ChannelSize \<and>
      queue_ok (ch_join ch) \<and> queue_ok (ch_leave ch) \<and> queue_ok (ch_incoming ch) \<and>
      (chan_closed (ch_finished ch) \<longrightarrow> ch_done ch) \<and>
      (ch_routine ch = Deleting \<longrightarrow> ch_clients ch = [] \<and> ch_done ch))"

definition relay_inv :: "Relay \<Rightarrow> bool" where
  [inv_defs]: "relay_inv r =
     (wf_map (rl_channels r) \<and> length (rl_channels r) \<le> Suc MaxChannel \<and>
      all_entries channel_ok (rl_channels r) \<and>
      list_all (\<lambda>(i, _, _). i \<in> fst ` set (rl_channels r)) (rl_calls r))"

lemma queue_ok_make [simp]: "queue_ok (make_chan ChannelQueueSize)"
  by (simp add: queue_ok_def wf_chan_def make_chan_def)

lemma queue_ok_send: "queue_ok q \<Longrightarrow> chan_send q v = Happens q' \<Longrightarrow> queue_ok q'"
  by (auto simp: queue_ok_def intro: wf_chan_send dest: chan_send_HappensD)

lemma queue_ok_recv: "queue_ok q \<Longrightarrow> chan_recv q = Happens (Some v, q') \<Longrightarrow> queue_ok q'"
  by (auto simp: queue_ok_def intro: wf_chan_recv dest: chan_recv_SomeD)

lemma queue_ok_send_no_panic: "queue_ok q \<Longrightarrow> chan_send q v \<noteq> Panics"
  by (simp add: queue_ok_def chan_send_def)

lemma map_happens_eq [simp]:
  "map_happens f x = Happens b \<longleftrightarrow> (\<exists>a. x = Happens a \<and> b = f a)"
  "map_happens f x = Panics \<longleftrightarrow> x = Panics"
  "map_happens f x = Blocks \<longleftrightarrow> x = Blocks"
  by (cases x; auto simp: map_happens_def)+

lemma newChannel_ok: "i \<noteq> [] \<Longrightarrow> channel_ok i (newChannel i)"
  by (simp add: channel_ok_def newChannel_def) (simp add: make_chan_def)

lemma newMessage_ok: "channel_ok i ch \<Longrightarrow> newMessage ch from m = Happens ch' \<Longrightarrow> channel_ok i ch'"
  by (auto simp: newMessage_def channel_ok_def split: RelayMessage_TYPE.splits dest: queue_ok_send)

lemma newMessage_clients: "newMessage ch from m = Happens ch' \<Longrightarrow> ch_clients ch' = ch_clients ch"
  by (auto simp: newMessage_def split: RelayMessage_TYPE.splits)

lemma newMessage_no_panic: "channel_ok i ch \<Longrightarrow> newMessage ch from m \<noteq> Panics"
  by (auto simp: newMessage_def channel_ok_def split: RelayMessage_TYPE.splits
      dest: queue_ok_send_no_panic)

lemma addClient_ok:
  "channel_ok i ch \<Longrightarrow> ch_routine ch = Selecting \<Longrightarrow> channel_ok i (fst (addClient ch c))"
  by (auto simp: channel_ok_def addClient_def Let_def length_update)

lemma removeClient_ok: "channel_ok i ch \<Longrightarrow> channel_ok i (removeClient ch c)"
  using length_delete_le[of c "ch_clients ch"]
  by (auto simp: channel_ok_def removeClient_def Let_def)

text \<open>Every case of the \<open>select\<close>, for case analysis.\<close>

lemma select_casesE:
  assumes "(ch', sends) \<in> set (select_cases ch)"
  obtains (finished) v q where "chan_recv (ch_finished ch) = Happens (v, q)"
      "ch' = ch\<lparr>ch_finished := q, ch_routine := Exited\<rparr>" "sends = []"
  | (join) c q where "chan_recv (ch_join ch) = Happens (Some c, q)"
      "(ch', sends) = addClient (ch\<lparr>ch_join := q\<rparr>) c"
  | (leave) c q where "chan_recv (ch_leave ch) = Happens (Some c, q)"
      "ch' = removeClient (ch\<lparr>ch_leave := q\<rparr>) c" "sends = []"
  | (incoming) info q where "chan_recv (ch_incoming ch) = Happens (Some info, q)"
      "ch' = ch\<lparr>ch_incoming := q\<rparr>" "sends = broadcast (ch\<lparr>ch_incoming := q\<rparr>) info"
  using assms
  by (auto simp: select_cases_def split: chan_result.splits option.splits prod.splits)
    (metis finished, metis join, metis leave, metis incoming)

lemma chan_recv_closed: "chan_recv q = Happens (v, q') \<Longrightarrow> chan_closed q' = chan_closed q"
  by (auto simp: chan_recv_def split: list.splits if_splits)

lemma select_ok:
  assumes "channel_ok i ch" and "ch_routine ch = Selecting" and "(ch', sends) \<in> set (select_cases ch)"
  shows "channel_ok i ch'"
  using assms(3)
proof (cases rule: select_casesE)
  case finished
  then show ?thesis using assms by (auto simp: channel_ok_def dest: chan_recv_closed)
next
  case (join c q)
  then have "channel_ok i (ch\<lparr>ch_join := q\<rparr>)"
    using assms(1) by (auto simp: channel_ok_def dest: queue_ok_recv)
  with join assms(2) show ?thesis by (metis addClient_ok channel.select_convs(8) channel.surjective channel.update_convs(3) fst_conv)
next
  case (leave c q)
  then have "channel_ok i (ch\<lparr>ch_leave := q\<rparr>)"
    using assms(1) by (auto simp: channel_ok_def dest: queue_ok_recv)
  with leave show ?thesis by (simp add: removeClient_ok)
next
  case (incoming info q)
  then show ?thesis using assms(1) by (auto simp: channel_ok_def dest: queue_ok_recv)
qed

lemma channel_stop_ok: "channel_ok i ch \<Longrightarrow> channel_stop ch = Happens ch' \<Longrightarrow> channel_ok i ch'"
  by (auto simp: channel_stop_def channel_ok_def chan_close_def split: if_splits)

lemma channel_stop_happens:
  "channel_ok i ch \<Longrightarrow> \<exists>ch'. channel_stop ch = Happens ch' \<and> ch_clients ch' = ch_clients ch"
  by (auto simp: channel_stop_def channel_ok_def chan_close_def map_happens_def)

lemma stop_all_ok:
  "all_entries channel_ok m \<Longrightarrow>
     \<exists>m'. stop_all m = Some m' \<and> all_entries channel_ok m' \<and> map fst m' = map fst m \<and>
       map (\<lambda>(i, ch). (i, ch_clients ch)) m' = map (\<lambda>(i, ch). (i, ch_clients ch)) m"
proof (induction m rule: stop_all.induct)
  case 1
  then show ?case by simp
next
  case (2 i ch m)
  then have "channel_ok i ch" by (simp add: all_entries_def)
  then obtain ch' where "channel_stop ch = Happens ch'" "ch_clients ch' = ch_clients ch" "channel_ok i ch'"
    using channel_stop_happens channel_stop_ok by blast
  with 2 show ?case by (auto simp: all_entries_def)
qed

lemma put_channel_inv:
  "relay_inv r \<Longrightarrow> map_of (rl_channels r) i = Some ch \<Longrightarrow> channel_ok i ch' \<Longrightarrow> relay_inv (put_channel r i ch')"
  by (auto simp: relay_inv_def put_channel_def length_update keys_update list_all_iff
      simp del: image_insert)

lemma relay_Process_inv:
  assumes "relay_inv r" and "rl_calls r = []"
  shows "relay_inv (relay_Process r from msg)"
  using assms
  by (auto simp: relay_inv_def relay_Process_def length_update keys_update newChannel_ok lookup_None_key
      split: net_message.splits option.splits dest: lookup_Some_key)

lemma relay_step_inv: "relay_step r r' \<Longrightarrow> relay_inv r \<Longrightarrow> relay_inv r'"
proof (induction rule: relay_step.induct)
  case (handle r src msg)
  then show ?case by (rule relay_Process_inv[rotated])
next
  case (conn_down r event_name down)
  then show ?case by (force simp: relay_inv_def relay_Receive_def list_all_iff)
next
  case (call r i src m rest ch ch')
  then have "relay_inv (put_channel r i ch')"
    by (intro put_channel_inv) (auto simp: relay_inv_def intro: newMessage_ok all_entries_lookup)
  with call show ?case by (simp add: relay_inv_def put_channel_def)
next
  case (select r i ch ch' sends)
  then have "relay_inv (put_channel r i ch')"
    by (intro put_channel_inv) (auto simp: relay_inv_def intro: select_ok all_entries_lookup)
  then show ?case by (simp add: relay_inv_def)
next
  case (delete r i ch)
  then show ?case
    using length_delete_le[of i "rl_channels r"] by (auto simp: relay_inv_def deleteChannel_def)
next
  case (stop r r')
  then obtain m where m: "stop_all (rl_channels r) = Some m" "r' = r\<lparr>rl_channels := m\<rparr>"
    by (auto simp: relay_Stop_def)
  have "all_entries channel_ok (rl_channels r)" using stop by (simp add: relay_inv_def)
  from stop_all_ok[OF this] m(1) have "all_entries channel_ok m" "map fst m = map fst (rl_channels r)"
    by auto
  with stop m show ?case
    by (auto simp: relay_inv_def wf_map_def dest: arg_cong[where f = length])
qed

lemma relay_reachable_inv: "relay_reachable r \<Longrightarrow> relay_inv r"
proof (induction rule: relay_reachable.induct)
  case start
  then show ?case by (simp add: relay_inv_def NewRelay_def)
next
  case (step r r')
  then show ?case by (blast intro: relay_step_inv)
qed

section \<open>The abstract specification: rooms\<close>

text \<open>
  What the relay promises its clients. A channel is a room: a set of members, the requests that
  wait for it in the order of their arrival (a join, a leave or something a client says), whether
  it was told to stop, and where its goroutine is. The relay is a house of named rooms with the
  requests that the handler in charge still has to queue. Every action names its cause: the
  message of a client or the connection that went down, the request that is queued, the request
  that is served, and a served request has exactly the effect and the messages of
  \<open>room_event\<close>. No action leaves the house as it is, apart from the answers to what is ignored
  or refused.
\<close>

datatype request = Join Address | Leave Address | Say Address bytes

fun room_event :: "string \<Rightarrow> Address set \<Rightarrow> request \<Rightarrow> Address set \<times> (Address \<times> RelayMessage) set" where
  "room_event i M (Join a) =
     (if a \<in> M \<or> card M < ChannelSize
      then (insert a M, {(a, join_response_msg i \<lparr>jr_status = OK, jr_reason = []\<rparr>)})
      else (M, {(a, join_response_msg i \<lparr>jr_status = FAILURE, jr_reason = ''channel: can't join a full channel''\<rparr>)}))"
| "room_event i M (Leave a) = (M - {a}, {})"
| "room_event i M (Say a b) = (M, if a \<in> M then (\<lambda>c. (c, egress_msg i b)) ` (M - {a}) else {})"

record room =
  ro_members :: "Address set"
  ro_joins :: "Address list"
  ro_leaves :: "Address list"
  ro_says :: "(Address \<times> bytes) list"
  ro_stopped :: bool
  ro_phase :: routine

record house =
  ho_rooms :: "string \<Rightarrow> room option"
  ho_calls :: "(string \<times> request option) list"

definition new_room :: room where
  "new_room = \<lparr>ro_members = {}, ro_joins = [], ro_leaves = [], ro_says = [], ro_stopped = False, ro_phase = Selecting\<rparr>"

text \<open>The request a message asks for, none for a type the channel does not know.\<close>

definition request_of :: "Address \<Rightarrow> RelayMessage \<Rightarrow> request option" where
  "request_of a m =
     (case rm_type m of
        JOIN \<Rightarrow> Some (Join a)
      | LEAVE \<Rightarrow> Some (Leave a)
      | INGRESS \<Rightarrow> Some (Say a (Ingress_GetBlob (rm_ingress m)))
      | _ \<Rightarrow> None)"

fun room_waiting :: "request \<Rightarrow> room \<Rightarrow> nat" where
  "room_waiting (Join a) R = length (ro_joins R)"
| "room_waiting (Leave a) R = length (ro_leaves R)"
| "room_waiting (Say a b) R = length (ro_says R)"

fun room_enqueue :: "request \<Rightarrow> room \<Rightarrow> room" where
  "room_enqueue (Join a) R = R\<lparr>ro_joins := ro_joins R @ [a]\<rparr>"
| "room_enqueue (Leave a) R = R\<lparr>ro_leaves := ro_leaves R @ [a]\<rparr>"
| "room_enqueue (Say a b) R = R\<lparr>ro_says := ro_says R @ [(a, b)]\<rparr>"

fun room_first :: "request \<Rightarrow> room \<Rightarrow> bool" where
  "room_first (Join a) R = (take 1 (ro_joins R) = [a])"
| "room_first (Leave a) R = (take 1 (ro_leaves R) = [a])"
| "room_first (Say a b) R = (take 1 (ro_says R) = [(a, b)])"

fun room_served :: "request \<Rightarrow> Address set \<Rightarrow> room \<Rightarrow> room" where
  "room_served (Join a) M R = R\<lparr>ro_joins := tl (ro_joins R), ro_members := M\<rparr>"
| "room_served (Leave a) M R =
     R\<lparr>ro_leaves := tl (ro_leaves R), ro_members := M, ro_phase := if M = {} then Deleting else ro_phase R\<rparr>"
| "room_served (Say a b) M R = R\<lparr>ro_says := tl (ro_says R), ro_members := M\<rparr>"

definition told_to_stop :: "room \<Rightarrow> room" where
  "told_to_stop R = R\<lparr>ro_stopped := ro_stopped R \<or> ro_phase R = Selecting\<rparr>"

datatype house_act =
    Message Address net_message
  | Conn_lost string Address
  | Queued
  | Served string request
  | Halted string
  | Deleted string
  | All_stopped

inductive rooms_step :: "house \<Rightarrow> house_act \<Rightarrow> (Address \<times> RelayMessage) set \<Rightarrow> house \<Rightarrow> bool" where
  other: "ho_calls H = [] \<Longrightarrow> rooms_step H (Message a Other_msg) {} H"
| nameless: "ho_calls H = [] \<Longrightarrow> rm_channel m = [] \<Longrightarrow> rooms_step H (Message a (Relay_msg m)) {} H"
| refuse: "ho_calls H = [] \<Longrightarrow> rm_channel m \<noteq> [] \<Longrightarrow> ho_rooms H (rm_channel m) = None \<Longrightarrow>
    card (dom (ho_rooms H)) > MaxChannel \<Longrightarrow> rooms_step H (Message a (Relay_msg m)) {(a, too_many_channels)} H"
| create: "ho_calls H = [] \<Longrightarrow> rm_channel m \<noteq> [] \<Longrightarrow> ho_rooms H (rm_channel m) = None \<Longrightarrow>
    card (dom (ho_rooms H)) \<le> MaxChannel \<Longrightarrow>
    rooms_step H (Message a (Relay_msg m)) {}
      \<lparr>ho_rooms = (ho_rooms H)(rm_channel m \<mapsto> new_room), ho_calls = [(rm_channel m, request_of a m)]\<rparr>"
| ask: "ho_calls H = [] \<Longrightarrow> rm_channel m \<noteq> [] \<Longrightarrow> ho_rooms H (rm_channel m) \<noteq> None \<Longrightarrow>
    rooms_step H (Message a (Relay_msg m)) {} (H\<lparr>ho_calls := [(rm_channel m, request_of a m)]\<rparr>)"
| elsewhere: "ho_calls H = [] \<Longrightarrow> e \<noteq> EventConnDown \<Longrightarrow> rooms_step H (Conn_lost e a) {} H"
| down: "ho_calls H = [] \<Longrightarrow> distinct ids \<Longrightarrow> set ids = dom (ho_rooms H) \<Longrightarrow>
    rooms_step H (Conn_lost EventConnDown a) {} (H\<lparr>ho_calls := map (\<lambda>i. (i, Some (Leave a))) ids\<rparr>)"
| queue: "ho_calls H = (i, Some q) # rest \<Longrightarrow> ho_rooms H i = Some R \<Longrightarrow> room_waiting q R < ChannelQueueSize \<Longrightarrow>
    rooms_step H Queued {} (H\<lparr>ho_rooms := (ho_rooms H)(i \<mapsto> room_enqueue q R), ho_calls := rest\<rparr>)"
| unknown: "ho_calls H = (i, None) # rest \<Longrightarrow> rooms_step H Queued {} (H\<lparr>ho_calls := rest\<rparr>)"
| serve: "ho_rooms H i = Some R \<Longrightarrow> ro_phase R = Selecting \<Longrightarrow> room_first q R \<Longrightarrow>
    room_event i (ro_members R) q = (M, out) \<Longrightarrow>
    rooms_step H (Served i q) out (H\<lparr>ho_rooms := (ho_rooms H)(i \<mapsto> room_served q M R)\<rparr>)"
| halt: "ho_rooms H i = Some R \<Longrightarrow> ro_phase R = Selecting \<Longrightarrow> ro_stopped R \<Longrightarrow>
    rooms_step H (Halted i) {} (H\<lparr>ho_rooms := (ho_rooms H)(i \<mapsto> R\<lparr>ro_phase := Exited\<rparr>)\<rparr>)"
| delete: "ho_calls H = [] \<Longrightarrow> ho_rooms H i = Some R \<Longrightarrow> ro_phase R = Deleting \<Longrightarrow>
    rooms_step H (Deleted i) {} (H\<lparr>ho_rooms := (ho_rooms H)(i := None)\<rparr>)"
| stop: "ho_calls H = [] \<Longrightarrow>
    rooms_step H All_stopped {} (H\<lparr>ho_rooms := \<lambda>i. map_option told_to_stop (ho_rooms H i)\<rparr>)"

inductive_cases rooms_messageE: "rooms_step H (Message a msg) out H'"
inductive_cases rooms_queuedE: "rooms_step H Queued out H'"
inductive_cases rooms_servedE: "rooms_step H (Served i q) out H'"
inductive_cases rooms_haltedE: "rooms_step H (Halted i) out H'"
inductive_cases rooms_deletedE: "rooms_step H (Deleted i) out H'"
inductive_cases rooms_stoppedE: "rooms_step H All_stopped out H'"

text \<open>
  The action determines the outcome, except for the order in which a handler goes through the
  rooms of a connection that went down.
\<close>

lemma rooms_step_determined:
  assumes "rooms_step H l out1 H1" and "rooms_step H l out2 H2" and "\<nexists>e a. l = Conn_lost e a"
  shows "out1 = out2 \<and> H1 = H2"
  using assms
  by (cases l)
    (auto elim!: rooms_messageE rooms_queuedE rooms_servedE rooms_haltedE rooms_deletedE rooms_stoppedE)

section \<open>The relay implements its rooms\<close>

definition members :: "channel \<Rightarrow> Address set" where
  "members ch = fst ` set (ch_clients ch)"

definition said :: "messageInfo \<Rightarrow> Address \<times> bytes" where
  "said info = (mi_address info, Ingress_GetBlob (mi_msg info))"

definition room_of :: "channel \<Rightarrow> room" where
  "room_of ch =
     \<lparr>ro_members = members ch, ro_joins = chan_buf (ch_join ch), ro_leaves = chan_buf (ch_leave ch),
      ro_says = map said (chan_buf (ch_incoming ch)), ro_stopped = chan_closed (ch_finished ch),
      ro_phase = ch_routine ch\<rparr>"

definition rooms :: "Relay \<Rightarrow> house" where
  "rooms r =
     \<lparr>ho_rooms = \<lambda>i. map_option room_of (map_of (rl_channels r) i),
      ho_calls = map (\<lambda>(i, from, m). (i, request_of from m)) (rl_calls r)\<rparr>"

text \<open>
  The stop signal: never sent on, closed by \<open>stop\<close> only, and \<open>done\<close> tells that it was closed or
  that the channel is being deleted.
\<close>

definition signal_ok :: "channel \<Rightarrow> bool" where
  "signal_ok ch =
     (chan_buf (ch_finished ch) = [] \<and>
      ch_done ch = (chan_closed (ch_finished ch) \<or> ch_routine ch = Deleting) \<and>
      (ch_routine ch = Exited \<longrightarrow> chan_closed (ch_finished ch)))"

definition signals_ok :: "Relay \<Rightarrow> bool" where
  "signals_ok r = all_entries (\<lambda>_. signal_ok) (rl_channels r)"

lemma signal_newChannel [simp]: "signal_ok (newChannel i)"
  by (simp add: signal_ok_def newChannel_def make_chan_def)

lemma signal_newMessage: "signal_ok ch \<Longrightarrow> newMessage ch from m = Happens ch' \<Longrightarrow> signal_ok ch'"
  by (auto simp: newMessage_def signal_ok_def split: RelayMessage_TYPE.splits)

lemma signal_addClient: "signal_ok ch \<Longrightarrow> signal_ok (fst (addClient ch c))"
  by (auto simp: addClient_def signal_ok_def Let_def)

lemma signal_select:
  assumes "signal_ok ch" and "ch_routine ch = Selecting" and "(ch', sends) \<in> set (select_cases ch)"
  shows "signal_ok ch'"
  using assms(3)
proof (cases rule: select_casesE)
  case (join c q)
  have "signal_ok (ch\<lparr>ch_join := q\<rparr>)" using assms(1) by (simp add: signal_ok_def)
  from signal_addClient[OF this, of c] join show ?thesis by (metis fst_conv)
qed (use assms in \<open>auto simp: signal_ok_def removeClient_def Let_def chan_recv_def split: list.splits if_splits\<close>)

lemma signal_stop: "signal_ok ch \<Longrightarrow> channel_stop ch = Happens ch' \<Longrightarrow> signal_ok ch'"
  by (auto simp: channel_stop_def signal_ok_def chan_close_def split: if_splits)

lemma signal_stop_all: "all_entries (\<lambda>_. signal_ok) m \<Longrightarrow> stop_all m = Some m' \<Longrightarrow> all_entries (\<lambda>_. signal_ok) m'"
  by (induction m arbitrary: m' rule: stop_all.induct)
    (auto simp: all_entries_def split: chan_result.splits dest: signal_stop)

lemma signals_put: "signals_ok r \<Longrightarrow> signal_ok ch \<Longrightarrow> signals_ok (put_channel r i ch)"
  by (auto simp: signals_ok_def put_channel_def)

lemma relay_step_signals: "relay_step r r' \<Longrightarrow> signals_ok r \<Longrightarrow> signals_ok r'"
proof (induction rule: relay_step.induct)
  case (handle r src msg)
  then show ?case by (auto simp: signals_ok_def relay_Process_def split: net_message.splits option.splits)
next
  case (conn_down r event_name down)
  then show ?case by (simp add: signals_ok_def relay_Receive_def)
next
  case (call r i src m rest ch ch')
  then have "signals_ok (put_channel r i ch')"
    by (intro signals_put) (auto simp: signals_ok_def intro: signal_newMessage dest: all_entries_lookup)
  then show ?case by (simp add: signals_ok_def)
next
  case (select r i ch ch' sends)
  then have "signals_ok (put_channel r i ch')"
    by (intro signals_put) (auto simp: signals_ok_def intro: signal_select dest: all_entries_lookup)
  then show ?case by (simp add: signals_ok_def)
next
  case (delete r i ch)
  then show ?case by (auto simp: signals_ok_def deleteChannel_def)
next
  case (stop r r')
  then show ?case by (auto simp: signals_ok_def relay_Stop_def dest: signal_stop_all)
qed

lemma relay_reachable_signals: "relay_reachable r \<Longrightarrow> signals_ok r"
  by (induction rule: relay_reachable.induct)
    (auto simp: signals_ok_def NewRelay_def dest: relay_step_signals[unfolded signals_ok_def])

lemma addClient_refines:
  assumes "channel_ok i ch"
  shows "(members (fst (addClient ch c)), set (snd (addClient ch c))) = room_event i (members ch) (Join c)"
    and "length (snd (addClient ch c)) = 1"
proof -
  have "card (members ch) = length (ch_clients ch)" "ch_id ch = i"
    using assms by (auto simp: channel_ok_def members_def wf_map_card_keys)
  then show "(members (fst (addClient ch c)), set (snd (addClient ch c))) = room_event i (members ch) (Join c)"
    by (auto simp: addClient_def members_def Let_def keys_update insert_absorb lookup_None_key
        simp del: not_None_eq dest: lookup_Some_key)
  show "length (snd (addClient ch c)) = 1" by (simp add: addClient_def Let_def)
qed

lemma addClient_room: "room_of (fst (addClient ch c)) = (room_of ch)\<lparr>ro_members := members (fst (addClient ch c))\<rparr>"
  by (simp add: addClient_def room_of_def Let_def)

lemma removeClient_refines: "members (removeClient ch c) = members ch - {c}"
  using keys_delete[of c "ch_clients ch"] by (auto simp: removeClient_def members_def Let_def)

lemma removeClient_room:
  "room_of (removeClient ch c) = (room_of ch)\<lparr>ro_members := members ch - {c},
     ro_phase := if members ch - {c} = {} then Deleting else ch_routine ch\<rparr>"
proof -
  have "AList.delete c (ch_clients ch) = [] \<longleftrightarrow> members ch - {c} = {}"
    using keys_delete[of c "ch_clients ch"] by (metis image_is_empty members_def set_empty)
  then show ?thesis
    using removeClient_refines[of ch c] by (auto simp: removeClient_def room_of_def Let_def members_def)
qed

lemma broadcast_refines:
  assumes "channel_ok i ch"
  shows "set (broadcast ch info) = snd (room_event i (members ch) (Say (mi_address info) (Ingress_GetBlob (mi_msg info))))"
    and "distinct (broadcast ch info)"
proof -
  have "ch_id ch = i" "distinct (map fst (ch_clients ch))"
    using assms by (auto simp: channel_ok_def wf_map_def)
  then show "set (broadcast ch info) = snd (room_event i (members ch) (Say (mi_address info) (Ingress_GetBlob (mi_msg info))))"
    and "distinct (broadcast ch info)"
    by (auto simp: broadcast_def members_def Let_def lookup_None_key distinct_map inj_on_def
        simp del: not_None_eq dest: lookup_Some_key)
qed

lemma ho_rooms [simp]: "ho_rooms (rooms r) i = map_option room_of (map_of (rl_channels r) i)"
  by (simp add: rooms_def)

lemma rooms_put [simp]: "rooms (put_channel r i ch) = (rooms r)\<lparr>ho_rooms := (ho_rooms (rooms r))(i \<mapsto> room_of ch)\<rparr>"
  by (auto simp: rooms_def put_channel_def lookup_update)

lemma put_channel_out [simp]: "rl_out (put_channel r i ch) = rl_out r"
  by (simp add: put_channel_def)

lemma rooms_frame [simp]:
  "rooms (r\<lparr>rl_calls := cs\<rparr>) = (rooms r)\<lparr>ho_calls := map (\<lambda>(i, from, m). (i, request_of from m)) cs\<rparr>"
  "rooms (r\<lparr>rl_out := os\<rparr>) = rooms r"
  "ho_calls (rooms r) = map (\<lambda>(i, from, m). (i, request_of from m)) (rl_calls r)"
  by (auto simp: rooms_def)

lemma dom_rooms: "dom (ho_rooms (rooms r)) = fst ` set (rl_channels r)"
  by (auto simp: rooms_def dom_map_of_conv_image_fst[symmetric] dom_def)

lemma card_rooms: "wf_map (rl_channels r) \<Longrightarrow> card (dom (ho_rooms (rooms r))) = length (rl_channels r)"
  by (simp add: dom_rooms wf_map_card_keys)

lemma room_of_newChannel [simp]: "room_of (newChannel i) = new_room"
  by (simp add: room_of_def new_room_def members_def newChannel_def make_chan_def)

text \<open>Every operation performs the action of its cause.\<close>

lemma relay_Process_refines:
  assumes "relay_inv r" and "rl_calls r = []"
  shows "\<exists>new. rl_out (relay_Process r src msg) = rl_out r @ new \<and> distinct new \<and>
    rooms_step (rooms r) (Message src msg) (set new) (rooms (relay_Process r src msg))"
proof (cases "\<exists>m. msg = Relay_msg m \<and> rm_channel m \<noteq> [] \<and> map_of (rl_channels r) (rm_channel m) = None")
  case True
  then obtain m where m: "msg = Relay_msg m" "rm_channel m \<noteq> []" "map_of (rl_channels r) (rm_channel m) = None"
    by blast
  have cr: "card (dom (ho_rooms (rooms r))) = length (rl_channels r)" using assms by (simp add: card_rooms relay_inv_def)
  show ?thesis
  proof (cases "length (rl_channels r) > MaxChannel")
    case True
    with m cr assms(2) show ?thesis by (simp add: relay_Process_def rooms_step.refuse)
  next
    case False
    have "rooms (relay_Process r src msg) =
        \<lparr>ho_rooms = (ho_rooms (rooms r))(rm_channel m \<mapsto> new_room), ho_calls = [(rm_channel m, request_of src m)]\<rparr>"
      using m False rooms_put[of r "rm_channel m" "newChannel (rm_channel m)"]
      by (simp add: relay_Process_def put_channel_def del: rooms_put)
    then show ?thesis
      using m False cr assms(2) rooms_step.create[of "rooms r" m src] by (simp add: relay_Process_def)
  qed
next
  case False
  then show ?thesis
    using assms(2) rooms_step.ask[of "rooms r" _ src] rooms_step.nameless[of "rooms r" _ src]
    by (auto simp: relay_Process_def intro: rooms_step.other split: net_message.splits option.splits)
qed

lemma request_of_LEAVE [simp]: "request_of a (plain_msg i LEAVE) = Some (Leave a)"
  by (simp add: request_of_def plain_msg_def)

lemma relay_Receive_refines:
  assumes "relay_inv r" and "rl_calls r = []"
  shows "rl_out (relay_Receive r e a) = rl_out r \<and> rooms_step (rooms r) (Conn_lost e a) {} (rooms (relay_Receive r e a))"
proof (cases "e = EventConnDown")
  case True
  have "rooms_step (rooms r) (Conn_lost EventConnDown a) {}
      ((rooms r)\<lparr>ho_calls := map (\<lambda>i. (i, Some (Leave a))) (map fst (rl_channels r))\<rparr>)"
    using assms by (intro rooms_step.down) (auto simp: dom_rooms relay_inv_def wf_map_def)
  with True show ?thesis by (simp add: relay_Receive_def comp_def case_prod_beta)
qed (use assms(2) in \<open>simp add: relay_Receive_def rooms_step.elsewhere\<close>)

text \<open>A call of \<open>newMessage\<close> happens exactly when the queue of its request has room.\<close>

lemma newMessage_refines:
  assumes "channel_ok i ch"
  shows "request_of src m = None \<Longrightarrow> newMessage ch src m = Happens ch"
    and "newMessage ch src m = Happens ch' \<Longrightarrow>
      room_of ch' = (case request_of src m of None \<Rightarrow> room_of ch | Some q \<Rightarrow> room_enqueue q (room_of ch))"
    and "request_of src m = Some q \<Longrightarrow> room_waiting q (room_of ch) < ChannelQueueSize \<Longrightarrow>
      \<exists>ch'. newMessage ch src m = Happens ch'"
    and "request_of src m = Some q \<Longrightarrow> ChannelQueueSize \<le> room_waiting q (room_of ch) \<Longrightarrow> newMessage ch src m = Blocks"
  using assms
  by (auto simp: newMessage_def request_of_def room_of_def channel_ok_def queue_ok_def chan_send_def map_happens_def
      members_def said_def split: RelayMessage_TYPE.splits if_splits)

lemma call_refines:
  assumes "relay_inv r" and "rl_calls r = (i, src, m) # rest" and "map_of (rl_channels r) i = Some ch"
    and "newMessage ch src m = Happens ch'"
  shows "rooms_step (rooms r) Queued {} (rooms ((put_channel r i ch')\<lparr>rl_calls := rest\<rparr>))"
proof -
  have ok: "channel_ok i ch" using assms(1,3) by (auto simp: relay_inv_def intro: all_entries_lookup)
  note room = newMessage_refines(2)[OF ok assms(4)]
  show ?thesis
  proof (cases "request_of src m")
    case None
    have "(ho_rooms (rooms r))(i \<mapsto> room_of ch) = ho_rooms (rooms r)" using assms(3) by (auto simp: fun_eq_iff)
    with None room rooms_step.unknown[of "rooms r" i] assms(2) show ?thesis by simp
  next
    case (Some q)
    have "room_waiting q (room_of ch) < ChannelQueueSize"
      using newMessage_refines(4)[OF ok Some] assms(4) by (metis chan_result.distinct(1) not_le)
    with Some room rooms_step.queue[of "rooms r" i q _ "room_of ch"] assms(2,3) show ?thesis by simp
  qed
qed

text \<open>
  The \<open>select\<close> serves the request at the head of a queue, with the effect and the messages of
  \<open>room_event\<close>.
\<close>

definition serves :: "string \<Rightarrow> channel \<Rightarrow> request \<Rightarrow> channel \<Rightarrow> (Address \<times> RelayMessage) list \<Rightarrow> bool" where
  "serves i ch q ch' sends =
     (room_first q (room_of ch) \<and> room_event i (members ch) q = (members ch', set sends) \<and>
      room_of ch' = room_served q (members ch') (room_of ch) \<and> distinct sends)"

lemma serves_join:
  assumes "channel_ok i ch" and "chan_recv (ch_join ch) = Happens (Some c, q)"
    and "(ch', sends) = addClient (ch\<lparr>ch_join := q\<rparr>) c"
  shows "serves i ch (Join c) ch' sends"
proof -
  let ?ch = "ch\<lparr>ch_join := q\<rparr>"
  have ok: "channel_ok i ?ch" using assms(1,2) by (auto simp: channel_ok_def dest: queue_ok_recv)
  have m: "members ?ch = members ch" by (simp add: members_def)
  have buf: "chan_buf (ch_join ch) = c # chan_buf q" using chan_recv_SomeD(1)[OF assms(2)] .
  have ch': "ch' = fst (addClient ?ch c)" "sends = snd (addClient ?ch c)" using assms(3) by (metis fst_conv snd_conv)+
  have "room_of ch' = room_served (Join c) (members ch') (room_of ch)"
    using addClient_room[of ?ch c] ch' buf by (simp add: room_of_def members_def)
  moreover have "room_event i (members ch) (Join c) = (members ch', set sends)"
    using addClient_refines(1)[OF ok, of c] ch' m by simp
  moreover have "distinct sends" using addClient_refines(2)[OF ok, of c] ch'(2) by (auto simp: length_Suc_conv)
  ultimately show ?thesis using buf by (simp add: serves_def room_of_def)
qed

lemma serves_leave:
  assumes "chan_recv (ch_leave ch) = Happens (Some c, q)"
  shows "serves i ch (Leave c) (removeClient (ch\<lparr>ch_leave := q\<rparr>) c) []"
  using removeClient_room[of "ch\<lparr>ch_leave := q\<rparr>" c] removeClient_refines[of "ch\<lparr>ch_leave := q\<rparr>" c] chan_recv_SomeD(1)[OF assms]
  by (simp add: serves_def room_of_def members_def)

lemma serves_incoming:
  assumes "channel_ok i ch" and "chan_recv (ch_incoming ch) = Happens (Some info, q)"
  shows "serves i ch (Say (mi_address info) (Ingress_GetBlob (mi_msg info)))
    (ch\<lparr>ch_incoming := q\<rparr>) (broadcast (ch\<lparr>ch_incoming := q\<rparr>) info)"
proof -
  have ok: "channel_ok i (ch\<lparr>ch_incoming := q\<rparr>)" using assms by (auto simp: channel_ok_def dest: queue_ok_recv)
  show ?thesis
    using broadcast_refines[OF ok, of info] chan_recv_SomeD(1)[OF assms(2)]
    by (simp add: serves_def room_of_def said_def members_def)
qed

lemma select_serves:
  assumes "channel_ok i ch" and "signal_ok ch" and "(ch', sends) \<in> set (select_cases ch)"
  obtains (halt) "ro_stopped (room_of ch)" "room_of ch' = (room_of ch)\<lparr>ro_phase := Exited\<rparr>" "sends = []"
  | (serve) q where "serves i ch q ch' sends"
  using assms(3)
proof (cases rule: select_casesE)
  case (finished v q)
  with assms(2) show ?thesis
    by (intro halt) (auto simp: room_of_def members_def signal_ok_def chan_recv_def split: if_splits)
qed (use assms(1) in \<open>metis serve serves_join serves_leave serves_incoming\<close>)+

text \<open>And the request at the head of any of its queues is one the \<open>select\<close> can take.\<close>

lemma select_can_serve:
  assumes "channel_ok i ch" and "room_first q (room_of ch)"
  shows "\<exists>ch' sends. (ch', sends) \<in> set (select_cases ch) \<and> serves i ch q ch' sends"
proof (cases q)
  case (Join c)
  then obtain b where "chan_recv (ch_join ch) = Happens (Some c, b)"
    using assms(2) by (cases "chan_buf (ch_join ch)") (auto simp: room_of_def chan_recv_def)
  with serves_join[OF assms(1) this prod.collapse] Join show ?thesis
    by (intro exI[of _ "fst (addClient (ch\<lparr>ch_join := b\<rparr>) c)"] exI[of _ "snd (addClient (ch\<lparr>ch_join := b\<rparr>) c)"])
      (simp add: select_cases_def)
next
  case (Leave c)
  then obtain b where "chan_recv (ch_leave ch) = Happens (Some c, b)"
    using assms(2) by (cases "chan_buf (ch_leave ch)") (auto simp: room_of_def chan_recv_def)
  with serves_leave[OF this, of i] Leave show ?thesis
    by (intro exI[of _ "removeClient (ch\<lparr>ch_leave := b\<rparr>) c"] exI[of _ "[]"]) (simp add: select_cases_def)
next
  case (Say c x)
  then obtain info b where "chan_recv (ch_incoming ch) = Happens (Some info, b)" "said info = (c, x)"
    using assms(2) by (cases "chan_buf (ch_incoming ch)") (auto simp: room_of_def chan_recv_def)
  with serves_incoming[OF assms(1) this(1)] Say show ?thesis
    by (intro exI[of _ "ch\<lparr>ch_incoming := b\<rparr>"] exI[of _ "broadcast (ch\<lparr>ch_incoming := b\<rparr>) info"])
      (simp add: select_cases_def said_def)
qed

lemma serves_refines:
  assumes "map_of (rl_channels r) i = Some ch" and "ch_routine ch = Selecting" and "serves i ch q ch' sends"
  shows "rooms_step (rooms r) (Served i q) (set sends) ((rooms r)\<lparr>ho_rooms := (ho_rooms (rooms r))(i \<mapsto> room_of ch')\<rparr>)"
  using rooms_step.serve[of "rooms r" i "room_of ch" q "members ch'" "set sends"] assms
  by (simp add: serves_def) (simp add: room_of_def)

lemma halt_refines:
  assumes "map_of (rl_channels r) i = Some ch" and "ch_routine ch = Selecting" and "ro_stopped (room_of ch)"
    and "room_of ch' = (room_of ch)\<lparr>ro_phase := Exited\<rparr>"
  shows "rooms_step (rooms r) (Halted i) {} ((rooms r)\<lparr>ho_rooms := (ho_rooms (rooms r))(i \<mapsto> room_of ch')\<rparr>)"
  using rooms_step.halt[of "rooms r" i "room_of ch"] assms by (simp add: assms(4)) (simp add: room_of_def)

lemma stop_all_refines:
  assumes "all_entries (\<lambda>_. signal_ok) m" and "stop_all m = Some m'"
  shows "map_option room_of (map_of m' i) = map_option told_to_stop (map_option room_of (map_of m i))"
  using assms
proof (induction m arbitrary: m' rule: stop_all.induct)
  case 1
  then show ?case by simp
next
  case (2 j ch m)
  then obtain ch' m1 where *: "channel_stop ch = Happens ch'" "stop_all m = Some m1" "m' = (j, ch') # m1"
    by (auto split: chan_result.splits)
  have "room_of ch' = told_to_stop (room_of ch)"
    using *(1) 2(2)
    by (cases "ch_routine ch")
      (auto simp: channel_stop_def chan_close_def room_of_def told_to_stop_def members_def signal_ok_def all_entries_def
        split: if_splits)
  with * 2 show ?case by (simp add: all_entries_def)
qed

lemma relay_Stop_refines:
  assumes "signals_ok r" and "rl_calls r = []" and "relay_Stop r = Some r'"
  shows "rl_out r' = rl_out r \<and> rooms_step (rooms r) All_stopped {} (rooms r')"
proof -
  obtain m where m: "stop_all (rl_channels r) = Some m" "r' = r\<lparr>rl_channels := m\<rparr>"
    using assms(3) by (auto simp: relay_Stop_def)
  have "rooms r' = (rooms r)\<lparr>ho_rooms := \<lambda>i. map_option told_to_stop (ho_rooms (rooms r) i)\<rparr>"
    using stop_all_refines[OF _ m(1)] assms(1) m(2) by (auto simp: rooms_def signals_ok_def)
  then show ?thesis using rooms_step.stop[of "rooms r"] assms(2) m(2) by simp
qed

lemma delete_refines:
  assumes "rl_calls r = []" and "map_of (rl_channels r) i = Some ch" and "ch_routine ch = Deleting"
  shows "rl_out (deleteChannel r i) = rl_out r \<and> rooms_step (rooms r) (Deleted i) {} (rooms (deleteChannel r i))"
proof -
  have "rooms (deleteChannel r i) = (rooms r)\<lparr>ho_rooms := (ho_rooms (rooms r))(i := None)\<rparr>"
    by (auto simp: rooms_def deleteChannel_def lookup_delete)
  then show ?thesis
    using assms rooms_step.delete[of "rooms r" i "room_of ch"] by (simp add: room_of_def) (simp add: deleteChannel_def)
qed

lemma relay_step_refines:
  assumes "relay_step r r'" and "relay_inv r" and "signals_ok r"
  shows "\<exists>l new. rl_out r' = rl_out r @ new \<and> distinct new \<and> rooms_step (rooms r) l (set new) (rooms r')"
  using assms
proof (induction rule: relay_step.induct)
  case (handle r src msg)
  then show ?case using relay_Process_refines by blast
next
  case (conn_down r event_name down)
  then show ?case
    using relay_Receive_refines[of r event_name down] by (intro exI[of _ "Conn_lost event_name down"] exI[of _ "[]"]) simp
next
  case (call r i src m rest ch ch')
  then show ?case
    using call_refines[of r i src m rest ch ch'] by (intro exI[of _ Queued] exI[of _ "[]"]) simp
next
  case (select r i ch ch' sends)
  then have ok: "channel_ok i ch" "signal_ok ch"
    by (auto simp: relay_inv_def signals_ok_def dest: all_entries_lookup)
  show ?case
    using ok select(3)
  proof (cases rule: select_serves)
    case halt
    with halt_refines[OF select(1,2)] show ?thesis by (intro exI[of _ "Halted i"] exI[of _ "[]"]) simp
  next
    case (serve q)
    then have "distinct sends" by (simp add: serves_def)
    with serves_refines[OF select(1,2) serve] show ?thesis by (intro exI[of _ "Served i q"] exI[of _ sends]) simp
  qed
next
  case (delete r i ch)
  then show ?case
    using delete_refines[of r i ch] by (intro exI[of _ "Deleted i"] exI[of _ "[]"]) simp
next
  case (stop r r')
  then show ?case
    using relay_Stop_refines[of r r'] by (intro exI[of _ All_stopped] exI[of _ "[]"]) simp
qed

text \<open>
  The converse: what the rooms can do, the relay can do (a handler that walks over the rooms of a
  lost connection does so in the order of its map).
\<close>

lemma rooms_step_simulated:
  assumes "relay_inv r" and "signals_ok r" and "rooms_step (rooms r) l out H" and "\<nexists>e a. l = Conn_lost e a"
  shows "\<exists>r' new. relay_step r r' \<and> rl_out r' = rl_out r @ new \<and> distinct new \<and> set new = out \<and> rooms r' = H"
proof -
  have by_label: ?thesis
    if "relay_step r r'" "rl_out r' = rl_out r @ new" "rooms_step (rooms r) l (set new) (rooms r')" for r' new
    using that rooms_step_determined[OF that(3) assms(3,4)] relay_step_refines[OF that(1) assms(1,2)] by auto
  have found: "\<exists>ch. map_of (rl_channels r) i = Some ch \<and> room_of ch = R \<and> channel_ok i ch \<and> signal_ok ch"
    if "ho_rooms (rooms r) i = Some R" for i R
    using that assms(1,2) by (auto simp: relay_inv_def signals_ok_def dest: all_entries_lookup)
  show ?thesis
  proof (cases l)
    case (Message a msg)
    then have "rl_calls r = []" using assms(3) by (auto elim: rooms_messageE)
    with by_label relay_Process_refines[OF assms(1)] relay_step.handle Message show ?thesis by metis
  next
    case Queued
    then obtain i src m rest where calls: "rl_calls r = (i, src, m) # rest"
      using assms(3) by (auto elim!: rooms_queuedE)
    then have "i \<in> fst ` set (rl_channels r)" using assms(1) by (auto simp: relay_inv_def list_all_iff)
    then obtain ch where ch: "map_of (rl_channels r) i = Some ch" by (metis map_of_eq_None_iff not_None_eq)
    then have ok: "channel_ok i ch" using assms(1) by (auto simp: relay_inv_def dest: all_entries_lookup)
    obtain ch' where "newMessage ch src m = Happens ch'"
      using assms(3) Queued calls ch newMessage_refines(1,3)[OF ok, of src m]
      by (cases "request_of src m") (auto elim!: rooms_queuedE)
    with call_refines[OF assms(1) calls ch] relay_step.call[OF calls ch] Queued show ?thesis
      by (intro by_label[of "(put_channel r i ch')\<lparr>rl_calls := rest\<rparr>" "[]"]) auto
  next
    case (Served i q)
    then obtain R where R: "ho_rooms (rooms r) i = Some R" "ro_phase R = Selecting" "room_first q R"
      using assms(3) by (auto elim!: rooms_servedE)
    then obtain ch where ch: "map_of (rl_channels r) i = Some ch" "room_of ch = R" "channel_ok i ch" using found by blast
    have sel: "ch_routine ch = Selecting" using ch(2) R(2) by (auto simp: room_of_def)
    obtain ch' sends where "(ch', sends) \<in> set (select_cases ch)" "serves i ch q ch' sends"
      using select_can_serve[OF ch(3)] R(3) ch(2) by blast
    with relay_step.select[OF ch(1) sel] serves_refines[OF ch(1) sel] Served show ?thesis
      by (intro by_label[of _ sends]) auto
  next
    case (Halted i)
    then obtain R where R: "ho_rooms (rooms r) i = Some R" "ro_phase R = Selecting" "ro_stopped R"
      using assms(3) by (auto elim!: rooms_haltedE)
    then obtain ch where ch: "map_of (rl_channels r) i = Some ch" "room_of ch = R" "signal_ok ch" using found by blast
    have sel: "ch_routine ch = Selecting" using ch(2) R(2) by (auto simp: room_of_def)
    have "(ch\<lparr>ch_routine := Exited\<rparr>, []) \<in> set (select_cases ch)"
      using R(3) ch(2,3) by (auto simp: room_of_def select_cases_def signal_ok_def chan_recv_def)
    moreover have "room_of (ch\<lparr>ch_routine := Exited\<rparr>) = (room_of ch)\<lparr>ro_phase := Exited\<rparr>"
      by (simp add: room_of_def members_def)
    ultimately show ?thesis
      using relay_step.select[OF ch(1) sel, of "ch\<lparr>ch_routine := Exited\<rparr>" "[]"] halt_refines[OF ch(1) sel] R(3) ch(2) Halted
      by (intro by_label[of "(put_channel r i (ch\<lparr>ch_routine := Exited\<rparr>))\<lparr>rl_out := rl_out r @ []\<rparr>" "[]"]) auto
  next
    case (Deleted i)
    then obtain R where R: "rl_calls r = []" "ho_rooms (rooms r) i = Some R" "ro_phase R = Deleting"
      using assms(3) by (auto elim!: rooms_deletedE)
    then obtain ch where ch: "map_of (rl_channels r) i = Some ch" "room_of ch = R" using found by blast
    have del: "ch_routine ch = Deleting" using ch(2) R(3) by (auto simp: room_of_def)
    from relay_step.delete[OF R(1) ch(1) del] delete_refines[OF R(1) ch(1) del] Deleted show ?thesis
      by (intro by_label[of "deleteChannel r i" "[]"]) auto
  next
    case All_stopped
    then have calls: "rl_calls r = []" using assms(3) by (auto elim!: rooms_stoppedE)
    have "relay_Stop r \<noteq> None"
      using stop_all_ok[of "rl_channels r"] assms(1) by (auto simp: relay_Stop_def relay_inv_def)
    then obtain r' where "relay_Stop r = Some r'" by blast
    with relay_step.stop[OF calls this] relay_Stop_refines[OF assms(2) calls this] All_stopped show ?thesis
      by (intro by_label[of r' "[]"]) auto
  qed (use assms(4) in blast)
qed

text \<open>
  Runs: the house and the messages sent so far. Every run of the relay is a run of the rooms.
\<close>

definition rooms_run :: "house \<times> (Address \<times> RelayMessage) set \<Rightarrow> house \<times> (Address \<times> RelayMessage) set \<Rightarrow> bool" where
  "rooms_run a a' \<longleftrightarrow> (\<exists>l new. rooms_step (fst a) l new (fst a') \<and> snd a' = snd a \<union> new)"

definition empty_house :: house where
  "empty_house = \<lparr>ho_rooms = \<lambda>_. None, ho_calls = []\<rparr>"

lemma rooms_NewRelay: "rooms NewRelay = empty_house"
  by (simp add: rooms_def NewRelay_def empty_house_def)

interpretation rooms: simulation
  "\<lambda>r. r = NewRelay" relay_step "\<lambda>a. a = (empty_house, {})" rooms_run
  "\<lambda>r a. relay_inv r \<and> signals_ok r \<and> a = (rooms r, set (rl_out r))"
proof unfold_locales
  fix r :: Relay
  assume "r = NewRelay"
  then show "\<exists>a. a = (empty_house, {}) \<and> relay_inv r \<and> signals_ok r \<and> a = (rooms r, set (rl_out r))"
    using relay_reachable_inv[OF relay_reachable.start] relay_reachable_signals[OF relay_reachable.start]
    by (simp add: rooms_NewRelay) (simp add: NewRelay_def)
next
  fix r a r'
  assume r: "relay_inv r \<and> signals_ok r \<and> a = (rooms r, set (rl_out r))" and step: "relay_step r r'"
  then obtain l new where "rl_out r' = rl_out r @ new" "rooms_step (rooms r) l (set new) (rooms r')"
    using relay_step_refines by blast
  then have "rooms_run a (rooms r', set (rl_out r'))" using r by (auto simp: rooms_run_def)
  moreover have "relay_inv r'" "signals_ok r'" using r step relay_step_inv relay_step_signals by blast+
  ultimately show "\<exists>a'. rooms_run\<^sup>*\<^sup>* a a' \<and> relay_inv r' \<and> signals_ok r' \<and> a' = (rooms r', set (rl_out r'))" by blast
qed

lemma relay_run_is_rooms_run:
  "relay_step\<^sup>*\<^sup>* NewRelay r \<Longrightarrow> rooms_run\<^sup>*\<^sup>* (empty_house, {}) (rooms r, set (rl_out r))"
  using rooms.simulates[of NewRelay r] by blast

text \<open>A house the rooms reach from a reachable relay is one the relay reaches.\<close>

lemma reachable_house_step:
  assumes "\<exists>r. relay_reachable r \<and> rooms r = H" and "rooms_step H l out H'" and "\<nexists>e a. l = Conn_lost e a"
  shows "\<exists>r. relay_reachable r \<and> rooms r = H'"
  using assms rooms_step_simulated relay_reachable_inv relay_reachable_signals relay_reachable.step by metis

section \<open>Runs that fill the relay\<close>

text \<open>The state in which one handler after another has created the channels x, xx, xxx, ...\<close>

definition nth_name :: "nat \<Rightarrow> string" where
  "nth_name k = replicate (Suc k) CHR ''x''"

definition with_channels :: "nat \<Rightarrow> Relay" where
  "with_channels n =
     NewRelay\<lparr>rl_channels := map (\<lambda>k. (nth_name k, (newChannel (nth_name k))\<lparr>ch_join := (make_chan ChannelQueueSize)\<lparr>chan_buf := [[]]\<rparr>\<rparr>)) [0..<n]\<rparr>"

lemma nth_name_neq [simp]: "nth_name k = nth_name j \<longleftrightarrow> k = j" "nth_name k \<noteq> []"
  by (auto simp: nth_name_def)

lemma update_snoc_same: "map_of m k = None \<Longrightarrow> AList.update k v (m @ [(k, w)]) = m @ [(k, v)]"
  by (induction m) (auto split: if_splits)

lemma with_channels_fresh: "map_of (rl_channels (with_channels n)) (nth_name n) = None"
  by (auto simp: with_channels_def lookup_None_key)

lemma with_channels_reachable: "n \<le> Suc MaxChannel \<Longrightarrow> relay_reachable (with_channels n)"
proof (induction n)
  case 0
  then show ?case using start by (simp add: with_channels_def NewRelay_def)
next
  case (Suc n)
  let ?r = "with_channels n" and ?i = "nth_name n" and ?m = "plain_msg (nth_name n) JOIN"
  let ?p = "relay_Process ?r [] (Relay_msg ?m)"
  have p: "?p = ?r\<lparr>rl_channels := rl_channels ?r @ [(?i, newChannel ?i)], rl_calls := [(?i, [], ?m)]\<rparr>"
    using Suc.prems with_channels_fresh[of n]
    by (simp add: relay_Process_def plain_msg_def update_new_append) (simp add: with_channels_def)
  have "relay_reachable ?p"
    using Suc by (intro relay_reachable.step[OF Suc.IH] relay_step.handle) (auto simp: with_channels_def NewRelay_def)
  moreover have "newMessage (newChannel ?i) [] ?m =
      Happens ((newChannel ?i)\<lparr>ch_join := (make_chan ChannelQueueSize)\<lparr>chan_buf := [[]]\<rparr>\<rparr>)"
    by (simp add: newMessage_def plain_msg_def newChannel_def chan_send_def make_chan_def map_happens_def ChannelQueueSize_def)
  then have "relay_step ?p ((put_channel ?p ?i ((newChannel ?i)\<lparr>ch_join := (make_chan ChannelQueueSize)\<lparr>chan_buf := [[]]\<rparr>\<rparr>))\<lparr>rl_calls := []\<rparr>)"
    using with_channels_fresh[of n] by (intro relay_step.call) (auto simp: p map_add_def)
  moreover have "(put_channel ?p ?i ((newChannel ?i)\<lparr>ch_join := (make_chan ChannelQueueSize)\<lparr>chan_buf := [[]]\<rparr>\<rparr>))\<lparr>rl_calls := []\<rparr> = with_channels (Suc n)"
    using with_channels_fresh[of n]
    by (simp add: p put_channel_def update_snoc_same) (simp add: with_channels_def NewRelay_def)
  ultimately show ?case by (metis relay_reachable.step)
qed

text \<open>One channel whose queue of joins holds \<open>k\<close> requests while a leave is pending.\<close>

definition crowded :: "nat \<Rightarrow> channel" where
  "crowded k = (newChannel ''x'')
     \<lparr>ch_leave := (make_chan ChannelQueueSize)\<lparr>chan_buf := [''a'']\<rparr>,
      ch_join := (make_chan ChannelQueueSize)\<lparr>chan_buf := replicate k ''b''\<rparr>\<rparr>"

definition crowded_relay :: "nat \<Rightarrow> Relay" where
  "crowded_relay k = NewRelay\<lparr>rl_channels := [(''x'', crowded k)]\<rparr>"

definition join_x :: RelayMessage where "join_x = plain_msg ''x'' JOIN"

lemmas crowded_defs = crowded_relay_def crowded_def newChannel_def make_chan_def NewRelay_def

lemma handle_join_x:
  "relay_Process (crowded_relay k) ''b'' (Relay_msg join_x) = (crowded_relay k)\<lparr>rl_calls := [(''x'', ''b'', join_x)]\<rparr>"
  by (simp add: relay_Process_def join_x_def plain_msg_def crowded_relay_def)

lemma crowded_reachable: "k \<le> ChannelQueueSize \<Longrightarrow> relay_reachable (crowded_relay k)"
proof (induction k)
  case 0
  let ?m = "plain_msg ''x'' LEAVE"
  let ?p = "relay_Process NewRelay ''a'' (Relay_msg ?m)"
  have p: "?p = \<lparr>rl_channels = [(''x'', newChannel ''x'')], rl_calls = [(''x'', ''a'', ?m)], rl_out = []\<rparr>"
    by (simp add: relay_Process_def plain_msg_def NewRelay_def)
  have "relay_reachable ?p"
    by (intro relay_reachable.step[OF relay_reachable.start] relay_step.handle) (simp add: NewRelay_def)
  moreover have "newMessage (newChannel ''x'') ''a'' ?m = Happens (crowded 0)"
    by (simp add: newMessage_def plain_msg_def crowded_defs chan_send_def map_happens_def ChannelQueueSize_def)
  then have "relay_step ?p ((put_channel ?p ''x'' (crowded 0))\<lparr>rl_calls := []\<rparr>)"
    by (intro relay_step.call) (auto simp: p)
  ultimately have "relay_reachable ((put_channel ?p ''x'' (crowded 0))\<lparr>rl_calls := []\<rparr>)"
    by (rule relay_reachable.step)
  then show ?case unfolding p by (simp add: put_channel_def crowded_relay_def NewRelay_def)
next
  case (Suc k)
  let ?p = "(crowded_relay k)\<lparr>rl_calls := [(''x'', ''b'', join_x)]\<rparr>"
  have "relay_reachable ?p"
    using Suc handle_join_x[of k] relay_step.handle[of "crowded_relay k" "''b''" "Relay_msg join_x"]
    by (auto intro: relay_reachable.step simp: crowded_relay_def NewRelay_def)
  moreover have "newMessage (crowded k) ''b'' join_x = Happens (crowded (Suc k))"
    using Suc.prems
    by (simp add: newMessage_def join_x_def plain_msg_def crowded_defs chan_send_def map_happens_def
        ChannelQueueSize_def replicate_append_same)
  then have "relay_step ?p ((put_channel ?p ''x'' (crowded (Suc k)))\<lparr>rl_calls := []\<rparr>)"
    by (intro relay_step.call) (auto simp: crowded_relay_def)
  ultimately have "relay_reachable ((put_channel ?p ''x'' (crowded (Suc k)))\<lparr>rl_calls := []\<rparr>)"
    by (rule relay_reachable.step)
  then show ?case by (simp add: put_channel_def crowded_relay_def NewRelay_def)
qed

lemma crowded_blocks: "newMessage (crowded ChannelQueueSize) ''b'' join_x = Blocks"
  by (simp add: newMessage_def join_x_def plain_msg_def crowded_defs chan_send_def map_happens_def)

definition stuck_relay :: Relay where
  "stuck_relay = \<lparr>rl_channels =
       [(''x'', (crowded ChannelQueueSize)\<lparr>ch_leave := make_chan ChannelQueueSize, ch_done := True, ch_routine := Deleting\<rparr>)],
     rl_calls = [(''x'', ''b'', join_x)], rl_out = []\<rparr>"

lemma stuck_reachable: "relay_reachable stuck_relay"
proof -
  let ?r = "crowded_relay ChannelQueueSize"
  let ?p = "?r\<lparr>rl_calls := [(''x'', ''b'', join_x)]\<rparr>"
  let ?ch = "(crowded ChannelQueueSize)\<lparr>ch_leave := make_chan ChannelQueueSize, ch_done := True, ch_routine := Deleting\<rparr>"
  have "relay_reachable ?p"
    using handle_join_x[of ChannelQueueSize] crowded_reachable[of ChannelQueueSize]
      relay_step.handle[of ?r "''b''" "Relay_msg join_x"]
    by (auto intro: relay_reachable.step simp: crowded_relay_def NewRelay_def)
  moreover have "(?ch, []) \<in> set (select_cases (crowded ChannelQueueSize))"
    by (auto simp: select_cases_def crowded_defs chan_recv_def removeClient_def)
  then have "relay_step ?p ((put_channel ?p ''x'' ?ch)\<lparr>rl_out := rl_out ?p @ []\<rparr>)"
    by (intro relay_step.select) (auto simp: crowded_defs)
  moreover have "(put_channel ?p ''x'' ?ch)\<lparr>rl_out := rl_out ?p @ []\<rparr> = stuck_relay"
    by (simp add: put_channel_def crowded_relay_def stuck_relay_def NewRelay_def)
  ultimately show ?thesis by (metis relay_reachable.step)
qed

lemma stuck_no_step: "\<not> relay_step stuck_relay r'"
proof
  assume "relay_step stuck_relay r'"
  then show False
  proof cases
    case (call i src m rest ch ch')
    then have "newMessage (crowded ChannelQueueSize) ''b'' join_x \<noteq> Blocks"
      by (auto simp: stuck_relay_def newMessage_def join_x_def plain_msg_def)
    then show False by (simp add: crowded_blocks)
  qed (auto simp: stuck_relay_def split: if_splits)
qed

section \<open>Properties of the relay\<close>

text \<open>
  C1. Refinement: the relay and its rooms do the same things. In every reachable state each step,
  in any interleaving of the handlers and of the goroutines of the channels, is an action of the
  rooms that sends the same messages; a handler performs the action of the message or of the lost
  connection it was called with; and every action open to the rooms is one the relay can take,
  with the same messages. An action that serves a request removes it from the head of its queue,
  so a join is answered exactly once and refused only when the room is full, what a member says
  goes exactly once to every other member and to nobody else, what a stranger says to nobody, and
  nothing that waits in a queue disappears otherwise. Only a room that its last member left is
  removed, with what still waits in it.
\<close>

theorem relay_refines_rooms:
  assumes "relay_reachable r"
  shows "(\<forall>r'. relay_step r r' \<longrightarrow>
        (\<exists>l new. rl_out r' = rl_out r @ new \<and> distinct new \<and> rooms_step (rooms r) l (set new) (rooms r'))) \<and>
    (rl_calls r = [] \<longrightarrow>
      (\<forall>src msg. \<exists>new. rl_out (relay_Process r src msg) = rl_out r @ new \<and>
        rooms_step (rooms r) (Message src msg) (set new) (rooms (relay_Process r src msg))) \<and>
      (\<forall>e a. rl_out (relay_Receive r e a) = rl_out r \<and>
        rooms_step (rooms r) (Conn_lost e a) {} (rooms (relay_Receive r e a)))) \<and>
    (\<forall>l out H. rooms_step (rooms r) l out H \<and> (\<nexists>e a. l = Conn_lost e a) \<longrightarrow>
      (\<exists>r' new. relay_step r r' \<and> rl_out r' = rl_out r @ new \<and> distinct new \<and> set new = out \<and> rooms r' = H))"
  using relay_reachable_inv[OF assms] relay_reachable_signals[OF assms]
    relay_step_refines relay_Process_refines relay_Receive_refines rooms_step_simulated
  by blast

text \<open>The clients a and c join the channel x and a says hi: the relay can forward it, to c only.\<close>

definition house_x :: "room \<Rightarrow> (string \<times> request option) list \<Rightarrow> house" where
  "house_x R calls = \<lparr>ho_rooms = [''x'' \<mapsto> R], ho_calls = calls\<rparr>"

lemma house_x_asked:
  assumes "\<exists>r. relay_reachable r \<and> rooms r = house_x R []" and "rm_channel m = ''x''" and "request_of a m = Some q"
    and "room_waiting q R = 0"
  shows "\<exists>r. relay_reachable r \<and> rooms r = house_x (room_enqueue q R) []"
proof -
  have "rooms_step (house_x R []) (Message a (Relay_msg m)) {} (house_x R [(''x'', Some q)])"
    using rooms_step.ask[of "house_x R []" m a] assms(2,3) by (simp add: house_x_def)
  moreover have "rooms_step (house_x R [(''x'', Some q)]) Queued {} (house_x (room_enqueue q R) [])"
    using rooms_step.queue[of "house_x R [(''x'', Some q)]" "''x''" q "[]" R] assms(4)
    by (simp add: house_x_def ChannelQueueSize_def)
  ultimately show ?thesis using reachable_house_step[OF reachable_house_step[OF assms(1)]] by blast
qed

lemma house_x_served:
  assumes "\<exists>r. relay_reachable r \<and> rooms r = house_x R []" and "ro_phase R = Selecting" and "room_first q R"
    and "room_event ''x'' (ro_members R) q = (M, out)"
  shows "\<exists>r. relay_reachable r \<and> rooms r = house_x (room_served q M R) []"
proof -
  have "rooms_step (house_x R []) (Served ''x'' q) out (house_x (room_served q M R) [])"
    using rooms_step.serve[of "house_x R []" "''x''" R q M out] assms(2-4) by (simp add: house_x_def)
  then show ?thesis using reachable_house_step[OF assms(1)] by blast
qed

definition hi_in_x :: room where
  "hi_in_x = new_room\<lparr>ro_members := {''a'', ''c''}, ro_says := [(''a'', [104, 105])]\<rparr>"

lemma hi_reachable: "\<exists>r. relay_reachable r \<and> rooms r = house_x hi_in_x []"
proof -
  let ?join = "plain_msg ''x'' JOIN" and ?one = "new_room\<lparr>ro_members := {''a''}\<rparr>"
  have req: "request_of c ?join = Some (Join c)" "rm_channel ?join = ''x''" for c
    by (simp_all add: request_of_def plain_msg_def)
  have "rooms_step empty_house (Message ''a'' (Relay_msg ?join)) {} (house_x new_room [(''x'', Some (Join ''a''))])"
    using rooms_step.create[of empty_house ?join "''a''"] req by (simp add: house_x_def empty_house_def)
  moreover have "rooms_step (house_x new_room [(''x'', Some (Join ''a''))]) Queued {} (house_x (room_enqueue (Join ''a'') new_room) [])"
    using rooms_step.queue[of "house_x new_room [(''x'', Some (Join ''a''))]" "''x''" "Join ''a''" "[]" new_room]
    by (simp add: house_x_def ChannelQueueSize_def new_room_def)
  ultimately have "\<exists>r. relay_reachable r \<and> rooms r = house_x (room_enqueue (Join ''a'') new_room) []"
    using reachable_house_step[OF reachable_house_step] relay_reachable.start rooms_NewRelay by blast
  from house_x_served[OF this, of "Join ''a''" "{''a''}"] have "\<exists>r. relay_reachable r \<and> rooms r = house_x ?one []"
    by (simp add: new_room_def ChannelSize_def)
  from house_x_asked[OF this req(2,1)] have "\<exists>r. relay_reachable r \<and> rooms r = house_x (room_enqueue (Join ''c'') ?one) []"
    by (simp add: new_room_def)
  from house_x_served[OF this, of "Join ''c''" "{''a'', ''c''}"]
  have "\<exists>r. relay_reachable r \<and> rooms r = house_x (new_room\<lparr>ro_members := {''a'', ''c''}\<rparr>) []"
    by (simp add: new_room_def ChannelSize_def insert_commute)
  from house_x_asked[OF this, of "ingress_msg ''x'' [104, 105]" "''a''" "Say ''a'' [104, 105]"] show ?thesis
    by (simp add: new_room_def hi_in_x_def request_of_def msg_defs Ingress_GetBlob_def)
qed

theorem relay_refines_rooms_witness:
  "\<exists>r r'. relay_reachable r \<and> relay_step r r' \<and> rl_out r' = rl_out r @ [(''c'', egress_msg ''x'' [104, 105])]"
proof -
  obtain r where r: "relay_reachable r" "rooms r = house_x hi_in_x []" using hi_reachable by blast
  let ?q = "Say ''a'' [104, 105]" and ?out = "{(''c'', egress_msg ''x'' [104, 105])}"
  have "rooms_step (rooms r) (Served ''x'' ?q) ?out (house_x (room_served ?q {''a'', ''c''} hi_in_x) [])"
    using rooms_step.serve[of "house_x hi_in_x []" "''x''" hi_in_x ?q "{''a'', ''c''}" ?out] r(2)
    by (simp add: house_x_def hi_in_x_def new_room_def insert_Diff_if)
  then obtain r' new where r': "relay_step r r'" "rl_out r' = rl_out r @ new" "distinct new" "set new = ?out"
    using conjunct2[OF conjunct2[OF relay_refines_rooms[OF r(1)]]] by blast
  then have "new = [(''c'', egress_msg ''x'' [104, 105])]" by (cases new; cases "tl new") auto
  with r r' show ?thesis by blast
qed

text \<open>
  C15. Bounds of every reachable relay: the identifiers of its channels are distinct and not
  empty, there are at most \<open>MaxChannel + 1\<close> of them, a channel has at most \<open>ChannelSize\<close>
  clients, all different, and no queue holds more than \<open>ChannelQueueSize\<close> entries.
\<close>

theorem relay_bounds:
  assumes "relay_reachable r"
  shows "distinct (map fst (rl_channels r)) \<and> length (rl_channels r) \<le> MaxChannel + 1 \<and>
    (\<forall>(i, ch) \<in> set (rl_channels r). ch_id ch = i \<and> i \<noteq> [] \<and> distinct (map fst (ch_clients ch)) \<and>
       length (ch_clients ch) \<le> ChannelSize \<and> length (chan_buf (ch_join ch)) \<le> ChannelQueueSize \<and>
       length (chan_buf (ch_leave ch)) \<le> ChannelQueueSize \<and> length (chan_buf (ch_incoming ch)) \<le> ChannelQueueSize)"
  using relay_reachable_inv[OF assms]
  by (auto simp: relay_inv_def channel_ok_def all_entries_def list_all_iff wf_map_def queue_ok_def wf_chan_def)

theorem relay_bounds_witness: "length (rl_channels (with_channels 3)) = 3 \<and> length (rl_channels (with_channels 3)) \<le> MaxChannel + 1"
  using relay_bounds[OF with_channels_reachable[of 3]] by (simp add: with_channels_def MaxChannel_def)

text \<open>
  The limit on channels is off by one: \<open>Process\<close> compares with \<open>>\<close>, so a relay reaches
  a state with \<open>MaxChannel + 1\<close> channels, although \<open>MaxChannel\<close> is documented as the maximum.
\<close>

theorem channel_limit_off_by_one: "\<exists>r. relay_reachable r \<and> length (rl_channels r) = MaxChannel + 1"
  using with_channels_reachable[of "Suc MaxChannel"]
  by (intro exI[of _ "with_channels (Suc MaxChannel)"]) (simp add: with_channels_def)

text \<open>
  C40. No operation of the relay panics in a reachable state: a handler never sends on a closed
  queue, and \<open>Stop\<close> never closes a stop signal twice, however often it is called.
\<close>

theorem relay_never_panics:
  assumes "relay_reachable r"
  shows "relay_Stop r \<noteq> None \<and>
    (\<forall>(i, ch) \<in> set (rl_channels r). \<forall>src m. newMessage ch src m \<noteq> Panics)"
proof -
  have ok: "all_entries channel_ok (rl_channels r)"
    using relay_reachable_inv[OF assms] by (simp add: relay_inv_def)
  from stop_all_ok[OF this] have "relay_Stop r \<noteq> None" by (auto simp: relay_Stop_def)
  with ok show ?thesis by (auto simp: all_entries_def list_all_iff dest: newMessage_no_panic)
qed

theorem relay_never_panics_witness: "relay_Stop (with_channels 2) \<noteq> None"
  using relay_never_panics[OF with_channels_reachable[of 2]] by (simp add: MaxChannel_def)

text \<open>
  C16. The relay can deadlock. A handler sends to a full queue while it holds
  \<open>channelsMut\<close>; when the goroutine that should drain the queue takes the leave of the last
  client, it waits for the same mutex to delete its channel. From the state reached here no step
  is possible: the handler, the goroutine and every later handler wait for ever.
\<close>

theorem relay_deadlock_reachable:
  "\<exists>r. relay_reachable r \<and> rl_calls r \<noteq> [] \<and> (\<nexists>r'. relay_step r r')"
  using stuck_reachable stuck_no_step by (intro exI[of _ stuck_relay]) (simp add: stuck_relay_def)

end
