(* ===== verification/Relay_Client.thy ===== *)
theory Relay_Client
  imports Go_Chan Relay_Server
begin

text \<open>
  relay/channel.go: the client side of the relay. A \<open>Multiplexer\<close> shares one connection to the
  relay between the channels a client has joined. A goroutine (\<open>routine\<close>) reads the connection and
  hands each message to the queue of its channel. A \<open>clientChannel\<close> is a pointer that outlives its
  entry in the map of the multiplexer, so the model keeps the objects in a list \<open>mx_objs\<close>, the
  pointer is the index, and the map \<open>mx_channels\<close> holds pointers. What is given to the
  connection is collected in \<open>mx_sent\<close>; the result of each \<open>conn.Send\<close> is an argument.
\<close>

section \<open>State\<close>

definition queueSize :: nat where "queueSize = 20"

datatype channel_error =
    ErrChannelClosed
  | ErrSend string
  | ErrNotEgress RelayMessage_TYPE
  | ErrJoinUnexpected
  | ErrJoinRefused string
  | ErrJoinTimeout

record clientChannel =
  cc_id :: string
  cc_egress :: "RelayMessage gchan"
  cc_stop :: "bool gchan"
  cc_done :: bool

record Multiplexer =
  mx_objs :: "clientChannel list"
  mx_channels :: "(string, nat) gomap"
  mx_sent :: "RelayMessage list"
  mx_closed :: bool

definition NewMultiplexer :: Multiplexer where
  "NewMultiplexer = \<lparr>mx_objs = [], mx_channels = [], mx_sent = [], mx_closed = False\<rparr>"

definition newClientChannel :: "string \<Rightarrow> clientChannel" where
  "newClientChannel i =
     \<lparr>cc_id = i, cc_egress = make_chan queueSize, cc_stop = make_chan 1, cc_done = False\<rparr>"

section \<open>Operations of the multiplexer\<close>

text \<open>\<open>send\<close>: the message is on its way when the connection accepts it.\<close>

definition mux_send :: "Multiplexer \<Rightarrow> RelayMessage \<Rightarrow> string option \<Rightarrow> Multiplexer \<times> channel_error option" where
  "mux_send m rm conn_err =
     (case conn_err of
        None \<Rightarrow> (m\<lparr>mx_sent := mx_sent m @ [rm]\<rparr>, None)
      | Some e \<Rightarrow> (m, Some (ErrSend e)))"

text \<open>
  The first, locked half of \<open>Channel\<close>: the slice \<open>[:10]\<close> of the hexadecimal identifier
  panics when it has fewer than ten digits; a known channel is returned, a new one is stored.
\<close>

datatype open_result = Open_panic | Open_known nat | Open_new nat Multiplexer

definition mux_open :: "Multiplexer \<Rightarrow> string \<Rightarrow> open_result" where
  "mux_open m i =
     (if length (hex_encode (string_bytes i)) < 10 then Open_panic
      else (case map_of (mx_channels m) i of
              Some p \<Rightarrow> Open_known p
            | None \<Rightarrow>
                Open_new (length (mx_objs m))
                  (m\<lparr>mx_objs := mx_objs m @ [newClientChannel i],
                     mx_channels := AList.update i (length (mx_objs m)) (mx_channels m)\<rparr>)))"

text \<open>
  \<open>join\<close> after its request is sent: the first message of the queue, or \<open>None\<close> when
  \<open>JoinTimeout\<close> passes first.
\<close>

definition join_answer :: "RelayMessage option \<Rightarrow> channel_error option" where
  "join_answer answer =
     (case answer of
        None \<Rightarrow> Some ErrJoinTimeout
      | Some mt \<Rightarrow>
          if rm_type mt \<noteq> JOIN_RESPONSE then Some ErrJoinUnexpected
          else if GetStatus (rm_joinResponse mt) = FAILURE
          then Some (ErrJoinRefused (GetReason (rm_joinResponse mt)))
          else None)"

definition put_obj :: "Multiplexer \<Rightarrow> nat \<Rightarrow> clientChannel \<Rightarrow> Multiplexer" where
  "put_obj m p c = m\<lparr>mx_objs := (mx_objs m)[p := c]\<rparr>"

text \<open>
  The receive in \<open>join\<close>: takes the head of the queue; the timeout fires when there is none. (When an answer
  arrives at the very moment of the timeout, Go may still pick the timeout; the model then takes the answer.)
\<close>

definition join_wait :: "Multiplexer \<Rightarrow> nat \<Rightarrow> Multiplexer \<times> channel_error option" where
  "join_wait m p =
     (case chan_recv (cc_egress (mx_objs m ! p)) of
        Happens (Some mt, q) \<Rightarrow> (put_obj m p ((mx_objs m ! p)\<lparr>cc_egress := q\<rparr>), join_answer (Some mt))
      | _ \<Rightarrow> (m, join_answer None))"

text \<open>
  The second half of \<open>Channel\<close>: a channel whose join failed is deleted from the map, by name.
\<close>

definition mux_finish :: "Multiplexer \<Rightarrow> string \<Rightarrow> nat \<Rightarrow> channel_error option \<Rightarrow> Multiplexer \<times> (channel_error + nat)" where
  "mux_finish m i p err =
     (case err of
        Some e \<Rightarrow> (m\<lparr>mx_channels := AList.delete i (mx_channels m)\<rparr>, Inl e)
      | None \<Rightarrow> (m, Inr p))"

text \<open>One round of \<open>routine\<close> for what \<open>conn.Receive\<close> returned.\<close>

datatype mux_round = Go_on Multiplexer | Returned | Waits

definition mux_routine :: "Multiplexer \<Rightarrow> string + net_message \<Rightarrow> mux_round" where
  "mux_routine m received =
     (case received of
        Inl err \<Rightarrow> Returned
      | Inr Other_msg \<Rightarrow> Go_on m
      | Inr (Relay_msg rm) \<Rightarrow>
          (case map_of (mx_channels m) (rm_channel rm) of
             None \<Rightarrow> Go_on m
           | Some p \<Rightarrow>
               (case chan_send (cc_egress (mx_objs m ! p)) rm of
                  Happens q \<Rightarrow> Go_on (put_obj m p ((mx_objs m ! p)\<lparr>cc_egress := q\<rparr>))
                | _ \<Rightarrow> Waits)))"

definition channelDone :: "Multiplexer \<Rightarrow> string \<Rightarrow> Multiplexer" where
  "channelDone m i =
     (let chans = AList.delete i (mx_channels m)
      in m\<lparr>mx_channels := chans, mx_closed := (mx_closed m \<or> length chans = 0)\<rparr>)"

section \<open>Operations of a client channel\<close>

text \<open>\<open>Receive\<close>: Go picks any case of the \<open>select\<close> that is ready.\<close>

definition cc_Receive :: "clientChannel \<Rightarrow> (clientChannel \<times> (channel_error + string \<times> bytes)) list" where
  "cc_Receive c =
     (case chan_recv (cc_egress c) of
        Happens (Some rm, q) \<Rightarrow>
          [(c\<lparr>cc_egress := q\<rparr>,
            if rm_type rm \<noteq> EGRESS then Inl (ErrNotEgress (rm_type rm))
            else Inr (Egress_GetAddress (rm_egress rm), Egress_GetBlob (rm_egress rm)))]
      | _ \<Rightarrow> []) @
     (case chan_recv (cc_stop c) of
        Happens (_, q) \<Rightarrow> [(c\<lparr>cc_stop := q\<rparr>, Inl ErrChannelClosed)]
      | _ \<Rightarrow> [])"

text \<open>\<open>Close\<close>: the second call does nothing; the errors of the LEAVE are only logged.\<close>

definition cc_Close :: "Multiplexer \<Rightarrow> nat \<Rightarrow> string option \<Rightarrow> Multiplexer chan_result" where
  "cc_Close m p conn_err =
     (let c = mx_objs m ! p
      in if cc_done c then Happens m
         else (case chan_close (cc_stop c) of
                 Happens q \<Rightarrow>
                   Happens (channelDone
                     (put_obj (fst (mux_send m (plain_msg (cc_id c) LEAVE) conn_err)) p
                       (c\<lparr>cc_done := True, cc_stop := q\<rparr>)) (cc_id c))
               | Blocks \<Rightarrow> Blocks
               | Panics \<Rightarrow> Panics))"

definition cc_Send :: "Multiplexer \<Rightarrow> nat \<Rightarrow> bytes \<Rightarrow> string option \<Rightarrow> Multiplexer \<times> channel_error option" where
  "cc_Send m p blob conn_err = mux_send m (ingress_msg (cc_id (mx_objs m ! p)) blob) conn_err"

definition cc_Id :: "clientChannel \<Rightarrow> string" where
  "cc_Id c = cc_id c"

section \<open>Steps\<close>

text \<open>
  The client's calls and the rounds of the goroutine in any order. A pointer the client uses is one
  it got from \<open>Channel\<close>, so it points to an object.
\<close>

inductive mux_step :: "Multiplexer \<Rightarrow> Multiplexer \<Rightarrow> bool" where
  open_new: "mux_open m i = Open_new p m1 \<Longrightarrow> mux_send m1 (plain_msg i JOIN) ce = (m2, err) \<Longrightarrow>
    mux_step m (if err = None then m2 else fst (mux_finish m2 i p err))"
| join_end: "p < length (mx_objs m) \<Longrightarrow> join_wait m p = (m1, err) \<Longrightarrow>
    mux_step m (fst (mux_finish m1 (cc_id (mx_objs m ! p)) p err))"
| round: "mux_routine m received = Go_on m' \<Longrightarrow> mux_step m m'"
| receive: "p < length (mx_objs m) \<Longrightarrow> (c', res) \<in> set (cc_Receive (mx_objs m ! p)) \<Longrightarrow>
    mux_step m (put_obj m p c')"
| send: "p < length (mx_objs m) \<Longrightarrow> mux_step m (fst (cc_Send m p blob ce))"
| close: "p < length (mx_objs m) \<Longrightarrow> cc_Close m p ce = Happens m' \<Longrightarrow> mux_step m m'"

inductive mux_reachable :: "Multiplexer \<Rightarrow> bool" where
  start: "mux_reachable NewMultiplexer"
| step: "mux_reachable m \<Longrightarrow> mux_step m m' \<Longrightarrow> mux_reachable m'"

section \<open>The invariant\<close>

definition cc_ok :: "clientChannel \<Rightarrow> bool" where
  "cc_ok c = (wf_chan (cc_egress c) \<and> chan_cap (cc_egress c) = queueSize \<and> \<not> chan_closed (cc_egress c) \<and>
     chan_closed (cc_stop c) = cc_done c)"

definition entry_ok :: "clientChannel list \<Rightarrow> string \<Rightarrow> nat \<Rightarrow> bool" where
  "entry_ok objs i p = (5 \<le> length i \<and> p < length objs \<and> cc_id (objs ! p) = i \<and> \<not> cc_done (objs ! p))"

definition mux_inv :: "Multiplexer \<Rightarrow> bool" where
  [inv_defs]: "mux_inv m = (wf_map (mx_channels m) \<and> list_all cc_ok (mx_objs m) \<and>
     all_entries (entry_ok (mx_objs m)) (mx_channels m))"

lemma newClientChannel_ok [simp]: "cc_ok (newClientChannel i)"
  by (simp add: cc_ok_def newClientChannel_def) (simp add: make_chan_def)

lemma entry_ok_append: "entry_ok objs i p \<Longrightarrow> entry_ok (objs @ xs) i p"
  by (simp add: entry_ok_def nth_append)

lemma entry_ok_put:
  "entry_ok objs i p \<Longrightarrow> cc_id c = cc_id (objs ! q) \<Longrightarrow> cc_done c = cc_done (objs ! q) \<Longrightarrow> entry_ok (objs[q := c]) i p"
  by (cases "p = q") (auto simp: entry_ok_def)

lemma entry_ok_other: "entry_ok objs i p \<Longrightarrow> i \<noteq> cc_id (objs ! q) \<Longrightarrow> entry_ok (objs[q := c]) i p"
  by (cases "p = q") (auto simp: entry_ok_def)

lemma all_entries_mono: "all_entries P m \<Longrightarrow> (\<And>k v. P k v \<Longrightarrow> Q k v) \<Longrightarrow> all_entries Q m"
  by (auto simp: all_entries_def list_all_iff)

lemma put_obj_inv:
  assumes "mux_inv m" and "p < length (mx_objs m)" and "cc_ok c"
    and "cc_id c = cc_id (mx_objs m ! p)" and "cc_done c = cc_done (mx_objs m ! p)"
  shows "mux_inv (put_obj m p c)"
  using assms
  by (auto simp: mux_inv_def put_obj_def list_all_iff dest!: set_update_subset_insert[THEN subsetD]
      intro: all_entries_mono entry_ok_put)

lemma cc_ok_nth: "mux_inv m \<Longrightarrow> p < length (mx_objs m) \<Longrightarrow> cc_ok (mx_objs m ! p)"
  by (simp add: mux_inv_def list_all_length)

lemma cc_ok_recv: "cc_ok c \<Longrightarrow> chan_recv (cc_egress c) = Happens (Some v, q) \<Longrightarrow> cc_ok (c\<lparr>cc_egress := q\<rparr>)"
  by (auto simp: cc_ok_def intro: wf_chan_recv dest: chan_recv_SomeD)

lemma cc_ok_send: "cc_ok c \<Longrightarrow> chan_send (cc_egress c) v = Happens q \<Longrightarrow> cc_ok (c\<lparr>cc_egress := q\<rparr>)"
  by (auto simp: cc_ok_def intro: wf_chan_send dest: chan_send_HappensD)

lemma mux_send_inv: "mux_inv m \<Longrightarrow> mux_send m rm ce = (m', e) \<Longrightarrow> mux_inv m'"
  by (auto simp: mux_send_def mux_inv_def split: option.splits)

lemma mux_finish_inv: "mux_inv m \<Longrightarrow> mux_inv (fst (mux_finish m i p e))"
  by (auto simp: mux_finish_def mux_inv_def split: option.splits)

lemma mux_open_inv:
  assumes "mux_inv m" and "mux_open m i = Open_new p m1"
  shows "mux_inv m1"
proof -
  have "m1 = m\<lparr>mx_objs := mx_objs m @ [newClientChannel i],
      mx_channels := AList.update i (length (mx_objs m)) (mx_channels m)\<rparr>"
    using assms(2) by (auto simp: mux_open_def split: if_splits option.splits)
  moreover have "5 \<le> length i" using assms(2) by (auto simp: mux_open_def split: if_splits)
  then have "entry_ok (mx_objs m @ [newClientChannel i]) i (length (mx_objs m))"
    by (simp add: entry_ok_def newClientChannel_def)
  ultimately show ?thesis using assms(1)
    by (auto simp: mux_inv_def intro: all_entries_mono entry_ok_append)
qed

lemma cc_Receive_ok:
  assumes "cc_ok c" and "(c', res) \<in> set (cc_Receive c)"
  shows "cc_ok c' \<and> cc_id c' = cc_id c \<and> cc_done c' = cc_done c"
proof -
  consider (msg) v q where "chan_recv (cc_egress c) = Happens (Some v, q)" "c' = c\<lparr>cc_egress := q\<rparr>"
    | (stop) v q where "chan_recv (cc_stop c) = Happens (v, q)" "c' = c\<lparr>cc_stop := q\<rparr>"
    using assms(2)
    by (auto simp: cc_Receive_def split: chan_result.splits option.splits prod.splits) metis+
  then show ?thesis
  proof cases
    case msg
    with assms(1) show ?thesis by (simp add: cc_ok_recv)
  next
    case stop
    with assms(1) show ?thesis by (auto simp: cc_ok_def dest: chan_recv_closed)
  qed
qed

lemma cc_Close_inv:
  assumes "mux_inv m" and "p < length (mx_objs m)" and "cc_Close m p ce = Happens m'"
  shows "mux_inv m'"
proof (cases "cc_done (mx_objs m ! p)")
  case True
  with assms show ?thesis by (simp add: cc_Close_def)
next
  case False
  let ?c = "mx_objs m ! p" and ?m1 = "fst (mux_send m (plain_msg (cc_id (mx_objs m ! p)) LEAVE) ce)"
  have m1: "mx_objs ?m1 = mx_objs m" "mx_channels ?m1 = mx_channels m"
    by (auto simp: mux_send_def split: option.splits)
  have "\<not> chan_closed (cc_stop ?c)" using cc_ok_nth[OF assms(1,2)] False by (simp add: cc_ok_def)
  then have "m' = channelDone (put_obj ?m1 p (?c\<lparr>cc_done := True, cc_stop := (cc_stop ?c)\<lparr>chan_closed := True\<rparr>\<rparr>)) (cc_id ?c)"
    using assms(3) False by (auto simp: cc_Close_def chan_close_def Let_def)
  then obtain q where q: "chan_closed q"
    and m': "m' = channelDone (put_obj ?m1 p (?c\<lparr>cc_done := True, cc_stop := q\<rparr>)) (cc_id ?c)"
    by (metis gchan.select_convs(3) gchan.surjective gchan.update_convs(3))
  have "cc_ok (?c\<lparr>cc_done := True, cc_stop := q\<rparr>)"
    using q cc_ok_nth[OF assms(1,2)] by (simp add: cc_ok_def)
  moreover have "all_entries (entry_ok ((mx_objs m)[p := ?c\<lparr>cc_done := True, cc_stop := q\<rparr>]))
      (AList.delete (cc_id ?c) (mx_channels m))"
    using assms(1)
    by (auto simp: mux_inv_def all_entries_def list_all_iff AList.delete_eq intro!: entry_ok_other)
  ultimately show ?thesis using assms(1)
    by (auto simp: m' mux_inv_def channelDone_def put_obj_def Let_def m1 list_all_iff
        dest!: set_update_subset_insert[THEN subsetD])
qed

lemma mux_step_inv: "mux_step m m' \<Longrightarrow> mux_inv m \<Longrightarrow> mux_inv m'"
proof (induction rule: mux_step.induct)
  case (open_new m i p m1 ce m2 err)
  then show ?case by (auto intro: mux_finish_inv mux_send_inv mux_open_inv)
next
  case (join_end p m m1 err)
  then have "mux_inv m1"
    by (auto simp: join_wait_def split: chan_result.splits option.splits intro!: put_obj_inv
        cc_ok_recv cc_ok_nth)
  then show ?case by (rule mux_finish_inv)
next
  case (round m received m')
  then show ?case
    by (auto simp: mux_routine_def split: sum.splits net_message.splits option.splits chan_result.splits
        intro!: put_obj_inv cc_ok_send cc_ok_nth)
      (auto simp: mux_inv_def entry_ok_def dest!: all_entries_lookup)
next
  case (receive p m c' res)
  then show ?case by (metis cc_Receive_ok cc_ok_nth put_obj_inv)
next
  case (send p m blob ce)
  then show ?case by (auto simp: cc_Send_def intro: mux_send_inv prod.collapse[symmetric])
next
  case (close p m ce m')
  then show ?case by (blast intro: cc_Close_inv)
qed

lemma mux_reachable_inv: "mux_reachable m \<Longrightarrow> mux_inv m"
  by (induction rule: mux_reachable.induct)
    (auto simp: mux_inv_def NewMultiplexer_def dest: mux_step_inv[unfolded mux_inv_def])

section \<open>Demultiplexing\<close>

text \<open>The rounds of \<open>routine\<close> over a list of messages; \<open>None\<close> when it waits or returns.\<close>

fun mux_rounds :: "Multiplexer \<Rightarrow> net_message list \<Rightarrow> Multiplexer option" where
  "mux_rounds m [] = Some m"
| "mux_rounds m (nm # nms) =
     (case mux_routine m (Inr nm) of Go_on m' \<Rightarrow> mux_rounds m' nms | _ \<Rightarrow> None)"

fun relay_msgs :: "net_message list \<Rightarrow> RelayMessage list" where
  "relay_msgs [] = []"
| "relay_msgs (Relay_msg rm # nms) = rm # relay_msgs nms"
| "relay_msgs (Other_msg # nms) = relay_msgs nms"

definition egress_of :: "Multiplexer \<Rightarrow> nat \<Rightarrow> RelayMessage list" where
  "egress_of m p = chan_buf (cc_egress (mx_objs m ! p))"

definition for_channel :: "string \<Rightarrow> net_message list \<Rightarrow> RelayMessage list" where
  "for_channel i nms = filter (\<lambda>rm. rm_channel rm = i) (relay_msgs nms)"

lemma mux_routine_frame:
  assumes "mux_routine m (Inr nm) = Go_on m'"
  shows "mx_channels m' = mx_channels m" and "length (mx_objs m') = length (mx_objs m)"
  using assms
  by (auto simp: mux_routine_def put_obj_def split: net_message.splits option.splits chan_result.splits)

lemma mux_routine_egress:
  assumes "mux_inv m" and "map_of (mx_channels m) i = Some p" and "mux_routine m (Inr nm) = Go_on m'"
  shows "egress_of m' p = egress_of m p @ for_channel i [nm]"
proof (cases nm)
  case Other_msg
  with assms show ?thesis by (simp add: mux_routine_def for_channel_def)
next
  case (Relay_msg rm)
  show ?thesis
  proof (cases "map_of (mx_channels m) (rm_channel rm)")
    case None
    with assms Relay_msg show ?thesis by (auto simp: mux_routine_def for_channel_def)
  next
    case (Some q)
    have p: "entry_ok (mx_objs m) i p" and q: "entry_ok (mx_objs m) (rm_channel rm) q"
      using assms(1,2) Some by (auto simp: mux_inv_def intro: all_entries_lookup)
    obtain b where b: "chan_send (cc_egress (mx_objs m ! q)) rm = Happens b"
      and m': "m' = put_obj m q ((mx_objs m ! q)\<lparr>cc_egress := b\<rparr>)"
      using assms(3) Relay_msg Some by (auto simp: mux_routine_def split: chan_result.splits)
    show ?thesis
    proof (cases "rm_channel rm = i")
      case True
      with p q Some assms(2) b show ?thesis
        by (auto simp: m' Relay_msg for_channel_def egress_of_def put_obj_def entry_ok_def dest: chan_send_HappensD)
    next
      case False
      with p q have "p \<noteq> q" by (auto simp: entry_ok_def)
      with False show ?thesis by (simp add: m' Relay_msg for_channel_def egress_of_def put_obj_def)
    qed
  qed
qed

lemma for_channel_Cons: "for_channel i (nm # nms) = for_channel i [nm] @ for_channel i nms"
  by (cases nm) (auto simp: for_channel_def)

lemma mux_rounds_egress:
  "mux_inv m \<Longrightarrow> map_of (mx_channels m) i = Some p \<Longrightarrow> mux_rounds m nms = Some m' \<Longrightarrow>
     egress_of m' p = egress_of m p @ for_channel i nms"
proof (induction nms arbitrary: m)
  case Nil
  then show ?case by (simp add: for_channel_def)
next
  case (Cons nm nms)
  then obtain m1 where m1: "mux_routine m (Inr nm) = Go_on m1" "mux_rounds m1 nms = Some m'"
    by (auto split: mux_round.splits)
  moreover have "mux_inv m1" using m1(1) Cons.prems(1) by (blast intro: mux_step_inv mux_step.round)
  moreover have "map_of (mx_channels m1) i = Some p" using Cons.prems(2) m1(1) by (simp add: mux_routine_frame)
  ultimately show ?case using Cons mux_routine_egress[OF Cons.prems(1,2) m1(1)]
    by (simp add: for_channel_Cons[of i nm nms])
qed

text \<open>The goroutine goes on exactly as long as the queue of the message has room.\<close>

lemma mux_routine_goes_on:
  assumes "mux_inv m"
  shows "mux_routine m (Inr nm) = Waits \<longleftrightarrow>
    (\<exists>rm p. nm = Relay_msg rm \<and> map_of (mx_channels m) (rm_channel rm) = Some p \<and> length (egress_of m p) = queueSize)"
proof -
  have "chan_send (cc_egress (mx_objs m ! p)) rm \<noteq> Panics \<and>
      (chan_send (cc_egress (mx_objs m ! p)) rm = Blocks \<longleftrightarrow> length (egress_of m p) = queueSize)"
    if "map_of (mx_channels m) i = Some p" for i p rm
  proof -
    have "entry_ok (mx_objs m) i p" using assms that by (auto simp: mux_inv_def intro: all_entries_lookup)
    then have "cc_ok (mx_objs m ! p)" using assms by (auto simp: entry_ok_def intro: cc_ok_nth)
    then show ?thesis by (auto simp: cc_ok_def chan_send_def egress_of_def wf_chan_def)
  qed
  then show ?thesis
    by (fastforce simp: mux_routine_def split: net_message.splits option.splits chan_result.splits)
qed

section \<open>Properties of the client side\<close>

text \<open>A multiplexer with one channel, for the witnesses.\<close>

definition one_channel :: Multiplexer where
  "one_channel = \<lparr>mx_objs = [newClientChannel ''abcde''], mx_channels = [(''abcde'', 0)],
     mx_sent = [plain_msg ''abcde'' JOIN], mx_closed = False\<rparr>"

lemma one_channel_reachable: "mux_reachable one_channel"
proof -
  have "mux_open NewMultiplexer ''abcde'' = Open_new 0 (one_channel\<lparr>mx_sent := []\<rparr>)"
    by (simp add: mux_open_def NewMultiplexer_def one_channel_def)
  from mux_step.open_new[OF this, of None one_channel None]
  have "mux_step NewMultiplexer one_channel" by (simp add: mux_send_def one_channel_def)
  then show ?thesis by (rule mux_reachable.step[OF mux_reachable.start])
qed

text \<open>
  C17. Demultiplexing: as long as the goroutine of the multiplexer goes on, the queue of a channel
  receives exactly the messages of the connection that carry its identifier, in the order of the
  connection, whatever messages of other channels come in between.
\<close>

theorem mux_delivers_by_channel:
  assumes "mux_reachable m" and "map_of (mx_channels m) i = Some p" and "mux_rounds m nms = Some m'"
  shows "egress_of m' p = egress_of m p @ for_channel i nms"
  using assms by (intro mux_rounds_egress mux_reachable_inv)

theorem mux_delivers_by_channel_witness:
  "map_option (\<lambda>m'. egress_of m' 0)
     (mux_rounds one_channel [Relay_msg (egress_msg ''abcde'' [1]), Other_msg, Relay_msg (egress_msg ''other'' [2])])
   = Some [egress_msg ''abcde'' [1]]"
proof -
  let ?nms = "[Relay_msg (egress_msg ''abcde'' [1]), Other_msg, Relay_msg (egress_msg ''other'' [2])]"
  obtain m' where m': "mux_rounds one_channel ?nms = Some m'"
    by (simp add: one_channel_def newClientChannel_def make_chan_def mux_routine_def chan_send_def
        put_obj_def msg_defs queueSize_def)
  from mux_delivers_by_channel[OF one_channel_reachable _ this, of "''abcde''" 0] m' show ?thesis
    by (simp add: one_channel_def newClientChannel_def make_chan_def egress_of_def for_channel_def msg_defs)
qed

text \<open>
  Head of line blocking: the goroutine waits, holding the lock of the multiplexer, exactly when
  the message it has read is for a channel whose \<open>queueSize\<close> messages nobody has received yet.
\<close>

theorem mux_waits_iff_queue_full:
  assumes "mux_reachable m"
  shows "mux_routine m (Inr nm) = Waits \<longleftrightarrow>
    (\<exists>rm p. nm = Relay_msg rm \<and> map_of (mx_channels m) (rm_channel rm) = Some p \<and> length (egress_of m p) = queueSize)"
  using assms by (intro mux_routine_goes_on mux_reachable_inv)

theorem mux_waits_iff_queue_full_witness: "mux_routine one_channel (Inr Other_msg) \<noteq> Waits"
  using mux_waits_iff_queue_full[OF one_channel_reachable, of Other_msg] by simp

text \<open>
  \<open>Close\<close> in every reachable state: it does not panic, after it no entry of the map leads
  to the closed channel, a second \<open>Close\<close> changes nothing (so it cannot take down a newer
  channel of the same name), and when no channel is left the connection is closed.
\<close>

theorem close_channel_once:
  assumes "mux_reachable m" and "p < length (mx_objs m)"
  shows "\<exists>m'. cc_Close m p ce = Happens m' \<and> cc_Close m' p ce' = Happens m' \<and>
    p \<notin> snd ` set (mx_channels m') \<and> (if cc_done (mx_objs m ! p) then m' = m
      else mx_closed m' = (mx_closed m \<or> mx_channels m' = []))"
proof -
  have inv: "mux_inv m" and ok: "cc_ok (mx_objs m ! p)"
    using assms mux_reachable_inv cc_ok_nth by blast+
  then obtain m' where m': "cc_Close m p ce = Happens m'"
    by (auto simp: cc_Close_def chan_close_def cc_ok_def Let_def)
  have "mux_inv m'" using inv assms(2) m' by (rule cc_Close_inv)
  moreover have done': "cc_done (mx_objs m' ! p)"
    and closed': "if cc_done (mx_objs m ! p) then m' = m else mx_closed m' = (mx_closed m \<or> mx_channels m' = [])"
    using m' assms(2)
    by (auto simp: cc_Close_def chan_close_def Let_def channelDone_def put_obj_def mux_send_def
        split: if_splits option.splits)
  ultimately have "p \<notin> snd ` set (mx_channels m')"
    by (auto simp: mux_inv_def all_entries_def list_all_iff entry_ok_def)
  moreover have "cc_Close m' p ce' = Happens m'" using done' by (simp add: cc_Close_def)
  ultimately show ?thesis using m' closed' by blast
qed

theorem close_channel_once_witness:
  "\<exists>m'. cc_Close one_channel 0 None = Happens m' \<and> mx_closed m'"
  using close_channel_once[OF one_channel_reachable, of 0 None None]
  by (auto simp: one_channel_def newClientChannel_def cc_Close_def channelDone_def put_obj_def mux_send_def
      chan_close_def make_chan_def Let_def)

text \<open>
  Opening a channel panics exactly for the identifiers of fewer than five bytes: the ten
  hexadecimal digits the log message slices off do not exist.
\<close>

theorem short_channel_id_panics: "mux_open m i = Open_panic \<longleftrightarrow> length i < 5"
  by (auto simp: mux_open_def split: option.splits)

end
