(* ===== verification/Relay_Network.thy ===== *)
theory Relay_Network
  imports Net_Stack Relay_Client
begin

text \<open>
  The relay and its clients on the network package: the relay is the processor of a router and a
  receiver of its bus (\<open>NewRelay\<close> of relay/relay.go), a client has a multiplexer on a TCP connection
  (\<open>routine\<close> of relay/channel.go), and both use \<open>relayEncoder\<close> of client/stream.go.
\<close>

section \<open>What the relay registers\<close>

text \<open>The Go type of the messages, by its name, and the two types a message can have for the relay.\<close>

definition relay_type :: string where "relay_type = ''relay.RelayMessage''"

definition relayEncoder :: "string SingleProtoEncoder" where
  "relayEncoder = NewSingleProtoEncoder (Struct relay_type (plain_msg [] JOIN))"

text \<open>The relay is the processor of its messages at the router, and is told when a connection goes down.\<close>

definition relay_dispatcher :: "(string, string) BlockingDispatcher" where
  "relay_dispatcher = RegisterProcessor NewBlockingDispatcher ''relay'' [Struct relay_type (plain_msg [] JOIN)]"

definition relay_bus :: "string simpleDispatcher" where
  "relay_bus = Register NewSimpleDispatcher EventConnDown ''relay''"

text \<open>\<open>Start\<close>, for the connections the listener accepts while it runs.\<close>

definition relay_Start :: "Router \<Rightarrow> rconn list \<Rightarrow> Router" where
  "relay_Start rt conns = foldl router_accept rt conns"

section \<open>Both ends of a connection\<close>

text \<open>The type switch of \<open>Process\<close>, and the type assertion of \<open>routine\<close>: a pointer to a relay message, or not.\<close>

definition as_net :: "(string, RelayMessage) message \<Rightarrow> net_message" where
  "as_net m = (case m of PtrTo t rm \<Rightarrow> (if t = relay_type then Relay_msg rm else Other_msg) | Struct t rm \<Rightarrow> Other_msg)"

text \<open>A call of a processor as the arguments of \<open>Process\<close>.\<close>

definition process_args :: "string \<times> Address \<times> (string, RelayMessage) message \<Rightarrow> Address \<times> net_message" where
  "process_args call = (case call of (p, src, m) \<Rightarrow> (src, as_net m))"

text \<open>
  At most \<open>n\<close> rounds of \<open>routine\<close> over the TCP connection \<open>q\<close>; \<open>txt\<close> is the text of an error.
\<close>

fun mux_loop ::
  "(bytes \<Rightarrow> 'x + (string, RelayMessage) message) \<Rightarrow> ('x conn_error \<Rightarrow> string) \<Rightarrow> nat \<Rightarrow> Multiplexer \<Rightarrow> TCPConn \<Rightarrow> mux_round" where
  "mux_loop unmarshal txt 0 m q = Go_on m"
| "mux_loop unmarshal txt (Suc n) m q =
     (case tcp_Receive unmarshal q of
        (io_result.Waits, _) \<Rightarrow> mux_round.Waits
      | (Fails e, _) \<Rightarrow> mux_routine m (Inl (txt e))
      | (Returns msg, q') \<Rightarrow>
          (case mux_routine m (Inr (as_net msg)) of
             Go_on m' \<Rightarrow> mux_loop unmarshal txt n m' q'
           | stopped \<Rightarrow> stopped))"

text \<open>The same rounds on given messages.\<close>

fun mux_feed :: "Multiplexer \<Rightarrow> RelayMessage list \<Rightarrow> mux_round" where
  "mux_feed m [] = Go_on m"
| "mux_feed m (rm # rms) =
     (case mux_routine m (Inr (Relay_msg rm)) of Go_on m' \<Rightarrow> mux_feed m' rms | stopped \<Rightarrow> stopped)"

text \<open>Messages of the relay as the connections send them, and what must hold of each.\<close>

definition wire_jobs :: "(tx_result list \<times> RelayMessage) list \<Rightarrow> (tx_result list \<times> (string, RelayMessage) message) list" where
  "wire_jobs jobs = map (\<lambda>(orc, rm). (orc, PtrTo relay_type rm)) jobs"

definition sendable ::
  "(string, RelayMessage, 'e) pb_encoder \<Rightarrow> (string, RelayMessage, 'e) pb_decoder \<Rightarrow> tx_result list \<times> RelayMessage \<Rightarrow> bool" where
  "sendable pbe pbd job = (case job of (orc, rm) \<Rightarrow>
     header_written orc \<and> fits (single_Marshal pbe relayEncoder (PtrTo relay_type rm)) \<and> pb_faithful pbe pbd (PtrTo relay_type rm))"

section \<open>The relay on its router\<close>

lemma relay_dispatched:
  "dispatched (blocking_Dispatch relay_dispatcher) src (map (PtrTo relay_type) rms) = map (\<lambda>rm. (''relay'', src, PtrTo relay_type rm)) rms"
  by (induction rms) (simp_all add: dispatched_def blocking_Dispatch_def relay_dispatcher_def NewBlockingDispatcher_def)

lemma process_args_relay [simp]: "process_args (p, src, PtrTo relay_type rm) = (src, Relay_msg rm)"
  by (simp add: process_args_def as_net_def)

lemma relay_Start_reachable: "router_reachable rt \<Longrightarrow> router_reachable (relay_Start rt conns)"
  unfolding relay_Start_def
  by (induction conns arbitrary: rt) (auto intro: router_accept_reachable)

text \<open>
  The relay is never told that a connection went down: over all the events its router has published,
  \<open>Receive\<close> of the relay is called for none, so that a client whose connection is lost stays a member.
\<close>

lemma relay_never_told:
  assumes "router_reachable rt"
  shows "concat (map (\<lambda>e. Publish relay_bus (event_Name e)) (rt_events rt)) = []"
proof -
  have "Publish relay_bus EventConnUp = []"
    by (simp add: Publish_def relay_bus_def Register_def receivers_def NewSimpleDispatcher_def EventConnUp_def EventConnDown_def)
  then show ?thesis using router_reachable_inv[OF assms] by (simp add: router_inv_def list_all_iff)
qed

text \<open>An answer goes over the connection the question came from.\<close>

lemma answer_same_connection:
  assumes "router_reachable rt" and "connection rt a = Some c"
  shows "rc_remote (rt_objs rt ! c) = a" and "net_router_Send rt a False host1 host2 None send2 = (rt, [c], None)"
proof -
  show "rc_remote (rt_objs rt ! c) = a"
    using router_reachable_inv[OF assms(1)] assms(2) by (auto simp: router_inv_def connection_def registered_ok_def dest: all_entries_lookup)
  show "net_router_Send rt a False host1 host2 None send2 = (rt, [c], None)"
    using assms(2) by (simp add: net_router_Send_def)
qed

section \<open>Over TCP\<close>

lemma relay_recv_all:
  assumes "list_all (sendable pbe pbd) jobs"
    and "tcp_send_all (single_Marshal pbe relayEncoder) s (wire_jobs jobs) = Some s'" and "tcp_sent s = []"
    and "all_data (tcp_rx p)" and "stream_of (tcp_rx p) = tcp_sent s'"
  shows "tcp_recv_n (single_Unmarshal pbd relayEncoder) (length jobs) p = Some (map (PtrTo relay_type) (map snd jobs))"
proof -
  have "list_all (\<lambda>(orc, m). header_written orc \<and> fits (single_Marshal pbe relayEncoder m) \<and> pb_faithful pbe pbd m) (wire_jobs jobs)"
    using assms(1) by (auto simp: wire_jobs_def list_all_iff sendable_def)
  from single.recv_all[OF this assms(2-5)] show ?thesis by (simp add: wire_jobs_def case_prod_beta)
qed

lemma mux_loop_feed:
  "tcp_recv_n unmarshal (length rms) q = Some (map (PtrTo relay_type) rms) \<Longrightarrow>
     mux_loop unmarshal txt (length rms) m q = mux_feed m rms"
proof (induction rms arbitrary: m q)
  case Nil
  then show ?case by simp
next
  case (Cons rm rms)
  then obtain q' where q': "tcp_Receive unmarshal q = (Returns (PtrTo relay_type rm), q')"
      "tcp_recv_n unmarshal (length rms) q' = Some (map (PtrTo relay_type) rms)"
    by (auto split: prod.splits io_result.splits)
  have "as_net (PtrTo relay_type rm) = Relay_msg rm" by (simp add: as_net_def)
  then show ?case using q'(1) Cons.IH[OF q'(2)] by (cases "mux_routine m (Inr (Relay_msg rm))") simp_all
qed

text \<open>
  C8. A client and the relay over TCP: the messages the multiplexer of a client sends make the
  router of the relay call \<open>Process\<close> with exactly these messages, in this order and with the address of the
  connection; what the relay sends to that address goes over the same connection; and the goroutine of the
  multiplexer handles exactly these answers, in their order. This holds for all short writes and for every
  way the two byte streams are cut into segments.
\<close>

theorem relay_over_tcp:
  fixes pbe :: "(string, RelayMessage, 'e) pb_encoder" and pbd :: "(string, RelayMessage, 'e) pb_decoder"
  assumes "router_reachable rt" and "connection rt a = Some c" and "\<not> rt_isClosed rt"
    and "list_all (sendable pbe pbd) asks" and "list_all (sendable pbe pbd) answers"
    and "tcp_send_all (single_Marshal pbe relayEncoder) cl (wire_jobs asks) = Some cl'" and "tcp_sent cl = []"
    and "all_data (tcp_rx p)" and "stream_of (tcp_rx p) = tcp_sent cl'"
    and "tcp_send_all (single_Marshal pbe relayEncoder) sv (wire_jobs answers) = Some sv'" and "tcp_sent sv = []"
    and "all_data (tcp_rx q)" and "stream_of (tcp_rx q) = tcp_sent sv'"
  shows "\<exists>calls. handleConn (single_Unmarshal pbd relayEncoder) (blocking_Dispatch relay_dispatcher) rt c (length asks) p = (True, calls) \<and>
      map process_args calls = map (\<lambda>(orc, rm). (a, Relay_msg rm)) asks \<and>
      net_router_Send rt a False host1 host2 None send2 = (rt, [c], None) \<and>
      mux_loop (single_Unmarshal pbd relayEncoder) txt (length answers) m q = mux_feed m (map snd answers)"
proof -
  let ?un = "single_Unmarshal pbd relayEncoder"
  have "handleConn ?un (blocking_Dispatch relay_dispatcher) rt c (length asks) p =
      (True, map (\<lambda>rm. (''relay'', a, PtrTo relay_type rm)) (map snd asks))"
    unfolding handleConn_dispatches[OF assms(3) relay_recv_all[OF assms(4,6-9)]] relay_dispatched
      answer_same_connection(1)[OF assms(1,2)] ..
  moreover have "mux_loop ?un txt (length answers) m q = mux_feed m (map snd answers)"
    using mux_loop_feed[of ?un "map snd answers" q] relay_recv_all[OF assms(5,10-13)] by simp
  ultimately show ?thesis using answer_same_connection(2)[OF assms(1,2)] by (simp add: case_prod_beta)
qed

text \<open>The witness: a client joins a channel over one connection and is told OK, with short writes and odd segments.\<close>

definition demo_ask :: RelayMessage where "demo_ask = plain_msg ''abcde'' JOIN"
definition demo_answer :: RelayMessage where "demo_answer = join_response_msg ''abcde'' \<lparr>jr_status = OK, jr_reason = []\<rparr>"

definition demo_pbe :: "(string, RelayMessage, string) pb_encoder" where
  "demo_pbe m = (if contents m = demo_ask then Inr [1, 7] else if contents m = demo_answer then Inr [2] else Inl ''message'')"

definition demo_pbd :: "(string, RelayMessage, string) pb_decoder" where
  "demo_pbd t b = (if b = [1, 7] then Inr demo_ask else if b = [2] then Inr demo_answer else Inl ''bytes'')"

definition demo_asks :: "(tx_result list \<times> RelayMessage) list" where "demo_asks = [([Wrote 4, Wrote 1, Wrote 1], demo_ask)]"
definition demo_answers :: "(tx_result list \<times> RelayMessage) list" where "demo_answers = [([Wrote 4, Wrote 1], demo_answer)]"

definition demo_up :: "rx_event list" where "demo_up = [Data [0, 0, 0], Data [2, 1], Data [7]]"
definition demo_down :: "rx_event list" where "demo_down = [Data [0], Data [0, 0, 1, 2]]"

lemma demo_sent:
  "\<exists>s. tcp_send_all (single_Marshal demo_pbe relayEncoder) (demo_conn []) (wire_jobs demo_asks) = Some s \<and> tcp_sent s = stream_of demo_up"
  "\<exists>s. tcp_send_all (single_Marshal demo_pbe relayEncoder) (demo_conn []) (wire_jobs demo_answers) = Some s \<and> tcp_sent s = stream_of demo_down"
  by (simp_all add: demo_asks_def demo_answers_def wire_jobs_def single_Marshal_def relayEncoder_def NewSingleProtoEncoder_def demo_pbe_def
      demo_ask_def demo_answer_def msg_defs map_error_def tcp_Send_def sendRaw_def demo_conn_def be32_encode_def demo_up_def demo_down_def)

lemma demo_sendable: "list_all (sendable demo_pbe demo_pbd) (demo_asks @ demo_answers)"
  by (simp add: demo_asks_def demo_answers_def sendable_def header_written_def fits_def pb_faithful_def single_Marshal_def relayEncoder_def
      NewSingleProtoEncoder_def demo_pbe_def demo_pbd_def demo_ask_def demo_answer_def msg_defs map_error_def)

theorem relay_over_tcp_witness:
  "\<exists>calls m1. handleConn (single_Unmarshal demo_pbd relayEncoder) (blocking_Dispatch relay_dispatcher) two_conns 0 1 (demo_conn demo_up) =
       (True, calls) \<and>
     map process_args calls = [(''tcp://10.0.0.4:2000'', Relay_msg (plain_msg ''abcde'' JOIN))] \<and>
     mux_loop (single_Unmarshal demo_pbd relayEncoder) (\<lambda>e. ''error'') 1 one_channel (demo_conn demo_down) = Go_on m1 \<and>
     snd (join_wait m1 0) = None"
proof -
  obtain cl where cl: "tcp_send_all (single_Marshal demo_pbe relayEncoder) (demo_conn []) (wire_jobs demo_asks) = Some cl" "tcp_sent cl = stream_of demo_up"
    using demo_sent(1) by blast
  obtain sv where sv: "tcp_send_all (single_Marshal demo_pbe relayEncoder) (demo_conn []) (wire_jobs demo_answers) = Some sv" "tcp_sent sv = stream_of demo_down"
    using demo_sent(2) by blast
  have ok: "list_all (sendable demo_pbe demo_pbd) demo_asks" "list_all (sendable demo_pbe demo_pbd) demo_answers"
    using demo_sendable by simp_all
  have rt: "connection two_conns ''tcp://10.0.0.4:2000'' = Some 0" "\<not> rt_isClosed two_conns"
    by (simp_all add: two_conns_eq connection_def)
  have rx: "tcp_sent (demo_conn x) = []" "tcp_rx (demo_conn x) = x" "all_data demo_up" "all_data demo_down" for x
    by (simp_all add: demo_conn_def demo_up_def demo_down_def)
  have "\<exists>m1. mux_feed one_channel (map snd demo_answers) = Go_on m1 \<and> snd (join_wait m1 0) = None"
    by (simp add: demo_answers_def demo_answer_def mux_routine_def one_channel_def newClientChannel_def make_chan_def queueSize_def
        msg_defs chan_send_def put_obj_def join_wait_def chan_recv_def join_answer_def GetStatus_def)
  moreover have "length demo_asks = 1" "length demo_answers = 1" by (simp_all add: demo_asks_def demo_answers_def)
  moreover have "map (\<lambda>(orc, rm). (''tcp://10.0.0.4:2000'', Relay_msg rm)) demo_asks = [(''tcp://10.0.0.4:2000'', Relay_msg (plain_msg ''abcde'' JOIN))]"
    by (simp add: demo_asks_def demo_ask_def)
  ultimately show ?thesis
    using relay_over_tcp[OF two_conns_reachable rt ok cl(1) _ _ _ sv(1), of "demo_conn demo_up" "demo_conn demo_down"
        undefined undefined None "\<lambda>e. ''error''" one_channel] cl(2) sv(2)
    by (metis rx)
qed

end
