(* ===== verification/Go_Codec.thy ===== *)
theory Go_Codec
  imports Go_Prelude
begin

text \<open>
  The codecs of Go's standard library that several packages use: \<open>encoding/base64\<close> (the
  standard encoding, on whole strings and as a stream) and \<open>encoding/hex\<close>, each with its round
  trip.
\<close>

section \<open>Base64 (the standard encoding)\<close>

definition b64_alphabet :: string where
  "b64_alphabet = ''ABCDEFGHIJKLMNOPQRSTUVWXYZabcdefghijklmnopqrstuvwxyz0123456789+/''"

definition b64_char :: "nat \<Rightarrow> char" where
  "b64_char n = b64_alphabet ! n"

fun b64_find :: "char \<Rightarrow> string \<Rightarrow> nat option" where
  "b64_find c [] = None"
| "b64_find c (d # ds) = (if c = d then Some 0 else map_option Suc (b64_find c ds))"

definition b64_value :: "char \<Rightarrow> nat option" where
  "b64_value c = b64_find c b64_alphabet"

text \<open>\<open>EncodeToString\<close>: three bytes are four characters, the last group is padded.\<close>

fun b64_encode :: "bytes \<Rightarrow> string" where
  "b64_encode [] = []"
| "b64_encode [a] =
     [b64_char (unat a div 4), b64_char (unat a mod 4 * 16), CHR ''='', CHR ''='']"
| "b64_encode [a, b] =
     [b64_char (unat a div 4), b64_char (unat a mod 4 * 16 + unat b div 16),
      b64_char (unat b mod 16 * 4), CHR ''='']"
| "b64_encode (a # b # c # rest) =
     [b64_char (unat a div 4), b64_char (unat a mod 4 * 16 + unat b div 16),
      b64_char (unat b mod 16 * 4 + unat c div 64), b64_char (unat c mod 64)] @ b64_encode rest"

text \<open>
  \<open>DecodeString\<close> after it has dropped line ends: padding only in the last group, nothing after
  it. \<open>None\<close> is a \<open>CorruptInputError\<close>.
\<close>

fun b64_groups :: "string \<Rightarrow> bytes option" where
  "b64_groups [] = Some []"
| "b64_groups (p # q # r # s # rest) =
     (case (b64_value p, b64_value q) of
        (Some x, Some y) \<Rightarrow>
          if r = CHR ''='' then
            (if s = CHR ''='' \<and> rest = [] then Some [of_nat (x * 4 + y div 16)] else None)
          else (case b64_value r of
            None \<Rightarrow> None
          | Some z \<Rightarrow>
              if s = CHR ''='' then
                (if rest = [] then Some [of_nat (x * 4 + y div 16), of_nat (y mod 16 * 16 + z div 4)] else None)
              else (case b64_value s of
                None \<Rightarrow> None
              | Some t \<Rightarrow>
                  map_option (\<lambda>bs. of_nat (x * 4 + y div 16) # of_nat (y mod 16 * 16 + z div 4) #
                                   of_nat (z mod 4 * 64 + t) # bs) (b64_groups rest)))
      | _ \<Rightarrow> None)"
| "b64_groups _ = None"

definition b64_decode :: "string \<Rightarrow> bytes option" where
  "b64_decode s = b64_groups (filter (\<lambda>c. c \<noteq> CHR 0x0A \<and> c \<noteq> CHR 0x0D) s)"

lemma b64_find_nth: "distinct xs \<Longrightarrow> n < length xs \<Longrightarrow> b64_find (xs ! n) xs = Some n"
  by (induction xs arbitrary: n) (auto simp: nth_Cons split: nat.splits)

lemma b64_value_char [simp]: "n < 64 \<Longrightarrow> b64_value (b64_char n) = Some n"
  unfolding b64_value_def b64_char_def
  by (rule b64_find_nth) (simp_all add: b64_alphabet_def)

lemma b64_char_in: "n < 64 \<Longrightarrow> b64_char n \<in> set b64_alphabet"
  by (simp add: b64_char_def b64_alphabet_def del: set_simps list.set)

lemma b64_char_special [simp]:
  "n < 64 \<Longrightarrow> b64_char n \<noteq> CHR ''=''" "n < 64 \<Longrightarrow> b64_char n \<noteq> CHR 0x0A" "n < 64 \<Longrightarrow> b64_char n \<noteq> CHR 0x0D"
  using b64_char_in[of n] by (auto simp: b64_alphabet_def)

lemma unat_byte_less: "unat (b :: byte) < 256"
  using unsigned_less[of b] by simp

lemma b64_bounds [simp]:
  "unat (a :: byte) div 4 < 64" "unat a mod 4 * 16 < 64" "unat a mod 4 * 16 + unat (b :: byte) div 16 < 64"
  "unat b mod 16 * 4 < 64" "unat b mod 16 * 4 + unat (c :: byte) div 64 < 64" "unat c mod 64 < 64"
  using unat_byte_less[of a] unat_byte_less[of b] unat_byte_less[of c] by linarith+

lemma b64_join [simp]:
  "(of_nat (unat b div 16 mod 16) * 16 + of_nat (unat b mod 16) :: byte) = b"
  "(of_nat (unat b div 64 mod 4) * 64 + of_nat (unat b mod 64) :: byte) = b" for b :: byte
proof -
  have "unat b div 16 < 16" "unat b div 64 < 4" using unat_byte_less[of b] by linarith+
  moreover have "(of_nat (unat b div k) * of_nat k + of_nat (unat b mod k) :: byte) = b" for k
    using arg_cong[OF div_mult_mod_eq[of "unat b" k], of "of_nat :: nat \<Rightarrow> byte"]
    by (simp only: of_nat_add of_nat_mult) simp
  from this[of 16] this[of 64]
  have "(of_nat (unat b div 16) * 16 + of_nat (unat b mod 16) :: byte) = b"
    "(of_nat (unat b div 64) * 64 + of_nat (unat b mod 64) :: byte) = b" by simp_all
  ultimately show "(of_nat (unat b div 16 mod 16) * 16 + of_nat (unat b mod 16) :: byte) = b"
    "(of_nat (unat b div 64 mod 4) * 64 + of_nat (unat b mod 64) :: byte) = b" by simp_all
qed

lemma b64_small [simp]: "unat b div 16 div 16 = 0" "unat b div 64 div 4 = 0" for b :: byte
  using unat_byte_less[of b] by (simp_all only: div_mult2_eq[symmetric]) simp_all

lemma b64_first [simp]: "(of_nat (unat a div 4 * 4 + unat a mod 4 * 16 div 16) :: byte) = a" for a :: byte
  by simp

lemma filter_b64_encode [simp]: "filter (\<lambda>c. c \<noteq> CHR 0x0A \<and> c \<noteq> CHR 0x0D) (b64_encode bs) = b64_encode bs"
  by (induction bs rule: b64_encode.induct) auto

lemma b64_groups_encode: "b64_groups (b64_encode bs) = Some bs"
  by (induction bs rule: b64_encode.induct) simp_all

lemma b64_decode_encode [simp]: "b64_decode (b64_encode bs) = Some bs"
  by (simp add: b64_decode_def b64_groups_encode)

text \<open>
  \<open>base64.NewDecoder\<close> on a reader of a string: the bytes of the groups up to the first bad one,
  and how the stream ends.
\<close>

datatype stream_end = EOF | Corrupt | Unexpected_EOF

fun b64_stream_groups :: "string \<Rightarrow> bytes \<times> stream_end" where
  "b64_stream_groups [] = ([], EOF)"
| "b64_stream_groups (p # q # r # s # rest) =
     (case b64_groups [p, q, r, s] of
        None \<Rightarrow> ([], Corrupt)
      | Some bs \<Rightarrow>
          if s = CHR ''='' then (bs, if rest = [] then EOF else Corrupt)
          else (case b64_stream_groups rest of (bs', e) \<Rightarrow> (bs @ bs', e)))"
| "b64_stream_groups _ = ([], Unexpected_EOF)"

definition b64_stream :: "string \<Rightarrow> bytes \<times> stream_end" where
  "b64_stream s = b64_stream_groups (filter (\<lambda>c. c \<noteq> CHR 0x0A \<and> c \<noteq> CHR 0x0D) s)"

lemma b64_stream_encode [simp]: "b64_stream (b64_encode bs) = (bs, EOF)"
proof -
  have "b64_stream_groups (b64_encode bs) = (bs, EOF)"
    by (induction bs rule: b64_encode.induct) (simp_all)
  then show ?thesis by (simp add: b64_stream_def)
qed

section \<open>Hexadecimal, decoding\<close>

text \<open>\<open>hex.Decode\<close>: digits of either case; the first byte that is not a digit is the error.\<close>

datatype hex_error = InvalidByteError byte | ErrLength

definition fromHexChar :: "byte \<Rightarrow> byte option" where
  "fromHexChar c =
     (if 48 \<le> c \<and> c \<le> 57 then Some (c - 48)
      else if 97 \<le> c \<and> c \<le> 102 then Some (c - 97 + 10)
      else if 65 \<le> c \<and> c \<le> 70 then Some (c - 65 + 10)
      else None)"

fun hex_Decode :: "bytes \<Rightarrow> hex_error + bytes" where
  "hex_Decode [] = Inr []"
| "hex_Decode [a] = (case fromHexChar a of None \<Rightarrow> Inl (InvalidByteError a) | Some _ \<Rightarrow> Inl ErrLength)"
| "hex_Decode (a # b # rest) =
     (case fromHexChar a of
        None \<Rightarrow> Inl (InvalidByteError a)
      | Some x \<Rightarrow>
          (case fromHexChar b of
             None \<Rightarrow> Inl (InvalidByteError b)
           | Some y \<Rightarrow> map_sum id (Cons (push_bit 4 x OR y)) (hex_Decode rest)))"

lemma fromHexChar_zero [simp]: "fromHexChar 0 = None"
  by (simp add: fromHexChar_def)

lemma hex_digit_value:
  assumes "n < 16"
  shows "fromHexChar (of_nat (of_char (hex_digits ! n))) = Some (of_nat n)"
proof -
  have "list_all (\<lambda>k. fromHexChar (of_nat (of_char (hex_digits ! k))) = Some (of_nat k)) [0..<16]"
    by code_simp
  then show ?thesis using assms by (simp add: list_all_iff)
qed

lemma nibbles: "unat (drop_bit 4 b) < 16" "unat (b AND 15) < 16"
    "push_bit 4 (drop_bit 4 b) OR (b AND 15) = b" for b :: byte
proof -
  show "unat (drop_bit 4 b) < 16"
    using unat_byte_less[of b] by (simp add: drop_bit_eq_div unat_div)
  have "b AND 15 = take_bit 4 b" by (simp add: take_bit_eq_mask mask_numeral)
  then show "unat (b AND 15) < 16"
    by (simp add: take_bit_eq_mod unat_mod)
  show "push_bit 4 (drop_bit 4 b) OR (b AND 15) = b"
    by (rule bit_word_eqI) (auto simp: bit_simps \<open>b AND 15 = take_bit 4 b\<close>)
qed

lemma hex_Decode_encode [simp]: "hex_Decode (string_bytes (hex_encode bs)) = Inr bs"
  by (induction bs)
    (simp_all add: hex_encode_def hex_byte_def string_bytes_def hex_digit_value nibbles)

lemma hex_Decode_padded:
  "0 < k \<Longrightarrow> hex_Decode (bs @ replicate k 0) \<noteq> Inr r"
proof (induction bs arbitrary: r rule: hex_Decode.induct)
  case 1
  then show ?case by (cases k; cases "k - 1") auto
next
  case (2 a)
  then show ?case by (cases k) (auto split: option.splits)
next
  case (3 a b rest)
  then show ?case by (cases "hex_Decode (rest @ replicate k 0)") (auto split: option.splits)
qed

lemma length_hex_Decode: "hex_Decode bs = Inr r \<Longrightarrow> length bs = 2 * length r"
proof (induction bs arbitrary: r rule: hex_Decode.induct)
  case (3 a b rest)
  then obtain x y r' where "fromHexChar a = Some x" "fromHexChar b = Some y" "hex_Decode rest = Inr r'"
    "r = (push_bit 4 x OR y) # r'"
    by (cases "hex_Decode rest") (auto split: option.splits)
  with 3 show ?case by simp
qed (auto split: option.splits)

section \<open>What a text encoding promises\<close>

text \<open>The contract the two encodings share: decoding gives the bytes back, so no two texts are the same.\<close>

locale text_codec =
  fixes enc :: "bytes \<Rightarrow> string" and dec :: "string \<Rightarrow> 'e + bytes"
  assumes dec_enc: "dec (enc b) = Inr b"
begin

lemma enc_inject: "enc a = enc b \<longleftrightarrow> a = b"
  by (metis dec_enc sum.inject(2))

lemma enc_empty: "enc [] = [] \<Longrightarrow> b \<noteq> [] \<Longrightarrow> enc b \<noteq> []"
  by (metis enc_inject)

end

definition hex_DecodeString :: "string \<Rightarrow> hex_error + bytes" where
  "hex_DecodeString s = hex_Decode (string_bytes s)"

definition b64_DecodeString :: "string \<Rightarrow> unit + bytes" where
  "b64_DecodeString s = (case b64_decode s of None \<Rightarrow> Inl () | Some b \<Rightarrow> Inr b)"

interpretation hex: text_codec hex_encode hex_DecodeString
  by unfold_locales (simp add: hex_DecodeString_def)

interpretation b64: text_codec b64_encode b64_DecodeString
  by unfold_locales (simp add: b64_DecodeString_def)

end
