(* ===== verification/Client_Keys.thy ===== *)
theory Client_Keys
  imports Net_Address Go_Codec
begin

text \<open>
  client/keys.go: the identities of the clients, their private keys, the self-signature, the
  derivation of the secret scalar and the TOML form of keys and groups. The standard library's
  \<open>encoding/base64\<close> (in Go\_Codec) and \<open>encoding/binary\<close> are modelled; the cryptographic packages
  (\<open>ed25519\<close>, \<open>sha512\<close>, \<open>kyber\<close>, \<open>extra25519\<close>) and the TOML decoder are arguments.
\<close>

section \<open>Integers in little-endian order\<close>

definition le64 :: "uint64 \<Rightarrow> bytes" where
  "le64 w = map (\<lambda>k. ucast (drop_bit (8 * k) w)) [0..<8]"

lemma length_le64 [simp]: "length (le64 w) = 8"
  by (simp add: le64_def)

lemma le64_inject: "le64 v = le64 w \<longleftrightarrow> v = w"
proof
  assume eq: "le64 v = le64 w"
  have "bit v n = bit w n" if "n < 64" for n
  proof -
    have "le64 v ! (n div 8) = le64 w ! (n div 8)" by (simp add: eq)
    then have "(ucast (drop_bit (8 * (n div 8)) v) :: byte) = ucast (drop_bit (8 * (n div 8)) w)"
      using that by (simp add: le64_def less_mult_imp_div_less)
    then have "bit (ucast (drop_bit (8 * (n div 8)) v) :: byte) (n mod 8) = bit (ucast (drop_bit (8 * (n div 8)) w) :: byte) (n mod 8)"
      by simp
    then show ?thesis by (simp add: bit_simps that)
  qed
  then show "v = w" by (intro bit_word_eqI) simp
qed simp

fun le_value :: "bytes \<Rightarrow> nat" where
  "le_value [] = 0"
| "le_value (b # bs) = unat b + 256 * le_value bs"

lemma le_value_append: "le_value (xs @ ys) = le_value xs + 256 ^ length xs * le_value ys"
  by (induction xs) (auto simp: algebra_simps)

lemma le_value_less: "le_value bs < 256 ^ length bs"
proof (induction bs)
  case (Cons b bs)
  have "unat b + 256 * le_value bs < 256 * Suc (le_value bs)" using unat_byte_less[of b] by simp
  also have "\<dots> \<le> 256 * 256 ^ length bs" using Cons by (intro mult_le_mono2) simp
  finally show ?case by simp
qed simp

section \<open>Identities and private keys\<close>

datatype keys_error = Err_base64 | Err_toml string | Err_generate string | Err_point string

record Identity =
  id_Name :: string
  id_Key :: bytes
  id_CreatedAt :: uint64
  id_Signature :: bytes
  id_Address :: Address

record Private =
  pr_seed :: bytes
  pr_Public :: Identity

text \<open>\<open>ID\<close>: the first 16 hexadecimal digits of the key; slicing fewer digits panics (\<open>None\<close>).\<close>

definition Identity_ID :: "Identity \<Rightarrow> string option" where
  "Identity_ID i =
     (if length (hex_encode (id_Key i)) < 16 then None else Some (take 16 (hex_encode (id_Key i))))"

definition Identity_Repr :: "Identity \<Rightarrow> string" where
  "Identity_Repr i =
     ''id:'' @ [CHR 0x09] @ id_Name i @ '' '' @ [CHR 0x0A, CHR 0x09] @ b64_encode (id_Key i)"

text \<open>What \<open>selfsign\<close> signs, and the signature; \<open>sign\<close> is \<open>ed25519.Sign\<close>.\<close>

definition selfsign_payload :: "Identity \<Rightarrow> bytes" where
  "selfsign_payload i = string_bytes (id_Name i) @ le64 (id_CreatedAt i) @ id_Key i"

definition selfsign :: "(bytes \<Rightarrow> bytes \<Rightarrow> bytes) \<Rightarrow> Private \<Rightarrow> Identity \<Rightarrow> Identity" where
  "selfsign sign p i = i\<lparr>id_Signature := sign (pr_seed p) (selfsign_payload i)\<rparr>"

text \<open>
  \<open>NewPrivateIdentity\<close>: the error of \<open>GenerateKey\<close> is overwritten by that of
  \<open>selfsign\<close>, which has none; a nil key is then signed, and \<open>ed25519.Sign\<close> panics on it.
  \<open>gen\<close> is the outcome of \<open>GenerateKey\<close> and \<open>now\<close> the time.
\<close>

definition NewPrivateIdentity ::
  "(bytes \<Rightarrow> bytes \<Rightarrow> bytes) \<Rightarrow> string + bytes \<times> bytes \<Rightarrow> uint64 \<Rightarrow> string \<Rightarrow> (Private \<times> Identity) option" where
  "NewPrivateIdentity sign gen now name =
     (case gen of
        Inl err \<Rightarrow> None
      | Inr (pub, privEd) \<Rightarrow>
          (let i = \<lparr>id_Name = name, id_Key = pub, id_CreatedAt = now, id_Signature = [], id_Address = []\<rparr>;
               i' = selfsign sign \<lparr>pr_seed = privEd, pr_Public = i\<rparr> i
           in Some (\<lparr>pr_seed = privEd, pr_Public = i'\<rparr>, i')))"

text \<open>
  \<open>Scalar\<close>: the first half of the digest of the seed, clamped and decoded by the group; \<open>None\<close>
  when slicing the seed panics or the decoder fails. \<open>sha512\<close> gives 64 bytes.
\<close>

definition clamp :: "bytes \<Rightarrow> bytes" where
  "clamp digest =
     digest[0 := digest ! 0 AND 248, 31 := ((digest ! 31) AND 127) OR 64]"

definition Private_Scalar :: "(bytes \<Rightarrow> bytes) \<Rightarrow> (bytes \<Rightarrow> 's option) \<Rightarrow> Private \<Rightarrow> 's option" where
  "Private_Scalar sha512 unmarshal p =
     (if length (pr_seed p) < 32 then None
      else unmarshal (take 32 (clamp (sha512 (take 32 (pr_seed p))))))"

text \<open>\<open>Point\<close>: a key the group cannot decode is a panic.\<close>

definition Identity_Point :: "(bytes \<Rightarrow> 'p option) \<Rightarrow> Identity \<Rightarrow> 'p option" where
  "Identity_Point unmarshal i = unmarshal (id_Key i)"

text \<open>\<open>copy\<close> into a fixed-size array: the source is cut or the rest stays zero.\<close>

definition copy_array :: "nat \<Rightarrow> bytes \<Rightarrow> bytes" where
  "copy_array n b = take n b @ replicate (n - length b) 0"

definition ed25519PrivateToCurve25519 :: "(bytes \<Rightarrow> bytes) \<Rightarrow> bytes \<Rightarrow> bytes" where
  "ed25519PrivateToCurve25519 convert p = convert (copy_array 64 p)"

definition ed25519PublicToCurve25519 :: "(bytes \<Rightarrow> bytes option) \<Rightarrow> bytes \<Rightarrow> bytes option" where
  "ed25519PublicToCurve25519 convert p = convert (copy_array 32 p)"

definition Identity_PublicCurve25519 :: "(bytes \<Rightarrow> bytes option) \<Rightarrow> Identity \<Rightarrow> bytes option" where
  "Identity_PublicCurve25519 convert i = convert (copy_array 32 (id_Key i))"

definition PrivateCurve25519 :: "(bytes \<Rightarrow> bytes) \<Rightarrow> Private \<Rightarrow> bytes" where
  "PrivateCurve25519 convert p = ed25519PrivateToCurve25519 convert (pr_seed p)"

definition Private_PublicCurve25519 :: "(bytes \<Rightarrow> bytes) \<Rightarrow> (bytes \<Rightarrow> bytes) \<Rightarrow> Private \<Rightarrow> bytes" where
  "Private_PublicCurve25519 convert base_mult p = base_mult (PrivateCurve25519 convert p)"

section \<open>The TOML form\<close>

record privateToml = pt_Seed :: string

record identityToml =
  it_Name :: string
  it_Key :: string
  it_CreatedAt :: uint64
  it_Signature :: string
  it_Address :: string

definition Private_Toml :: "Private \<Rightarrow> privateToml" where
  "Private_Toml p = \<lparr>pt_Seed = b64_encode (pr_seed p)\<rparr>"

text \<open>\<open>FromToml\<close> on what \<open>toml.Decode\<close> returned. On an error of the decoder of base64 the seed is garbage.\<close>

definition Private_FromToml :: "Private \<Rightarrow> string + privateToml \<Rightarrow> keys_error + Private" where
  "Private_FromToml p decoded =
     (case decoded of
        Inl e \<Rightarrow> Inl (Err_toml e)
      | Inr pt \<Rightarrow>
          (case b64_decode (pt_Seed pt) of
             None \<Rightarrow> Inl Err_base64
           | Some seed \<Rightarrow> Inr (p\<lparr>pr_seed := seed\<rparr>)))"

definition Identity_Toml :: "Identity \<Rightarrow> identityToml" where
  "Identity_Toml i =
     \<lparr>it_Name = id_Name i, it_Key = b64_encode (id_Key i), it_CreatedAt = id_CreatedAt i,
      it_Signature = b64_encode (id_Signature i), it_Address = id_Address i\<rparr>"

definition Identity_FromToml :: "Identity \<Rightarrow> string + identityToml \<Rightarrow> keys_error + Identity" where
  "Identity_FromToml i decoded =
     (case decoded of
        Inl e \<Rightarrow> Inl (Err_toml e)
      | Inr it \<Rightarrow>
          (case b64_decode (it_Key it) of
             None \<Rightarrow> Inl Err_base64
           | Some public \<Rightarrow>
               (case b64_decode (it_Signature it) of
                  None \<Rightarrow> Inl Err_base64
                | Some signature \<Rightarrow>
                    Inr (i\<lparr>id_Name := it_Name it, id_Key := public, id_Address := it_Address it,
                           id_Signature := signature\<rparr>))))"

record 'point GroupConfig =
  gc_Name :: string
  gc_Email :: string
  gc_Comment :: string
  gc_Public :: "'point list"
  gc_Ids :: "Identity list"
  gc_T :: int
  gc_PgpID :: uint64
  gc_PgpPublic :: string

record groupConfigToml =
  gt_Name :: string
  gt_Email :: string
  gt_Comment :: string
  gt_Public :: "string list"
  gt_Ids :: "identityToml list"
  gt_T :: int
  gt_PgpID :: string
  gt_PgpPublic :: string

text \<open>The loop over the coefficients stops at the first that cannot be written.\<close>

fun points_toml :: "('point \<Rightarrow> string + string) \<Rightarrow> 'point list \<Rightarrow> keys_error + string list" where
  "points_toml pts [] = Inr []"
| "points_toml pts (p # ps) =
     (case pts p of
        Inl e \<Rightarrow> Inl (Err_point e)
      | Inr s \<Rightarrow> (case points_toml pts ps of Inl e \<Rightarrow> Inl e | Inr ss \<Rightarrow> Inr (s # ss)))"

definition GroupConfig_toml :: "('point \<Rightarrow> string + string) \<Rightarrow> 'point GroupConfig \<Rightarrow> keys_error + groupConfigToml" where
  "GroupConfig_toml pts g =
     (case points_toml pts (gc_Public g) of
        Inl e \<Rightarrow> Inl e
      | Inr publics \<Rightarrow>
          Inr \<lparr>gt_Name = gc_Name g, gt_Email = gc_Email g, gt_Comment = gc_Comment g, gt_Public = publics,
               gt_Ids = map Identity_Toml (gc_Ids g), gt_T = gc_T g, gt_PgpID = [], gt_PgpPublic = gc_PgpPublic g\<rparr>)"

section \<open>Properties of the keys\<close>

text \<open>A fresh, zero identity, which \<open>FromToml\<close> fills in.\<close>

definition zero_identity :: Identity where
  "zero_identity = \<lparr>id_Name = [], id_Key = [], id_CreatedAt = 0, id_Signature = [], id_Address = []\<rparr>"

text \<open>
  C33. The secret scalar is a clamped Ed25519 scalar whatever the digest is: the bytes the group
  decodes are 32, and as a little-endian integer they are a multiple of the cofactor 8 and lie between \<open>2 ^ 254\<close> and \<open>2 ^ 255\<close>.
\<close>

theorem scalar_clamped:
  assumes "32 \<le> length (pr_seed p)" and "length (sha512 (take 32 (pr_seed p))) = 64"
  shows "\<exists>sc. Private_Scalar sha512 unmarshal p = unmarshal sc \<and> length sc = 32 \<and> 8 dvd le_value sc \<and> 2 ^ 254 \<le> le_value sc \<and> le_value sc < 2 ^ 255"
proof -
  define d where "d = sha512 (take 32 (pr_seed p))"
  define x where "x = d ! 0 AND 248"
  define y where "y = ((d ! 31) AND 127) OR 64"
  define m where "m = take 30 (drop 1 d)"
  have len: "length d = 64" using assms(2) by (simp add: d_def)
  then have "take 32 (d[0 := x, 31 := y]) = x # m @ [y]"
    by (intro nth_equalityI) (auto simp: m_def nth_Cons nth_append nth_list_update split: nat.splits)
  then have bs: "Private_Scalar sha512 unmarshal p = unmarshal (x # m @ [y])"
    using assms(1) by (simp add: Private_Scalar_def clamp_def d_def x_def y_def)
  define sc where sc: "sc = x # m @ [y]"
  have m: "length m = 30" using len by (simp add: m_def)
  have "drop_bit 6 y = 1"
    by (simp add: y_def drop_bit_and drop_bit_or)
  moreover have "take_bit 8 (unat y) = unat y" using unat_byte_less[of y] by (simp add: take_bit_nat_eq_self)
  ultimately have "unat y div 64 = 1"
    using unsigned_drop_bit_eq[of 6 y, where ?'a = nat] by (simp add: drop_bit_eq_div)
  then have y: "64 \<le> unat y" "unat y < 128" by linarith+
  have "take_bit 3 x = 0"
    by (simp add: x_def take_bit_and)
  then have "unat x mod 8 = 0" using unsigned_take_bit_eq[of 3 x, where ?'a = nat] by (simp add: take_bit_eq_mod)
  then have "8 dvd le_value sc" by (auto simp: sc intro!: dvd_add dvd_mult2)
  moreover have v: "le_value sc = unat x + 256 * le_value m + 2 ^ 248 * unat y"
    by (simp add: sc le_value_append m)
  have "unat x + 256 * le_value m < 2 ^ 248" using le_value_less[of m] unat_byte_less[of x] by (simp add: m)
  then have "2 ^ 254 \<le> le_value sc" "le_value sc < 2 ^ 255" using y unfolding v by simp_all
  moreover have "length sc = 32" by (simp add: sc m)
  ultimately show ?thesis using bs unfolding sc by blast
qed

theorem scalar_clamped_witness:
  "\<exists>sc. Private_Scalar (\<lambda>_. replicate 64 255) Some \<lparr>pr_seed = replicate 64 1, pr_Public = zero_identity\<rparr> = Some sc \<and>
     8 dvd le_value sc \<and> le_value sc < 2 ^ 255"
  using scalar_clamped[of "\<lparr>pr_seed = replicate 64 1, pr_Public = zero_identity\<rparr>" "\<lambda>_. replicate 64 255" Some] by auto

text \<open>
  C36. The self-signature binds the identity: for keys of the same length, two identities with the
  same signed bytes have the same name, creation time and key, so no part of one field can be read as
  part of another.
\<close>

theorem selfsign_binds:
  assumes "length (id_Key i) = length (id_Key j)" and "selfsign_payload i = selfsign_payload j"
  shows "id_Name i = id_Name j \<and> id_CreatedAt i = id_CreatedAt j \<and> id_Key i = id_Key j"
proof -
  have "length (string_bytes (id_Name i)) = length (string_bytes (id_Name j))"
    using arg_cong[OF assms(2), of length] assms(1) by (simp add: selfsign_payload_def)
  with assms(2) have "string_bytes (id_Name i) = string_bytes (id_Name j)"
    "le64 (id_CreatedAt i) = le64 (id_CreatedAt j)" "id_Key i = id_Key j"
    by (auto simp: selfsign_payload_def)
  then show ?thesis by (simp add: le64_inject)
qed

theorem selfsign_binds_witness: "id_Name zero_identity = id_Name (zero_identity\<lparr>id_Address := ''tcp://a:1''\<rparr>)"
  using selfsign_binds[of zero_identity "zero_identity\<lparr>id_Address := ''tcp://a:1''\<rparr>"]
  by (simp add: selfsign_payload_def)

text \<open>
  The TOML form does not bring an identity back: whatever decoder returns the record that
  \<open>Toml\<close> produced, \<open>FromToml\<close> restores name, key, signature and address and leaves the creation
  time of the receiver, so on a fresh identity the bytes that were signed are restored exactly when the
  creation time was zero. The seed of a private key survives the same trip.
\<close>

theorem toml_roundtrip_loses_creation:
  "Identity_FromToml fresh (Inr (Identity_Toml i)) = Inr (i\<lparr>id_CreatedAt := id_CreatedAt fresh\<rparr>) \<and>
   (selfsign_payload (i\<lparr>id_CreatedAt := id_CreatedAt zero_identity\<rparr>) = selfsign_payload i \<longleftrightarrow> id_CreatedAt i = 0) \<and>
   Private_FromToml p' (Inr (Private_Toml p)) = Inr (p'\<lparr>pr_seed := pr_seed p\<rparr>)"
  by (auto simp: Identity_FromToml_def Identity_Toml_def selfsign_payload_def zero_identity_def le64_inject
      Private_FromToml_def Private_Toml_def)

text \<open>
  The TOML form of a group has the points and the identities of the group in order and its
  threshold, but its PGP identifier is always empty: two groups that differ only in \<open>PgpID\<close>
  have the same form.
\<close>

theorem group_toml_drops_pgp_id:
  "GroupConfig_toml pts (g\<lparr>gc_PgpID := n\<rparr>) = GroupConfig_toml pts g \<and>
   (case GroupConfig_toml pts g of
      Inr t \<Rightarrow> gt_PgpID t = [] \<and> map Inr (gt_Public t) = map pts (gc_Public g) \<and>
        gt_Ids t = map Identity_Toml (gc_Ids g) \<and> gt_T t = gc_T g
    | Inl e \<Rightarrow> \<exists>q \<in> set (gc_Public g). \<exists>s. pts q = Inl s)"
proof -
  have "case points_toml pts ps of Inr ss \<Rightarrow> map Inr ss = map pts ps | Inl e \<Rightarrow> \<exists>q \<in> set ps. \<exists>s. pts q = Inl s" for ps
    by (induction ps) (auto split: sum.splits)
  from this[of "gc_Public g"] show ?thesis by (auto simp: GroupConfig_toml_def split: sum.splits)
qed

end
