(* ===== verification/Client_Reliable.thy ===== *)
theory Client_Reliable
  imports Go_Chan
begin

text \<open>
  client/stream.go, \<open>reliableStream\<close>: a stop-and-wait protocol over an unreliable stream. An
  endpoint numbers the packets it sends, repeats a packet until its acknowledgement comes or a
  budget is used up, acknowledges every data packet it gets and passes on those with a new number.
  The model has one function per step of the two goroutines of an endpoint: the caller of
  \<open>send\<close>, which waits between \<open>rs_send\<close> and its return, and \<open>stateMachine\<close>, which waits
  where it reads the stream or where it puts a value in a full queue. The underlying stream
  (\<open>stream.send\<close>, \<open>stream.receive\<close>) may lose, repeat and reorder packets, and its errors are
  arguments; a packet whose \<open>stream.send\<close> returned an error is not on the wire.
\<close>

section \<open>Packets and endpoints\<close>

text \<open>\<open>ReliableType\<close> of client/messages.go is a boolean with a name for each value.\<close>

datatype ReliableType = RELIABLE_DATA | RELIABLE_ACK

record ReliablePacket =
  rp_type :: ReliableType
  rp_sequence :: uint32
  rp_data :: bytes

datatype stream_error = ErrTimeout | ErrClosed | ErrStream string

definition MaxIncorrectMessages :: nat where "MaxIncorrectMessages = 100"
definition ReliableMessageBuffer :: nat where "ReliableMessageBuffer = 100"

text \<open>Where \<open>stateMachine\<close> is: reading, or putting a value in \<open>dataCh\<close> or \<open>ackCh\<close>.\<close>

datatype machine = Reading | Pushing_data bytes | Pushing_ack uint32 | Stopped

text \<open>
  The fields of the struct, the local \<open>lastAckd\<close> and the position of \<open>stateMachine\<close>, the call of
  \<open>send\<close> that holds \<open>sendMut\<close> with its loop counter, and four histories: the packets whose
  \<open>send\<close> began, the results of the calls, the packets with a new number \<open>stateMachine\<close> accepted, and
  the data \<open>receive\<close> has returned. \<open>errCh\<close> and \<open>done\<close> are only ever closed.
\<close>

record reliableStream =
  rs_sequence :: uint32
  rs_ackCh :: "uint32 gchan"
  rs_dataCh :: "bytes gchan"
  rs_errCh :: bool
  rs_done :: bool
  rs_globalErr :: "stream_error option"
  rs_lastAckd :: uint32
  rs_machine :: machine
  rs_sending :: "(ReliablePacket \<times> nat) option"
  hist_sent :: "(uint32 \<times> bytes) list"
  hist_results :: "(uint32 \<times> stream_error option) list"
  hist_accepted :: "(uint32 \<times> bytes) list"
  hist_read :: "bytes list"

definition newReliableStream :: reliableStream where
  "newReliableStream =
     \<lparr>rs_sequence = 0, rs_ackCh = make_chan ReliableMessageBuffer, rs_dataCh = make_chan ReliableMessageBuffer,
      rs_errCh = False, rs_done = False, rs_globalErr = None, rs_lastAckd = 0, rs_machine = Reading,
      rs_sending = None, hist_sent = [], hist_results = [], hist_accepted = [], hist_read = []\<rparr>"

section \<open>Operations\<close>

text \<open>\<open>setError\<close>: the first error stays.\<close>

definition setError :: "reliableStream \<Rightarrow> stream_error \<Rightarrow> reliableStream" where
  "setError r e =
     (if rs_globalErr r \<noteq> None then r else r\<lparr>rs_globalErr := Some e, rs_errCh := True\<rparr>)"

definition getError :: "reliableStream \<Rightarrow> stream_error option" where
  "getError r = rs_globalErr r"

text \<open>
  One round of \<open>stateMachine\<close> for a packet (or an error of the stream or of the decoder); the
  second argument is the result of sending the acknowledgement. The result has the packets put on
  the wire.
\<close>

definition stateMachine ::
  "reliableStream \<Rightarrow> string + ReliablePacket \<Rightarrow> string option \<Rightarrow> reliableStream \<times> ReliablePacket list" where
  "stateMachine r received send_err =
     (case received of
        Inl e \<Rightarrow> ((setError r (ErrStream e))\<lparr>rs_machine := Stopped\<rparr>, [])
      | Inr rp \<Rightarrow>
          (case rp_type rp of
             RELIABLE_DATA \<Rightarrow>
               (case send_err of
                  Some e \<Rightarrow> ((setError r (ErrStream e))\<lparr>rs_machine := Stopped\<rparr>, [])
                | None \<Rightarrow>
                    (if rp_sequence rp \<le> rs_lastAckd r then r
                     else r\<lparr>rs_lastAckd := rp_sequence rp, rs_machine := Pushing_data (rp_data rp),
                            hist_accepted := hist_accepted r @ [(rp_sequence rp, rp_data rp)]\<rparr>,
                     [\<lparr>rp_type = RELIABLE_ACK, rp_sequence = rp_sequence rp, rp_data = []\<rparr>]))
           | RELIABLE_ACK \<Rightarrow> (r\<lparr>rs_machine := Pushing_ack (rp_sequence rp)\<rparr>, [])))"

text \<open>The blocking sends \<open>r.dataCh <- rp.Data\<close> and \<open>r.ackCh <- rp.Sequence\<close>.\<close>

definition machine_push :: "reliableStream \<Rightarrow> reliableStream option" where
  "machine_push r =
     (case rs_machine r of
        Pushing_data d \<Rightarrow>
          (case chan_send (rs_dataCh r) d of
             Happens q \<Rightarrow> Some (r\<lparr>rs_dataCh := q, rs_machine := Reading\<rparr>) | _ \<Rightarrow> None)
      | Pushing_ack s \<Rightarrow>
          (case chan_send (rs_ackCh r) s of
             Happens q \<Rightarrow> Some (r\<lparr>rs_ackCh := q, rs_machine := Reading\<rparr>) | _ \<Rightarrow> None)
      | _ \<Rightarrow> None)"

text \<open>A call of \<open>send\<close> returns and releases \<open>sendMut\<close>; \<open>None\<close> is Go's nil.\<close>

definition send_returns :: "reliableStream \<Rightarrow> ReliablePacket \<Rightarrow> stream_error option \<Rightarrow> reliableStream" where
  "send_returns r packet res =
     r\<lparr>rs_sending := None, hist_results := hist_results r @ [(rp_sequence packet, res)]\<rparr>"

text \<open>\<open>send\<close> up to its loop.\<close>

definition rs_send :: "reliableStream \<Rightarrow> bytes \<Rightarrow> string option \<Rightarrow> reliableStream \<times> ReliablePacket list" where
  "rs_send r buf send_err =
     (let s = rs_sequence r + 1;
          packet = \<lparr>rp_type = RELIABLE_DATA, rp_sequence = s, rp_data = buf\<rparr>;
          r1 = r\<lparr>rs_sequence := s, hist_sent := hist_sent r @ [(s, buf)]\<rparr>
      in case send_err of
           Some e \<Rightarrow> (send_returns (setError r1 (ErrStream e)) packet (Some (ErrStream e)), [])
         | None \<Rightarrow> (r1\<lparr>rs_sending := Some (packet, 0)\<rparr>, [packet]))"

text \<open>The head of the loop: another round, or \<open>ErrTimeout\<close>.\<close>

definition next_round :: "reliableStream \<Rightarrow> ReliablePacket \<Rightarrow> nat \<Rightarrow> reliableStream" where
  "next_round r packet i =
     (if i < MaxIncorrectMessages then r\<lparr>rs_sending := Some (packet, i)\<rparr>
      else send_returns r packet (Some ErrTimeout))"

text \<open>
  One round of the loop of \<open>send\<close>, for the case of the \<open>select\<close> that is taken: an
  acknowledgement, the error signal, the stop signal, or the retry timer with the result of
  sending the packet again. \<open>None\<close>: no call is waiting, or the case is not ready.
\<close>

datatype wait_event = Got_ack | Saw_error | Saw_done | Retry "string option"

definition send_wait :: "reliableStream \<Rightarrow> wait_event \<Rightarrow> (reliableStream \<times> ReliablePacket list) option" where
  "send_wait r ev =
     (case rs_sending r of
        None \<Rightarrow> None
      | Some (packet, i) \<Rightarrow>
          (case ev of
             Got_ack \<Rightarrow>
               (case chan_recv (rs_ackCh r) of
                  Happens (Some ack, q) \<Rightarrow>
                    Some (if ack \<noteq> rp_sequence packet then next_round (r\<lparr>rs_ackCh := q\<rparr>) packet (i + 1)
                          else send_returns (r\<lparr>rs_ackCh := q\<rparr>) packet None, [])
                | _ \<Rightarrow> None)
           | Saw_error \<Rightarrow> if rs_errCh r then Some (send_returns r packet (getError r), []) else None
           | Saw_done \<Rightarrow> if rs_done r then Some (send_returns r packet (Some ErrClosed), []) else None
           | Retry None \<Rightarrow>
               Some (next_round r packet (i + (MaxIncorrectMessages + 9) div 10 + 1), [packet])
           | Retry (Some e) \<Rightarrow>
               Some (send_returns (setError r (ErrStream e)) packet (Some (ErrStream e)), [])))"

text \<open>\<open>receive\<close>: the outcomes Go may pick, the read timeout among them.\<close>

definition rs_receive :: "reliableStream \<Rightarrow> (reliableStream \<times> (stream_error option + bytes)) list" where
  "rs_receive r =
     (case chan_recv (rs_dataCh r) of
        Happens (Some d, q) \<Rightarrow> [(r\<lparr>rs_dataCh := q, hist_read := hist_read r @ [d]\<rparr>, Inr d)]
      | _ \<Rightarrow> []) @
     (if rs_errCh r then [(r, Inl (getError r))] else []) @
     (if rs_done r then [(r, Inl (Some ErrClosed))] else []) @
     [(r, Inl (Some ErrTimeout))]"

text \<open>
  All the data an endpoint has for its application, oldest first: what \<open>receive\<close> has returned, what
  waits in \<open>dataCh\<close>, and what \<open>stateMachine\<close> is about to put there.
\<close>

definition handed_up :: "reliableStream \<Rightarrow> bytes list" where
  "handed_up r =
     hist_read r @ chan_buf (rs_dataCh r) @ (case rs_machine r of Pushing_data d \<Rightarrow> [d] | _ \<Rightarrow> [])"

text \<open>\<open>close\<close> panics when it is called again.\<close>

definition rs_close :: "reliableStream \<Rightarrow> reliableStream chan_result" where
  "rs_close r = (if rs_done r then Panics else Happens (r\<lparr>rs_done := True\<rparr>))"

section \<open>Two endpoints and the wire\<close>

text \<open>
  The two ends are the two booleans. \<open>wire s\<close> has every packet the end \<open>s\<close> has ever put
  on the wire; the other end may be given any of them at any time, any number of times or never.
\<close>

datatype rs_event =
    Ev_call bytes "string option"
  | Ev_wait wait_event
  | Ev_packet ReliablePacket "string option"
  | Ev_stream_error string
  | Ev_push
  | Ev_receive nat
  | Ev_close

definition rs_step :: "reliableStream \<Rightarrow> rs_event \<Rightarrow> (reliableStream \<times> ReliablePacket list) option" where
  "rs_step r ev =
     (case ev of
        Ev_call buf e \<Rightarrow> if rs_sending r = None then Some (rs_send r buf e) else None
      | Ev_wait w \<Rightarrow> send_wait r w
      | Ev_packet p e \<Rightarrow> if rs_machine r = Reading then Some (stateMachine r (Inr p) e) else None
      | Ev_stream_error e \<Rightarrow> if rs_machine r = Reading then Some (stateMachine r (Inl e) None) else None
      | Ev_push \<Rightarrow> map_option (\<lambda>r'. (r', [])) (machine_push r)
      | Ev_receive k \<Rightarrow> if k < length (rs_receive r) then Some (fst (rs_receive r ! k), []) else None
      | Ev_close \<Rightarrow> (case rs_close r of Happens r' \<Rightarrow> Some (r', []) | _ \<Rightarrow> None))"

definition from_wire :: "rs_event \<Rightarrow> ReliablePacket list \<Rightarrow> bool" where
  "from_wire ev w = (case ev of Ev_packet p _ \<Rightarrow> p \<in> set w | _ \<Rightarrow> True)"

record session =
  ends :: "bool \<Rightarrow> reliableStream"
  wire :: "bool \<Rightarrow> ReliablePacket list"

definition new_session :: session where
  "new_session = \<lparr>ends = \<lambda>_. newReliableStream, wire = \<lambda>_. []\<rparr>"

inductive session_step :: "session \<Rightarrow> session \<Rightarrow> bool" where
  "rs_step (ends c s) ev = Some (r', out) \<Longrightarrow> from_wire ev (wire c (\<not> s)) \<Longrightarrow>
   session_step c \<lparr>ends = (ends c)(s := r'), wire = (wire c)(s := wire c s @ out)\<rparr>"

inductive session_reachable :: "session \<Rightarrow> bool" where
  start: "session_reachable new_session"
| step: "session_reachable c \<Longrightarrow> session_step c c' \<Longrightarrow> session_reachable c'"

section \<open>The invariant of one direction\<close>

text \<open>The number of a packet, without the wrap-around as long as fewer than \<open>2 ^ 32\<close> were sent.\<close>

definition numbered :: "(uint32 \<times> bytes) list \<Rightarrow> bool" where
  "numbered sent = (map fst sent = map (\<lambda>k. of_nat (Suc k)) [0..<length sent])"

text \<open>
  Sender \<open>a\<close>, receiver \<open>b\<close>, the packets \<open>w\<close> of the sender and \<open>v\<close> of the receiver.
\<close>

definition sender_ok :: "reliableStream \<Rightarrow> bool" where
  "sender_ok a =
     (numbered (hist_sent a) \<and> rs_sequence a = of_nat (length (hist_sent a)) \<and>
      (rs_errCh a \<longrightarrow> rs_globalErr a \<noteq> None) \<and>
      (\<forall>p i. rs_sending a = Some (p, i) \<longrightarrow> rp_type p = RELIABLE_DATA \<and>
         rp_sequence p = rs_sequence a \<and> (rp_sequence p, rp_data p) \<in> set (hist_sent a)))"

definition data_ok :: "reliableStream \<Rightarrow> ReliablePacket list \<Rightarrow> bool" where
  "data_ok a w =
     (\<forall>p \<in> set w. rp_type p = RELIABLE_DATA \<longrightarrow> (rp_sequence p, rp_data p) \<in> set (hist_sent a))"

definition receiver_ok :: "reliableStream \<Rightarrow> reliableStream \<Rightarrow> bool" where
  "receiver_ok a b =
     (set (hist_accepted b) \<subseteq> set (hist_sent a) \<and> sorted_wrt (<) (map fst (hist_accepted b)) \<and>
      rs_lastAckd b = (if hist_accepted b = [] then 0 else fst (last (hist_accepted b))) \<and>
      hist_read b @ chan_buf (rs_dataCh b) @
        (case rs_machine b of Pushing_data d \<Rightarrow> [d] | _ \<Rightarrow> []) = map snd (hist_accepted b))"

definition acks_ok :: "reliableStream \<Rightarrow> reliableStream \<Rightarrow> ReliablePacket list \<Rightarrow> bool" where
  "acks_ok a b v =
     ((\<forall>p \<in> set v. rp_type p = RELIABLE_ACK \<longrightarrow> 0 < rp_sequence p \<and> rp_sequence p \<le> rs_lastAckd b) \<and>
      (\<forall>s \<in> set (chan_buf (rs_ackCh a)). 0 < s \<and> s \<le> rs_lastAckd b) \<and>
      (\<forall>s. rs_machine a = Pushing_ack s \<longrightarrow> 0 < s \<and> s \<le> rs_lastAckd b) \<and>
      (\<forall>s. (s, None) \<in> set (hist_results a) \<longrightarrow> s \<in> fst ` set (hist_accepted b)))"

definition direction_ok :: "reliableStream \<Rightarrow> reliableStream \<Rightarrow> ReliablePacket list \<Rightarrow> ReliablePacket list \<Rightarrow> bool" where
  [inv_defs]: "direction_ok a b w v =
     (sender_ok a \<and> data_ok a w \<and> receiver_ok a b \<and> acks_ok a b v)"

text \<open>What \<open>setError\<close>, a return of \<open>send\<close> and the loop head leave alone.\<close>

lemma setError_frame [simp]:
  "rs_sequence (setError r e) = rs_sequence r" "rs_ackCh (setError r e) = rs_ackCh r"
  "rs_dataCh (setError r e) = rs_dataCh r" "rs_lastAckd (setError r e) = rs_lastAckd r"
  "rs_machine (setError r e) = rs_machine r" "rs_sending (setError r e) = rs_sending r"
  "hist_sent (setError r e) = hist_sent r" "hist_results (setError r e) = hist_results r"
  "hist_accepted (setError r e) = hist_accepted r" "hist_read (setError r e) = hist_read r"
  "\<exists>y. rs_globalErr (setError r e) = Some y"
  by (auto simp: setError_def)

lemma send_returns_frame [simp]:
  "rs_sequence (send_returns r p x) = rs_sequence r" "rs_ackCh (send_returns r p x) = rs_ackCh r"
  "rs_dataCh (send_returns r p x) = rs_dataCh r" "rs_lastAckd (send_returns r p x) = rs_lastAckd r"
  "rs_machine (send_returns r p x) = rs_machine r" "rs_sending (send_returns r p x) = None"
  "rs_errCh (send_returns r p x) = rs_errCh r" "rs_globalErr (send_returns r p x) = rs_globalErr r"
  "hist_sent (send_returns r p x) = hist_sent r" "hist_accepted (send_returns r p x) = hist_accepted r"
  "hist_results (send_returns r p x) = hist_results r @ [(rp_sequence p, x)]"
  "hist_read (send_returns r p x) = hist_read r"
  by (auto simp: send_returns_def)

lemma next_round_frame [simp]:
  "rs_sequence (next_round r p i) = rs_sequence r" "rs_ackCh (next_round r p i) = rs_ackCh r"
  "rs_dataCh (next_round r p i) = rs_dataCh r" "rs_lastAckd (next_round r p i) = rs_lastAckd r"
  "rs_machine (next_round r p i) = rs_machine r"
  "rs_errCh (next_round r p i) = rs_errCh r" "rs_globalErr (next_round r p i) = rs_globalErr r"
  "hist_sent (next_round r p i) = hist_sent r" "hist_accepted (next_round r p i) = hist_accepted r"
  "hist_read (next_round r p i) = hist_read r"
  by (auto simp: next_round_def)

lemma sent_range:
  assumes "numbered sent" and "length sent < 2 ^ 32" and "(s, d) \<in> set sent"
  shows "0 < s \<and> s \<le> of_nat (length sent)"
proof -
  have "s \<in> set (map fst sent)" using assms(3) by force
  then obtain k where "k < length sent" "s = of_nat (Suc k)"
    unfolding assms(1)[unfolded numbered_def] by auto
  then show ?thesis using assms(2)
    by (simp add: word_less_nat_alt word_le_nat_alt unat_of_nat_uint32 del: of_nat_Suc)
qed

lemma numbered_snoc: "numbered sent \<Longrightarrow> numbered (sent @ [(of_nat (length sent) + 1, d)])"
  by (simp add: numbered_def add.commute)

lemma lastAckd_range:
  assumes "sender_ok a" and "receiver_ok a b" and "length (hist_sent a) < 2 ^ 32"
  shows "rs_lastAckd b \<le> rs_sequence a"
proof (cases "hist_accepted b = []")
  case True
  with assms(2) show ?thesis by (simp add: receiver_ok_def)
next
  case False
  then have "last (hist_accepted b) \<in> set (hist_sent a)" using assms(2) by (auto simp: receiver_ok_def)
  then show ?thesis
    using assms False sent_range[of "hist_sent a" "fst (last (hist_accepted b))" "snd (last (hist_accepted b))"]
    by (simp add: receiver_ok_def sender_ok_def)
qed

text \<open>The step that makes \<open>send\<close> return nil: its packet has been accepted at the other end.\<close>

lemma ack_means_accepted:
  assumes "sender_ok a" and "receiver_ok a b" and "length (hist_sent a) < 2 ^ 32"
    and "rs_sending a = Some (p, i)" and "0 < rp_sequence p" and "rp_sequence p \<le> rs_lastAckd b"
  shows "rp_sequence p \<in> fst ` set (hist_accepted b)"
proof -
  have "rp_sequence p = rs_sequence a" using assms(1,4) by (auto simp: sender_ok_def)
  with lastAckd_range[OF assms(1-3)] assms(6) have "rp_sequence p = rs_lastAckd b" by simp
  with assms(2,5) show ?thesis by (auto simp: receiver_ok_def split: if_splits)
qed

section \<open>Steps of the sender\<close>

lemma receiver_ok_mono: "receiver_ok a b \<Longrightarrow> set (hist_sent a) \<subseteq> set (hist_sent a') \<Longrightarrow> receiver_ok a' b"
  by (auto simp: receiver_ok_def)

lemma data_ok_append:
  "data_ok a w \<Longrightarrow> set (hist_sent a) \<subseteq> set (hist_sent a') \<Longrightarrow>
   (\<And>p. p \<in> set out \<Longrightarrow> rp_type p = RELIABLE_DATA \<Longrightarrow> (rp_sequence p, rp_data p) \<in> set (hist_sent a')) \<Longrightarrow>
   data_ok a' (w @ out)"
  by (auto simp: data_ok_def)

lemma acks_ok_frame:
  "acks_ok a b v \<Longrightarrow> set (chan_buf (rs_ackCh a')) \<subseteq> set (chan_buf (rs_ackCh a)) \<Longrightarrow>
   (\<And>s. rs_machine a' = Pushing_ack s \<Longrightarrow> rs_machine a = Pushing_ack s) \<Longrightarrow>
   (\<And>s. (s, None) \<in> set (hist_results a') \<Longrightarrow> (s, None) \<in> set (hist_results a) \<or> s \<in> fst ` set (hist_accepted b)) \<Longrightarrow>
   acks_ok a' b v"
  unfolding acks_ok_def by blast

lemma sender_ok_frame:
  "sender_ok a \<Longrightarrow> hist_sent a' = hist_sent a \<Longrightarrow> rs_sequence a' = rs_sequence a \<Longrightarrow>
   (rs_errCh a' \<Longrightarrow> rs_errCh a \<or> rs_globalErr a' \<noteq> None) \<Longrightarrow> (rs_globalErr a \<noteq> None \<Longrightarrow> rs_globalErr a' \<noteq> None) \<Longrightarrow>
   (\<And>p i. rs_sending a' = Some (p, i) \<Longrightarrow> \<exists>j. rs_sending a = Some (p, j)) \<Longrightarrow> sender_ok a'"
  unfolding sender_ok_def by metis

text \<open>A step of \<open>a\<close> that adds nothing to its history of packets.\<close>

lemma sender_frame:
  assumes "direction_ok a b w v" and "hist_sent a' = hist_sent a"
    and "sender_ok a'" and "acks_ok a' b v"
    and "\<And>p. p \<in> set out \<Longrightarrow> rp_type p = RELIABLE_DATA \<Longrightarrow> (rp_sequence p, rp_data p) \<in> set (hist_sent a)"
  shows "direction_ok a' b (w @ out) v"
  using assms by (auto simp: direction_ok_def intro: receiver_ok_mono data_ok_append)

lemma sender_call:
  assumes "direction_ok a b w v" and "rs_send a buf e = (a', out)" and "rs_sending a = None"
  shows "direction_ok a' b (w @ out) v"
proof -
  let ?s = "rs_sequence a + 1"
  have sent: "hist_sent a' = hist_sent a @ [(?s, buf)]" "rs_sequence a' = ?s"
    and rest: "rs_ackCh a' = rs_ackCh a" "rs_machine a' = rs_machine a"
    and out: "set out \<subseteq> {\<lparr>rp_type = RELIABLE_DATA, rp_sequence = ?s, rp_data = buf\<rparr>}"
    and sending: "\<And>p i. rs_sending a' = Some (p, i) \<Longrightarrow> p = \<lparr>rp_type = RELIABLE_DATA, rp_sequence = ?s, rp_data = buf\<rparr>"
    and err: "rs_errCh a' \<Longrightarrow> rs_errCh a \<and> rs_globalErr a' = rs_globalErr a \<or> rs_globalErr a' \<noteq> None"
    and res: "\<And>s. (s, None) \<in> set (hist_results a') \<Longrightarrow> (s, None) \<in> set (hist_results a)"
    using assms(2) by (auto simp: rs_send_def Let_def split: option.splits)
  have a: "sender_ok a" "data_ok a w" "receiver_ok a b" "acks_ok a b v"
    using assms(1) by (auto simp: direction_ok_def)
  have "sender_ok a'"
    unfolding sender_ok_def sent
    using a(1) numbered_snoc[of "hist_sent a" buf] err sending by (auto simp: sender_ok_def)
  moreover have "data_ok a' (w @ out)" using a(2) out by (auto intro!: data_ok_append simp: sent)
  moreover have "receiver_ok a' b" using a(3) by (rule receiver_ok_mono) (simp add: sent subset_insertI)
  moreover have "acks_ok a' b v" using a(4) by (rule acks_ok_frame) (auto simp: rest dest: res)
  ultimately show ?thesis by (simp add: direction_ok_def)
qed

lemma sender_okD:
  "direction_ok a b w v \<Longrightarrow> sender_ok a" "direction_ok a b w v \<Longrightarrow> acks_ok a b v"
  "direction_ok a b w v \<Longrightarrow> receiver_ok a b" "direction_ok a b w v \<Longrightarrow> data_ok a w"
  by (auto simp: direction_ok_def)

lemma next_round_sending: "rs_sending (next_round r p i) = Some (p', j) \<Longrightarrow> p' = p"
  by (auto simp: next_round_def split: if_splits)

lemma next_round_results:
  "(s, None) \<in> set (hist_results (next_round r p i)) \<longleftrightarrow> (s, None) \<in> set (hist_results r)"
  by (auto simp: next_round_def)

text \<open>
  The outcome of a round of the loop: another round, a return with an error, or a return with
  nil after the acknowledgement of the packet, which is then the head of \<open>ackCh\<close>.
\<close>

lemma send_wait_cases:
  assumes "send_wait a ev = Some (a', out)" and "rs_errCh a \<longrightarrow> rs_globalErr a \<noteq> None"
    and p: "rs_sending a = Some (p, i)"
  obtains
    (again) r j where "set (chan_buf (rs_ackCh r)) \<subseteq> set (chan_buf (rs_ackCh a))" "r = a\<lparr>rs_ackCh := rs_ackCh r\<rparr>"
      "a' = next_round r p j" "set out \<subseteq> {p}"
  | (fails) r x e where "r = a \<or> r = setError a e" "x \<noteq> None" "a' = send_returns r p x" "out = []"
  | (acked) q where "chan_buf (rs_ackCh a) = rp_sequence p # chan_buf q"
      "a' = send_returns (a\<lparr>rs_ackCh := q\<rparr>) p None" "out = []"
proof (cases ev)
  case Got_ack
  then obtain ack q where q: "chan_recv (rs_ackCh a) = Happens (Some ack, q)"
    and a': "a' = (if ack \<noteq> rp_sequence p then next_round (a\<lparr>rs_ackCh := q\<rparr>) p (i + 1)
                   else send_returns (a\<lparr>rs_ackCh := q\<rparr>) p None)" "out = []"
    using assms(1) p by (auto simp: send_wait_def split: chan_result.splits option.splits)
  have buf: "chan_buf (rs_ackCh a) = ack # chan_buf q" using q by (rule chan_recv_SomeD)
  show ?thesis
  proof (cases "ack = rp_sequence p")
    case True
    with buf a' show ?thesis by (intro acked[of q]) auto
  next
    case False
    with buf a' show ?thesis by (intro again[of "a\<lparr>rs_ackCh := q\<rparr>" "i + 1"]) auto
  qed
next
  case Saw_error
  with assms show ?thesis by (intro fails[of a _ "getError a"]) (auto simp: send_wait_def getError_def split: if_splits)
next
  case Saw_done
  with assms show ?thesis by (intro fails[of a _ "Some ErrClosed"]) (auto simp: send_wait_def split: if_splits)
next
  case (Retry e)
  show ?thesis
  proof (cases e)
    case None
    with Retry assms show ?thesis
      by (intro again[of a "i + (MaxIncorrectMessages + 9) div 10 + 1"]) (auto simp: send_wait_def)
  next
    case (Some x)
    with Retry assms show ?thesis
      by (intro fails[of "setError a (ErrStream x)" "ErrStream x" "Some (ErrStream x)"]) (auto simp: send_wait_def)
  qed
qed

lemma sender_wait:
  assumes "direction_ok a b w v" and "send_wait a ev = Some (a', out)" and "length (hist_sent a) < 2 ^ 32"
  shows "direction_ok a' b (w @ out) v"
proof -
  have ok: "sender_ok a" "acks_ok a b v" "receiver_ok a b" using assms(1) by (auto simp: direction_ok_def)
  obtain p i where p: "rs_sending a = Some (p, i)"
    using assms(2) by (auto simp: send_wait_def split: option.splits)
  then have pk: "(rp_sequence p, rp_data p) \<in> set (hist_sent a)" using ok(1) by (auto simp: sender_ok_def)
  have "rs_errCh a \<longrightarrow> rs_globalErr a \<noteq> None" using ok(1) by (simp add: sender_ok_def)
  note facts = assms(2) this p
  show ?thesis
  proof (rule send_wait_cases[OF facts])
    fix r j
    assume again: "set (chan_buf (rs_ackCh r)) \<subseteq> set (chan_buf (rs_ackCh a))" "r = a\<lparr>rs_ackCh := rs_ackCh r\<rparr>"
      "a' = next_round r p j" "set out \<subseteq> {p}"
    have r: "hist_sent r = hist_sent a" "rs_sequence r = rs_sequence a" "rs_errCh r = rs_errCh a"
      "rs_globalErr r = rs_globalErr a" "rs_machine r = rs_machine a" "hist_results r = hist_results a"
      by (subst again(2), simp)+
    have "sender_ok a'" unfolding again(3)
      by (rule sender_ok_frame[OF ok(1)]) (auto simp: r p dest: next_round_sending)
    moreover have "acks_ok a' b v" unfolding again(3)
      by (rule acks_ok_frame[OF ok(2)]) (use again(1) in \<open>auto simp: r next_round_results\<close>)
    ultimately show ?thesis using again(4) pk
      by (intro sender_frame[OF assms(1)]) (auto simp: again(3) r)
  next
    fix r x e
    assume fails: "r = a \<or> r = setError a e" "x \<noteq> None" "a' = send_returns r p x" "out = []"
    have "sender_ok a'" unfolding fails(3)
      by (rule sender_ok_frame[OF ok(1)]) (use fails(1) in auto)
    moreover have "acks_ok a' b v" unfolding fails(3)
      by (rule acks_ok_frame[OF ok(2)]) (use fails(1,2) in auto)
    ultimately show ?thesis using fails by (intro sender_frame[OF assms(1)]) auto
  next
    fix q
    assume acked: "chan_buf (rs_ackCh a) = rp_sequence p # chan_buf q"
      "a' = send_returns (a\<lparr>rs_ackCh := q\<rparr>) p None" "out = []"
    have "0 < rp_sequence p \<and> rp_sequence p \<le> rs_lastAckd b" using ok(2) acked(1) by (auto simp: acks_ok_def)
    then have "rp_sequence p \<in> fst ` set (hist_accepted b)"
      using ack_means_accepted[OF ok(1,3) assms(3) p] by blast
    then have "acks_ok a' b v" unfolding acked(2)
      by (intro acks_ok_frame[OF ok(2)]) (use acked(1) in auto)
    moreover have "sender_ok a'" unfolding acked(2) by (rule sender_ok_frame[OF ok(1)]) auto
    ultimately show ?thesis using acked by (intro sender_frame[OF assms(1)]) auto
  qed
qed

lemma sender_machine:
  assumes "direction_ok a b w v" and "stateMachine a (Inr p) e = (a', out)" and "p \<in> set v"
  shows "direction_ok a' b (w @ out) v"
proof (rule sender_frame[OF assms(1)])
  have ok: "sender_ok a" "acks_ok a b v" using assms(1) by (auto simp: direction_ok_def)
  show "hist_sent a' = hist_sent a"
    using assms(2) by (auto simp: stateMachine_def split: ReliableType.splits option.splits if_splits)
  show "sender_ok a'"
    using assms(2) by (intro sender_ok_frame[OF ok(1)])
      (auto simp: stateMachine_def split: ReliableType.splits option.splits if_splits)
  show "acks_ok a' b v"
  proof (cases "rp_type p")
    case RELIABLE_DATA
    then show ?thesis using assms(2)
      by (intro acks_ok_frame[OF ok(2)]) (auto simp: stateMachine_def split: option.splits if_splits)
  next
    case RELIABLE_ACK
    then show ?thesis using assms(2,3) ok(2) by (auto simp: stateMachine_def acks_ok_def)
  qed
  show "\<And>x. x \<in> set out \<Longrightarrow> rp_type x = RELIABLE_DATA \<Longrightarrow> (rp_sequence x, rp_data x) \<in> set (hist_sent a)"
    using assms(2) by (auto simp: stateMachine_def split: ReliableType.splits option.splits if_splits)
qed

lemma sender_error:
  assumes "direction_ok a b w v" and "stateMachine a (Inl e) x = (a', out)"
  shows "direction_ok a' b (w @ out) v"
proof (rule sender_frame[OF assms(1)])
  show "sender_ok a'"
    using assms(2) by (intro sender_ok_frame[OF sender_okD(1)[OF assms(1)]]) (auto simp: stateMachine_def)
  show "acks_ok a' b v"
    using assms(2) by (intro acks_ok_frame[OF sender_okD(2)[OF assms(1)]]) (auto simp: stateMachine_def)
qed (use assms(2) in \<open>auto simp: stateMachine_def\<close>)

lemma sender_push:
  assumes "direction_ok a b w v" and "machine_push a = Some a'"
  shows "direction_ok a' b w v"
proof -
  have ok: "sender_ok a" "acks_ok a b v" using assms(1) by (auto simp: direction_ok_def)
  have "sender_ok a'" using assms(2)
    by (intro sender_ok_frame[OF ok(1)]) (auto simp: machine_push_def split: machine.splits chan_result.splits)
  moreover have "acks_ok a' b v" using assms(2) ok(2)
    by (auto simp: machine_push_def acks_ok_def split: machine.splits chan_result.splits dest!: chan_send_HappensD(1))
  moreover have "hist_sent a' = hist_sent a"
    using assms(2) by (auto simp: machine_push_def split: machine.splits chan_result.splits)
  ultimately show ?thesis using sender_frame[OF assms(1), of a' "[]"] by simp
qed

text \<open>Steps that concern neither the packets sent nor their acknowledgements.\<close>

lemma sender_other:
  assumes "direction_ok a b w v"
    and "a' = a\<lparr>rs_dataCh := q, hist_read := h\<rparr> \<or> a' = a\<lparr>rs_done := d\<rparr> \<or> a' = a"
  shows "direction_ok a' b w v"
proof -
  have "direction_ok (a\<lparr>rs_dataCh := q, hist_read := h\<rparr>) b w v = direction_ok a b w v"
    "direction_ok (a\<lparr>rs_done := d\<rparr>) b w v = direction_ok a b w v"
    unfolding direction_ok_def sender_ok_def data_ok_def receiver_ok_def acks_ok_def by simp_all
  with assms show ?thesis by metis
qed

section \<open>Steps of the receiver\<close>

lemma acks_ok_receiver:
  "acks_ok a b v \<Longrightarrow> rs_lastAckd b \<le> rs_lastAckd b' \<Longrightarrow> set (hist_accepted b) \<subseteq> set (hist_accepted b') \<Longrightarrow>
   (\<And>p. p \<in> set out \<Longrightarrow> rp_type p = RELIABLE_ACK \<Longrightarrow> 0 < rp_sequence p \<and> rp_sequence p \<le> rs_lastAckd b') \<Longrightarrow>
   acks_ok a b' (v @ out)"
  unfolding acks_ok_def by (fastforce intro: order_trans)

lemma receiver_ok_frame:
  "receiver_ok a b \<Longrightarrow> hist_accepted b' = hist_accepted b \<Longrightarrow> rs_lastAckd b' = rs_lastAckd b \<Longrightarrow>
   hist_read b' @ chan_buf (rs_dataCh b') @ (case rs_machine b' of Pushing_data d \<Rightarrow> [d] | _ \<Rightarrow> []) =
   hist_read b @ chan_buf (rs_dataCh b) @ (case rs_machine b of Pushing_data d \<Rightarrow> [d] | _ \<Rightarrow> []) \<Longrightarrow>
   receiver_ok a b'"
  by (simp add: receiver_ok_def)

text \<open>A step of \<open>b\<close> that passes nothing on and sends no acknowledgement.\<close>

lemma receiver_frame:
  assumes "direction_ok a b w v" and "hist_accepted b' = hist_accepted b" and "rs_lastAckd b' = rs_lastAckd b"
    and "hist_read b' @ chan_buf (rs_dataCh b') @ (case rs_machine b' of Pushing_data d \<Rightarrow> [d] | _ \<Rightarrow> []) =
      hist_read b @ chan_buf (rs_dataCh b) @ (case rs_machine b of Pushing_data d \<Rightarrow> [d] | _ \<Rightarrow> [])"
    and "\<And>p. p \<in> set out \<Longrightarrow> rp_type p \<noteq> RELIABLE_ACK"
  shows "direction_ok a b' w (v @ out)"
  using assms receiver_ok_frame[of a b b'] acks_ok_receiver[of a b v b' out] by (auto simp: direction_ok_def)

lemma rs_send_frame:
  assumes "rs_send b buf e = (b', out)"
  shows "hist_accepted b' = hist_accepted b" "rs_lastAckd b' = rs_lastAckd b" "hist_read b' = hist_read b"
    "rs_dataCh b' = rs_dataCh b" "rs_machine b' = rs_machine b" "\<And>p. p \<in> set out \<Longrightarrow> rp_type p = RELIABLE_DATA"
  using assms by (auto simp: rs_send_def Let_def split: option.splits)

lemma send_wait_frame:
  assumes "send_wait b ev = Some (b', out)" and "sender_ok b"
  shows "hist_accepted b' = hist_accepted b \<and> rs_lastAckd b' = rs_lastAckd b \<and> hist_read b' = hist_read b \<and>
    rs_dataCh b' = rs_dataCh b \<and> rs_machine b' = rs_machine b \<and> (\<forall>p \<in> set out. rp_type p = RELIABLE_DATA)"
proof -
  obtain p i where p: "rs_sending b = Some (p, i)"
    using assms(1) by (auto simp: send_wait_def split: option.splits)
  then have pk: "rp_type p = RELIABLE_DATA" using assms(2) by (auto simp: sender_ok_def)
  have "rs_errCh b \<longrightarrow> rs_globalErr b \<noteq> None" using assms(2) by (simp add: sender_ok_def)
  note facts = assms(1) this p
  show ?thesis
  proof (rule send_wait_cases[OF facts])
    fix r j assume r: "r = b\<lparr>rs_ackCh := rs_ackCh r\<rparr>" and "b' = next_round r p j" "set out \<subseteq> {p}"
    moreover have "hist_accepted r = hist_accepted b" "rs_lastAckd r = rs_lastAckd b" "hist_read r = hist_read b"
      "rs_dataCh r = rs_dataCh b" "rs_machine r = rs_machine b" by (subst r, simp)+
    ultimately show ?thesis using pk by auto
  qed (auto simp: pk)
qed

lemma receiver_machine:
  assumes "direction_ok a b w v" and "stateMachine b (Inr p) e = (b', out)" and "p \<in> set w"
    and "rs_machine b = Reading" and "length (hist_sent a) < 2 ^ 32"
  shows "direction_ok a b' w (v @ out)"
proof (cases "rp_type p = RELIABLE_DATA \<and> e = None")
  case False
  with assms(2,4) show ?thesis
    by (intro receiver_frame[OF assms(1)])
      (auto simp: stateMachine_def split: ReliableType.splits option.splits)
next
  case True
  let ?new = "rs_lastAckd b < rp_sequence p"
  have out: "out = [\<lparr>rp_type = RELIABLE_ACK, rp_sequence = rp_sequence p, rp_data = []\<rparr>]"
    and b': "b' = (if \<not> ?new then b
       else b\<lparr>rs_lastAckd := rp_sequence p, rs_machine := Pushing_data (rp_data p),
              hist_accepted := hist_accepted b @ [(rp_sequence p, rp_data p)]\<rparr>)"
    using assms(2) True by (auto simp: stateMachine_def not_le split: if_splits)
  have ok: "sender_ok a" "acks_ok a b v" "receiver_ok a b" "data_ok a w"
    using assms(1) by (auto simp: direction_ok_def)
  have pk: "(rp_sequence p, rp_data p) \<in> set (hist_sent a)" using ok(4) assms(3) True by (auto simp: data_ok_def)
  then have "0 < rp_sequence p" using sent_range[of "hist_sent a"] ok(1) assms(5) by (auto simp: sender_ok_def)
  then have "acks_ok a b' (v @ out)"
    by (intro acks_ok_receiver[OF ok(2)]) (auto simp: b' out not_less)
  moreover have "x \<le> rs_lastAckd b" if "(x, d) \<in> set (hist_accepted b)" for x d
    using ok(3) that sorted_wrt_nth_less[of "(<)" "map fst (hist_accepted b)"]
    by (auto simp: receiver_ok_def last_conv_nth in_set_conv_nth split: if_splits)
      (metis (no_types, lifting) diff_Suc_less fst_conv length_greater_0_conv length_map less_imp_le
        less_Suc_eq Suc_pred nth_map order_refl list.size(3))
  then have "x < rp_sequence p" if "(x, d) \<in> set (hist_accepted b)" and ?new for x d
    using that le_less_trans by blast
  then have "receiver_ok a b'" using ok(3) pk assms(4) by (auto simp: b' receiver_ok_def sorted_wrt_append)
  ultimately show ?thesis using ok by (simp add: direction_ok_def)
qed

lemma receiver_push:
  assumes "direction_ok a b w v" and "machine_push b = Some b'"
  shows "direction_ok a b' w v"
  using receiver_frame[OF assms(1), of b' "[]"] assms(2)
  by (auto simp: machine_push_def split: machine.splits chan_result.splits dest!: chan_send_HappensD(1))

section \<open>The invariant of a session\<close>

text \<open>The outcomes of \<open>receive\<close> change the state only by taking the head of \<open>dataCh\<close>.\<close>

lemma rs_receive_cases:
  assumes "(r', res) \<in> set (rs_receive r)"
  shows "r' = r \<or> (\<exists>d q. chan_buf (rs_dataCh r) = d # chan_buf q \<and>
    r' = r\<lparr>rs_dataCh := q, hist_read := hist_read r @ [d]\<rparr>)"
  using assms
  by (auto simp: rs_receive_def split: chan_result.splits option.splits if_splits)
    (metis chan_recv_SomeD(1))

lemma step_sender:
  assumes "direction_ok a b w v" and "rs_step a ev = Some (a', out)" and "from_wire ev v"
    and "length (hist_sent a) < 2 ^ 32"
  shows "direction_ok a' b (w @ out) v"
proof (cases ev)
  case (Ev_call buf e)
  with assms show ?thesis by (auto simp: rs_step_def split: if_splits intro: sender_call)
next
  case (Ev_wait wv)
  with assms show ?thesis by (auto simp: rs_step_def intro: sender_wait)
next
  case (Ev_packet p e)
  with assms show ?thesis by (auto simp: rs_step_def from_wire_def split: if_splits intro: sender_machine)
next
  case (Ev_stream_error e)
  with assms show ?thesis by (auto simp: rs_step_def split: if_splits intro: sender_error)
next
  case Ev_push
  with assms show ?thesis by (auto simp: rs_step_def intro: sender_push)
next
  case (Ev_receive k)
  then have "(a', snd (rs_receive a ! k)) \<in> set (rs_receive a)" "out = []"
    using assms(2) nth_mem[of k "rs_receive a"] by (auto simp: rs_step_def split: if_splits)
  with rs_receive_cases[OF this(1)] show ?thesis using sender_other[OF assms(1)] by fastforce
next
  case Ev_close
  with assms show ?thesis
    by (auto simp: rs_step_def rs_close_def split: if_splits intro!: sender_other[OF assms(1)])
qed

lemma step_receiver:
  assumes "direction_ok a b w v" and "rs_step b ev = Some (b', out)" and "from_wire ev w"
    and "length (hist_sent a) < 2 ^ 32" and "sender_ok b"
  shows "direction_ok a b' w (v @ out)"
proof (cases ev)
  case (Ev_call buf e)
  then have "rs_send b buf e = (b', out)" using assms(2) by (auto simp: rs_step_def split: if_splits)
  note frame = rs_send_frame[OF this]
  show ?thesis by (rule receiver_frame[OF assms(1)]) (auto simp: frame dest: frame(6))
next
  case (Ev_wait wv)
  then have "send_wait b wv = Some (b', out)" using assms(2) by (simp add: rs_step_def)
  note frame = send_wait_frame[OF this assms(5)]
  show ?thesis by (rule receiver_frame[OF assms(1)]) (use frame in auto)
next
  case (Ev_packet p e)
  with assms show ?thesis by (auto simp: rs_step_def from_wire_def split: if_splits intro: receiver_machine)
next
  case (Ev_stream_error e)
  with assms(2) show ?thesis
    by (intro receiver_frame[OF assms(1)]) (auto simp: rs_step_def stateMachine_def split: if_splits)
next
  case Ev_push
  with assms show ?thesis by (auto simp: rs_step_def intro: receiver_push)
next
  case (Ev_receive k)
  then have "(b', snd (rs_receive b ! k)) \<in> set (rs_receive b)" "out = []"
    using assms(2) nth_mem[of k "rs_receive b"] by (auto simp: rs_step_def split: if_splits)
  with rs_receive_cases[OF this(1)] show ?thesis
    by (intro receiver_frame[OF assms(1)]) auto
next
  case Ev_close
  with assms(2) show ?thesis
    by (intro receiver_frame[OF assms(1)]) (auto simp: rs_step_def rs_close_def split: if_splits)
qed

definition session_ok :: "session \<Rightarrow> bool" where
  "session_ok c = (\<forall>s. direction_ok (ends c s) (ends c (\<not> s)) (wire c s) (wire c (\<not> s)))"

lemma hist_sent_mono: "rs_step r ev = Some (r', out) \<Longrightarrow> length (hist_sent r) \<le> length (hist_sent r')"
proof (cases ev)
  case (Ev_wait w)
  then show "rs_step r ev = Some (r', out) \<Longrightarrow> ?thesis"
    by (auto simp: rs_step_def send_wait_def split: option.splits wait_event.splits chan_result.splits if_splits)
next
  case (Ev_receive k)
  then show "rs_step r ev = Some (r', out) \<Longrightarrow> ?thesis"
    using rs_receive_cases[of r' "snd (rs_receive r ! k)" r] nth_mem[of k "rs_receive r"]
    by (auto simp: rs_step_def split: if_splits)
qed (auto simp: rs_step_def rs_send_def stateMachine_def machine_push_def rs_close_def Let_def
    split: option.splits if_splits ReliableType.splits machine.splits chan_result.splits)

lemma session_step_ok:
  assumes "session_step c c'" and "session_ok c" and "\<And>s. length (hist_sent (ends c s)) < 2 ^ 32"
  shows "session_ok c'"
  using assms(1)
proof cases
  case (1 s ev r' out)
  let ?a = "ends c s" and ?b = "ends c (\<not> s)"
  have ok: "direction_ok ?a ?b (wire c s) (wire c (\<not> s))" "direction_ok ?b ?a (wire c (\<not> s)) (wire c s)"
    using assms(2) by (auto simp: session_ok_def dest: spec[of _ "\<not> s"])
  have "direction_ok r' ?b (wire c s @ out) (wire c (\<not> s))"
    by (rule step_sender[OF ok(1)]) (use 1 assms(3) in auto)
  moreover have "direction_ok ?b r' (wire c (\<not> s)) (wire c s @ out)"
    by (rule step_receiver[OF ok(2)]) (use 1 assms(3) ok in \<open>auto simp: direction_ok_def\<close>)
  ultimately show ?thesis using 1(1) unfolding session_ok_def
    by (intro allI; case_tac "sa = s") auto
qed

lemma session_reachable_ok:
  "session_reachable c \<Longrightarrow> (\<And>s. length (hist_sent (ends c s)) < 2 ^ 32) \<Longrightarrow> session_ok c"
proof (induction rule: session_reachable.induct)
  case start
  then show ?case
    by (simp add: session_ok_def new_session_def newReliableStream_def direction_ok_def sender_ok_def
        numbered_def data_ok_def receiver_ok_def acks_ok_def make_chan_def)
next
  case (step c c')
  have "length (hist_sent (ends c s)) \<le> length (hist_sent (ends c' s))" for s
    using step(2) by cases (auto dest: hist_sent_mono)
  then have "\<And>s. length (hist_sent (ends c s)) < 2 ^ 32" using step.prems le_less_trans by blast
  with step show ?case by (blast intro: session_step_ok)
qed

section \<open>From the invariant to sequences\<close>

lemma numbered_sorted:
  assumes "numbered sent" and "length sent < 2 ^ 32"
  shows "sorted_wrt (<) (map fst sent)"
  unfolding assms(1)[unfolded numbered_def] sorted_wrt_map
  using assms(2)
  by (intro sorted_wrt_mono_rel[OF _ sorted_wrt_upt])
    (auto simp: word_less_nat_alt unat_of_nat_uint32 simp del: of_nat_Suc)

lemma sorted_subset_subseq:
  "sorted_wrt (<) (map fst xs) \<Longrightarrow> sorted_wrt (<) (map fst ys) \<Longrightarrow> set xs \<subseteq> set ys \<Longrightarrow> subseq xs ys"
  for xs ys :: "('k :: linorder \<times> 'v) list"
proof (induction ys arbitrary: xs)
  case Nil
  then show ?case by simp
next
  case (Cons y ys)
  show ?case
  proof (cases xs)
    case Nil
    then show ?thesis by simp
  next
    case xs: (Cons x xs')
    have "fst y \<le> fst x" using Cons.prems(2,3) by (auto simp: xs less_imp_le)
    moreover have "\<forall>z \<in> set xs'. fst x < fst z" using Cons.prems(1) by (auto simp: xs)
    ultimately have "y \<notin> set xs'" by force
    then have "set xs' \<subseteq> set ys" "x \<noteq> y \<Longrightarrow> set xs \<subseteq> set ys" using Cons.prems(3) by (auto simp: xs)
    then show ?thesis using Cons.IH[of xs'] Cons.IH[of xs] Cons.prems(1,2) by (cases "x = y") (auto simp: xs)
  qed
qed

lemma distinct_count_list: "distinct xs \<Longrightarrow> x \<in> set xs \<Longrightarrow> count_list xs x = 1"
  by (induction xs) (auto simp: count_list_0_iff)

text \<open>Every call of \<open>send\<close> but the one in progress has one result, in the order of the calls.\<close>

definition results_ok :: "reliableStream \<Rightarrow> bool" where
  "results_ok r =
     (map fst (hist_results r) @ (case rs_sending r of None \<Rightarrow> [] | Some (p, _) \<Rightarrow> [rp_sequence p]) =
      map fst (hist_sent r))"

lemma results_ok_frame:
  "results_ok r \<Longrightarrow> hist_results r' = hist_results r \<Longrightarrow> rs_sending r' = rs_sending r \<Longrightarrow>
   hist_sent r' = hist_sent r \<Longrightarrow> results_ok r'"
  by (simp add: results_ok_def)

lemma rs_step_results:
  assumes "rs_step r ev = Some (r', out)" and "results_ok r"
  shows "results_ok r'"
proof (cases ev)
  case (Ev_call buf e)
  with assms show ?thesis
    by (auto simp: rs_step_def rs_send_def Let_def results_ok_def split: if_splits option.splits)
next
  case (Ev_wait w)
  have "results_ok (next_round r1 p j)" if "rs_sending r1 = Some (p, i)" "results_ok r1" for r1 p i j
    using that by (auto simp: next_round_def results_ok_def)
  moreover have "results_ok (send_returns r1 p x)" if "rs_sending r1 = Some (p, i)" "results_ok r1" for r1 p i x
    using that by (auto simp: results_ok_def)
  moreover have "results_ok (r\<lparr>rs_ackCh := q\<rparr>)" "results_ok (setError r e)" for q e
    using assms(2) by (auto simp: results_ok_def)
  ultimately show ?thesis using assms Ev_wait
    by (auto simp: rs_step_def send_wait_def split: option.splits wait_event.splits chan_result.splits if_splits)
next
  case (Ev_receive k)
  then have "(r', snd (rs_receive r ! k)) \<in> set (rs_receive r)"
    using assms(1) nth_mem[of k "rs_receive r"] by (auto simp: rs_step_def split: if_splits)
  with rs_receive_cases[OF this] assms(2) show ?thesis by (auto elim: results_ok_frame)
qed (use assms in \<open>auto simp: rs_step_def stateMachine_def machine_push_def rs_close_def
    split: option.splits if_splits ReliableType.splits machine.splits chan_result.splits elim!: results_ok_frame\<close>)

lemma session_results_ok: "session_reachable c \<Longrightarrow> results_ok (ends c s)"
proof (induction arbitrary: s rule: session_reachable.induct)
  case start
  then show ?case by (simp add: results_ok_def new_session_def newReliableStream_def)
next
  case (step c c')
  from step(2) show ?case by cases (auto intro: rs_step_results step.IH)
qed

section \<open>The budget of \<open>send\<close>\<close>

fun wait_rounds :: "reliableStream \<Rightarrow> wait_event list \<Rightarrow> (reliableStream \<times> ReliablePacket list) option" where
  "wait_rounds r [] = Some (r, [])"
| "wait_rounds r (ev # evs) =
     (case send_wait r ev of
        None \<Rightarrow> None
      | Some (r1, out) \<Rightarrow> map_option (\<lambda>(r2, out2). (r2, out @ out2)) (wait_rounds r1 evs))"

lemma wait_rounds_returned: "rs_sending r = None \<Longrightarrow> wait_rounds r evs = Some (r2, out) \<Longrightarrow> evs = [] \<and> out = []"
  by (cases evs) (auto simp: send_wait_def)

lemma send_wait_progress:
  assumes "rs_sending r = Some (p, i)" and "send_wait r ev = Some (r1, out)"
  shows "(rs_sending r1 = None \<or> (\<exists>j. rs_sending r1 = Some (p, j) \<and> i + 1 + 10 * length out \<le> j \<and> j < MaxIncorrectMessages)) \<and>
    length out \<le> 1"
  using assms
  by (auto simp: send_wait_def next_round_def MaxIncorrectMessages_def
      split: wait_event.splits option.splits chan_result.splits if_splits) auto

lemma wait_rounds_budget:
  "rs_sending r = Some (p, i) \<Longrightarrow> i < MaxIncorrectMessages \<Longrightarrow> wait_rounds r evs = Some (r2, out) \<Longrightarrow>
     i + length evs \<le> MaxIncorrectMessages \<and> i + 11 * length out \<le> MaxIncorrectMessages + 10"
proof (induction evs arbitrary: r i out)
  case Nil
  then show ?case by simp
next
  case (Cons ev evs)
  then obtain r1 o1 o2 where step: "send_wait r ev = Some (r1, o1)" and rest: "wait_rounds r1 evs = Some (r2, o2)"
    and out: "out = o1 @ o2" by (auto split: option.splits)
  from send_wait_progress[OF Cons.prems(1) step] show ?case
  proof (elim conjE disjE exE)
    assume "rs_sending r1 = None" "length o1 \<le> 1"
    with wait_rounds_returned[OF _ rest] Cons.prems(2) show ?thesis by (simp add: out)
  next
    fix j assume "length o1 \<le> 1" "rs_sending r1 = Some (p, j)" "i + 1 + 10 * length o1 \<le> j" "j < MaxIncorrectMessages"
    with Cons.IH[OF _ _ rest, of j] show ?thesis by (auto simp: out)
  qed
qed

section \<open>A run, for the witnesses\<close>

fun session_run :: "session \<Rightarrow> (bool \<times> rs_event) list \<Rightarrow> session option" where
  "session_run c [] = Some c"
| "session_run c ((s, ev) # evs) =
     (case rs_step (ends c s) ev of
        None \<Rightarrow> None
      | Some (r', out) \<Rightarrow>
          if from_wire ev (wire c (\<not> s))
          then session_run \<lparr>ends = (ends c)(s := r'), wire = (wire c)(s := wire c s @ out)\<rparr> evs
          else None)"

lemma session_run_reachable: "session_reachable c \<Longrightarrow> session_run c evs = Some c' \<Longrightarrow> session_reachable c'"
proof (induction c evs rule: session_run.induct)
  case (1 c)
  then show ?case by simp
next
  case (2 c s ev evs)
  then obtain r' out where step: "rs_step (ends c s) ev = Some (r', out)" "from_wire ev (wire c (\<not> s))"
    and rest: "session_run \<lparr>ends = (ends c)(s := r'), wire = (wire c)(s := wire c s @ out)\<rparr> evs = Some c'"
    by (auto split: option.splits if_splits)
  have "session_reachable \<lparr>ends = (ends c)(s := r'), wire = (wire c)(s := wire c s @ out)\<rparr>"
    using 2(2) session_step.intros[OF step] by (rule session_reachable.step)
  with 2(1)[OF step(1) refl step(2)] rest show ?case by blast
qed

text \<open>One packet is sent, accepted, acknowledged and read.\<close>

definition one_packet :: "(bool \<times> rs_event) list" where
  "one_packet =
     [(True, Ev_call [7] None), (False, Ev_packet \<lparr>rp_type = RELIABLE_DATA, rp_sequence = 1, rp_data = [7]\<rparr> None),
      (False, Ev_push), (True, Ev_packet \<lparr>rp_type = RELIABLE_ACK, rp_sequence = 1, rp_data = []\<rparr> None),
      (True, Ev_push), (True, Ev_wait Got_ack), (False, Ev_receive 0)]"

definition after_one_packet :: session where
  "after_one_packet = the (session_run new_session one_packet)"

lemmas run_defs = one_packet_def new_session_def newReliableStream_def rs_step_def from_wire_def rs_send_def
  send_wait_def send_returns_def stateMachine_def machine_push_def rs_receive_def make_chan_def chan_send_def
  chan_recv_def ReliableMessageBuffer_def Let_def

lemma after_one_packet_run: "session_run new_session one_packet = Some after_one_packet"
  by (simp add: after_one_packet_def run_defs)

lemma after_one_packet_eval [simp]:
  "hist_sent (ends after_one_packet True) = [(1, [7])]" "hist_sent (ends after_one_packet False) = []"
  "hist_results (ends after_one_packet True) = [(1, None)]" "rs_sending (ends after_one_packet True) = None"
  "hist_accepted (ends after_one_packet False) = [(1, [7])]" "rs_machine (ends after_one_packet False) = Reading"
  by (simp_all add: after_one_packet_def run_defs)

lemma after_one_packet_reachable: "session_reachable after_one_packet"
  using session_run_reachable[OF session_reachable.start after_one_packet_run] .

section \<open>Properties of the reliable stream\<close>

lemma session_delivery:
  assumes "session_reachable c" and "\<And>s. length (hist_sent (ends c s)) < 2 ^ 32"
  shows "subseq (hist_accepted (ends c (\<not> s))) (hist_sent (ends c s)) \<and>
    handed_up (ends c (\<not> s)) = map snd (hist_accepted (ends c (\<not> s))) \<and>
    (\<forall>n. (n, None) \<in> set (hist_results (ends c s)) \<longrightarrow> count_list (map fst (hist_accepted (ends c (\<not> s)))) n = 1)"
proof -
  let ?a = "ends c s" and ?b = "ends c (\<not> s)"
  have "direction_ok ?a ?b (wire c s) (wire c (\<not> s))"
    using session_reachable_ok[OF assms] by (simp add: session_ok_def)
  then have ok: "sender_ok ?a" "receiver_ok ?a ?b" "acks_ok ?a ?b (wire c (\<not> s))"
    by (auto simp: direction_ok_def)
  have sorted: "sorted_wrt (<) (map fst (hist_accepted ?b))" using ok(2) by (simp add: receiver_ok_def)
  then have "subseq (hist_accepted ?b) (hist_sent ?a)"
    using ok(1,2) assms(2) numbered_sorted[of "hist_sent ?a"]
    by (intro sorted_subset_subseq) (auto simp: sender_ok_def receiver_ok_def)
  moreover have "handed_up ?b = map snd (hist_accepted ?b)"
    using ok(2) unfolding receiver_ok_def handed_up_def by blast
  moreover have "count_list (map fst (hist_accepted ?b)) n = 1" if "(n, None) \<in> set (hist_results ?a)" for n
    using that ok(3) sorted by (intro distinct_count_list) (auto simp: acks_ok_def strict_sorted_iff)
  ultimately show ?thesis by blast
qed

lemma handed_up_read: "prefix (hist_read r) (handed_up r)"
  by (simp add: handed_up_def)

text \<open>What \<open>receive\<close> returns is the oldest of what was handed up and not yet read.\<close>

lemma rs_receive_next: "(r', Inr d) \<in> set (rs_receive r) \<Longrightarrow> prefix (hist_read r @ [d]) (handed_up r)"
  using chan_recv_SomeD(1)[of "rs_dataCh r"]
  by (cases "chan_recv (rs_dataCh r)") (auto simp: rs_receive_def handed_up_def split: option.splits)

text \<open>
  C2. Ordered delivery without duplicates, and no false success: over a network that may lose,
  repeat and reorder packets, as long as no end has sent \<open>2 ^ 32\<close> messages, the packets one end
  accepts are a subsequence of those the other end was asked to send; their data, and nothing else, is
  what \<open>receive\<close> has returned, what waits in \<open>dataCh\<close> and what is being put there, in this order; the
  next \<open>receive\<close> returns the first of it that was not read; and the packet of a \<open>send\<close> that returned
  nil has been accepted exactly once.
\<close>

theorem reliable_delivery:
  assumes "session_reachable c" and "\<And>s. length (hist_sent (ends c s)) < 2 ^ 32"
  shows "subseq (hist_accepted (ends c (\<not> s))) (hist_sent (ends c s)) \<and>
    hist_read (ends c (\<not> s)) @ chan_buf (rs_dataCh (ends c (\<not> s))) @
      (case rs_machine (ends c (\<not> s)) of Pushing_data d \<Rightarrow> [d] | _ \<Rightarrow> []) = map snd (hist_accepted (ends c (\<not> s))) \<and>
    (\<forall>r d. (r, Inr d) \<in> set (rs_receive (ends c (\<not> s))) \<longrightarrow>
       prefix (hist_read (ends c (\<not> s)) @ [d]) (map snd (hist_accepted (ends c (\<not> s))))) \<and>
    (\<forall>n. (n, None) \<in> set (hist_results (ends c s)) \<longrightarrow> count_list (map fst (hist_accepted (ends c (\<not> s)))) n = 1)"
  using session_delivery[OF assms, of s] rs_receive_next[of _ _ "ends c (\<not> s)"] unfolding handed_up_def by metis

theorem reliable_delivery_witness:
  "hist_read (ends after_one_packet False) @ chan_buf (rs_dataCh (ends after_one_packet False)) = [[7]] \<and>
   count_list (map fst (hist_accepted (ends after_one_packet False))) 1 = 1"
proof -
  have "length (hist_sent (ends after_one_packet s)) < 2 ^ 32" for s by (cases s) simp_all
  from reliable_delivery[OF after_one_packet_reachable this, of True] show ?thesis by simp
qed

text \<open>
  C3. When no call of \<open>send\<close> is in progress and every call has returned nil, the other end has for its
  application exactly the data that was sent, in the same order: read, in \<open>dataCh\<close>, or being put there.
\<close>

theorem all_nil_all_delivered:
  assumes "session_reachable c" and "\<And>s. length (hist_sent (ends c s)) < 2 ^ 32"
    and "rs_sending (ends c s) = None" and "\<forall>(n, res) \<in> set (hist_results (ends c s)). res = None"
  shows "hist_read (ends c (\<not> s)) @ chan_buf (rs_dataCh (ends c (\<not> s))) @
      (case rs_machine (ends c (\<not> s)) of Pushing_data d \<Rightarrow> [d] | _ \<Rightarrow> []) = map snd (hist_sent (ends c s))"
proof -
  let ?a = "ends c s" and ?b = "ends c (\<not> s)"
  have ok: "direction_ok ?a ?b (wire c s) (wire c (\<not> s))"
    using session_reachable_ok[OF assms(1,2)] by (simp add: session_ok_def)
  have sorted: "sorted_wrt (<) (map fst (hist_accepted ?b))" using ok by (simp add: direction_ok_def receiver_ok_def)
  have sorted_sent: "sorted_wrt (<) (map fst (hist_sent ?a))"
    using ok assms(2) by (auto simp: direction_ok_def sender_ok_def intro: numbered_sorted)
  note d = session_delivery[OF assms(1,2), of s]
  have "set (map fst (hist_results ?a)) \<subseteq> set (map fst (hist_accepted ?b))"
    using ok assms(4) by (auto simp: direction_ok_def acks_ok_def)
  moreover have "map fst (hist_results ?a) = map fst (hist_sent ?a)"
    using session_results_ok[OF assms(1), of s] assms(3) by (simp add: results_ok_def)
  ultimately have "card (set (map fst (hist_sent ?a))) \<le> card (set (map fst (hist_accepted ?b)))"
    by (intro card_mono) auto
  then have "length (hist_sent ?a) \<le> length (hist_accepted ?b)"
    using sorted sorted_sent by (simp add: strict_sorted_iff distinct_card flip: set_map)
  with conjunct1[OF d] have "hist_accepted ?b = hist_sent ?a"
    using list_emb_length[OF conjunct1[OF d]] by (simp add: subseq_same_length)
  then show ?thesis using d unfolding handed_up_def by simp
qed

theorem all_nil_all_delivered_witness:
  "hist_read (ends after_one_packet False) @ chan_buf (rs_dataCh (ends after_one_packet False)) = [[7]]"
proof -
  have "length (hist_sent (ends after_one_packet s)) < 2 ^ 32" for s by (cases s) simp_all
  from all_nil_all_delivered[OF after_one_packet_reachable this, of True] show ?thesis by simp
qed

text \<open>
  C19. \<open>send\<close> always ends: after its first transmission it takes at most
  \<open>MaxIncorrectMessages\<close> rounds of its loop and repeats the packet at most ten times. When
  nothing but the retry timer fires it repeats the packet exactly ten times and returns
  \<open>ErrTimeout\<close>.
\<close>

theorem send_budget:
  assumes "rs_send r buf None = (r1, [p])"
  shows "(wait_rounds r1 evs = Some (r2, out) \<longrightarrow> length evs \<le> MaxIncorrectMessages \<and> length out \<le> 10) \<and>
    wait_rounds r1 (replicate 10 (Retry None)) = Some (send_returns r1 p (Some ErrTimeout), replicate 10 p)"
proof -
  have p: "rs_sending r1 = Some (p, 0)" using assms by (auto simp: rs_send_def Let_def)
  have retry: "send_wait r (Retry None) = Some (next_round r p (11 + i), [p])" if "rs_sending r = Some (p, i)" for r i
    using that by (simp add: send_wait_def MaxIncorrectMessages_def)
  have "wait_rounds r (replicate (Suc k) (Retry None)) = Some (send_returns r1 p (Some ErrTimeout), replicate (Suc k) p)"
    if "r = r1\<lparr>rs_sending := Some (p, 99 - 11 * k)\<rparr>" "k \<le> 9" for r k
    using that
  proof (induction k arbitrary: r)
    case 0
    then show ?case by (simp add: retry next_round_def MaxIncorrectMessages_def send_returns_def)
  next
    case (Suc k)
    have "next_round r p (11 + (99 - 11 * Suc k)) = r1\<lparr>rs_sending := Some (p, 99 - 11 * k)\<rparr>"
      using Suc.prems by (auto simp: next_round_def MaxIncorrectMessages_def)
    with Suc.IH[of "r1\<lparr>rs_sending := Some (p, 99 - 11 * k)\<rparr>"] retry[of r "99 - 11 * Suc k"] Suc.prems
    show ?case by simp
  qed
  from this[of r1 9] p have "wait_rounds r1 (replicate 10 (Retry None)) = Some (send_returns r1 p (Some ErrTimeout), replicate 10 p)"
    by (simp add: eval_nat_numeral)
  with wait_rounds_budget[OF p, of evs r2 out] show ?thesis by (auto simp: MaxIncorrectMessages_def)
qed

theorem send_budget_witness:
  "\<exists>r1 p. rs_send newReliableStream [7] None = (r1, [p]) \<and>
     wait_rounds r1 (replicate 10 (Retry None)) = Some (send_returns r1 p (Some ErrTimeout), replicate 10 p)"
proof -
  obtain r1 p where send: "rs_send newReliableStream [7] None = (r1, [p])" by (simp add: rs_send_def Let_def)
  from send_budget[OF this] send show ?thesis by blast
qed

text \<open>
  The sequence numbers wrap around and the protocol does not: the message after number
  \<open>2 ^ 32 - 1\<close> carries the number 0, the receiver acknowledges it and drops it, and the
  acknowledgement makes \<open>send\<close> return nil.
\<close>

theorem wraparound_loses_data:
  assumes "rs_sequence a = - 1" and "rs_lastAckd b = - 1" and "rs_send a buf None = (a1, [p])"
  shows "rp_sequence p = 0 \<and>
    stateMachine b (Inr p) None = (b, [\<lparr>rp_type = RELIABLE_ACK, rp_sequence = 0, rp_data = []\<rparr>]) \<and>
    send_wait (a1\<lparr>rs_ackCh := \<lparr>chan_buf = [0], chan_cap = ReliableMessageBuffer, chan_closed = False\<rparr>\<rparr>) Got_ack =
      Some (send_returns (a1\<lparr>rs_ackCh := make_chan ReliableMessageBuffer\<rparr>) p None, [])"
  using assms by (auto simp: rs_send_def stateMachine_def send_wait_def chan_recv_def make_chan_def Let_def)

theorem wraparound_loses_data_witness:
  "\<exists>p. rp_sequence p = 0 \<and> stateMachine (newReliableStream\<lparr>rs_lastAckd := - 1\<rparr>) (Inr p) None =
     (newReliableStream\<lparr>rs_lastAckd := - 1\<rparr>, [\<lparr>rp_type = RELIABLE_ACK, rp_sequence = 0, rp_data = []\<rparr>])"
proof -
  obtain a1 p where "rs_send (newReliableStream\<lparr>rs_sequence := - 1\<rparr>) [7] None = (a1, [p])"
    by (simp add: rs_send_def Let_def)
  from wraparound_loses_data[OF _ _ this, of "newReliableStream\<lparr>rs_lastAckd := - 1\<rparr>"] show ?thesis by auto
qed

end
