(* ===== verification/Client_Router.thy ===== *)
theory Client_Router
  imports Client_Keys Client_Reliable "HOL-Library.List_Lexorder" "HOL-Library.Char_ord"
begin

text \<open>
  client/router.go: the identifier of the channel of a pair of clients, the dispatcher of received
  messages, and the \<open>Router\<close>, which opens streams to other clients through a
  \<open>streamFactory\<close>. The factory, the streams it makes and the encoder of client messages are
  arguments; SHA-256 is an argument of \<open>channelID\<close>. Strings are ordered bytewise, as
  \<open>strings.Compare\<close> does.
\<close>

section \<open>The channel of a pair\<close>

text \<open>
  The slices are those of the source: \<open>s1\<close> has the first 16 characters of the greater
  identifier and \<open>s2\<close> what follows the first 16 of the smaller one. \<open>None\<close> where
  \<open>ID\<close> panics; the identifiers have 16 characters, so the slices never do.
\<close>

definition channelID :: "(bytes \<Rightarrow> bytes) \<Rightarrow> Identity \<Rightarrow> Identity \<Rightarrow> (string \<times> bool) option" where
  "channelID sha256 own remote =
     (case (Identity_ID own, Identity_ID remote) of
        (Some str1, Some str2) \<Rightarrow>
          (let (s1, s2, first) =
             (if str1 < str2 then (take 16 str2, drop 16 str1, True)
              else if str2 < str1 then (take 16 str1, drop 16 str2, False)
              else ([], [], False))
           in Some (hex_encode (sha256 (string_bytes s1 @ string_bytes s2)), first))
      | _ \<Rightarrow> None)"

lemma Identity_ID_length: "Identity_ID i = Some s \<Longrightarrow> length s = 16"
  by (auto simp: Identity_ID_def split: if_splits)

lemma channelID_eq:
  assumes "Identity_ID own = Some x" and "Identity_ID remote = Some y"
  shows "channelID sha256 own remote =
    Some (hex_encode (sha256 (if x = y then [] else string_bytes (max x y))), x < y)"
  using Identity_ID_length[OF assms(1)] Identity_ID_length[OF assms(2)]
  by (auto simp: channelID_def assms max_def string_bytes_def)

section \<open>The sequential dispatcher\<close>

text \<open>Processors are compared by identity only, so their type is open. A dispatch is the list of calls.\<close>

record 'p seqDispatcher = procs :: "'p list"

definition newSeqDispatcher :: "'p seqDispatcher" where
  "newSeqDispatcher = \<lparr>procs = []\<rparr>"

definition seq_RegisterProcessor :: "'p seqDispatcher \<Rightarrow> 'p \<Rightarrow> 'p seqDispatcher" where
  "seq_RegisterProcessor s p = s\<lparr>procs := procs s @ [p]\<rparr>"

definition seq_Dispatch :: "'p seqDispatcher \<Rightarrow> 'i \<Rightarrow> 'm \<Rightarrow> ('p \<times> 'i \<times> 'm) list" where
  "seq_Dispatch s i cm = map (\<lambda>p. (p, i, cm)) (procs s)"

section \<open>The router\<close>

text \<open>The streams of the map are keyed by the identifier of the remote.\<close>

record ('p, 's) client_Router =
  br_dispatcher :: "'p seqDispatcher"
  br_streams :: "(string, 's) gomap"
  br_done :: bool

definition client_NewRouter :: "('p, 's) client_Router" where
  "client_NewRouter = \<lparr>br_dispatcher = newSeqDispatcher, br_streams = [], br_done = False\<rparr>"

datatype router_error = Router_closed | Router_stream string | Router_marshal string | Router_panic

text \<open>
  \<open>Send\<close>: the result is the new router, the streams it opened (each with its goroutine
  \<open>processStream\<close>) and the error. \<open>newStream\<close> is the factory, \<open>marshal\<close> the encoder,
  \<open>stream_send\<close> the stream's \<open>send\<close>.
\<close>

definition router_Send ::
  "(Identity \<Rightarrow> string + 's) \<Rightarrow> ('m \<Rightarrow> string + bytes) \<Rightarrow> ('s \<Rightarrow> bytes \<Rightarrow> string option) \<Rightarrow>
   ('p, 's) client_Router \<Rightarrow> Identity \<Rightarrow> 'm \<Rightarrow> ('p, 's) client_Router \<times> (Identity \<times> 's) list \<times> router_error option" where
  "router_Send newStream marshal stream_send r remote msg =
     (if br_done r then (r, [], Some Router_closed)
      else case Identity_ID remote of
        None \<Rightarrow> (r, [], Some Router_panic)
      | Some i \<Rightarrow>
          (let deliver = (\<lambda>s opened.
             case marshal msg of
               Inl e \<Rightarrow> (r, opened, Some (Router_marshal e))
             | Inr buf \<Rightarrow> (r, opened, map_option Router_stream (stream_send s buf)))
           in case map_of (br_streams r) i of
                Some s \<Rightarrow> deliver s []
              | None \<Rightarrow>
                  (case newStream remote of
                     Inl e \<Rightarrow> (r, [], Some (Router_stream e))
                   | Inr s \<Rightarrow> deliver s [(remote, s)])))"

text \<open>
  \<open>processStream\<close> on what the stream's \<open>receive\<close> returns, call by call: the calls of
  processors it makes until the first error.
\<close>

fun processStream ::
  "(bytes \<Rightarrow> string + 'm) \<Rightarrow> ('p, 's) client_Router \<Rightarrow> Identity \<Rightarrow> (string + bytes) list \<Rightarrow> ('p \<times> Identity \<times> 'm) list" where
  "processStream unmarshal r i [] = []"
| "processStream unmarshal r i (Inl e # rest) = []"
| "processStream unmarshal r i (Inr buff # rest) =
     (case unmarshal buff of
        Inl e \<Rightarrow> []
      | Inr msg \<Rightarrow> seq_Dispatch (br_dispatcher r) i msg @ processStream unmarshal r i rest)"

text \<open>\<open>Close\<close>: the streams it closes, and the router afterwards.\<close>

definition router_Close :: "('p, 's) client_Router \<Rightarrow> ('p, 's) client_Router \<times> 's list" where
  "router_Close r = (r\<lparr>br_done := True\<rparr>, map snd (br_streams r))"

text \<open>
  The goroutines of \<open>Broadcast\<close> share the loop variable: the one started for position \<open>k\<close>
  sends to whatever identity the variable holds when it runs, one at \<open>k\<close> or later.
\<close>

definition broadcast_targets :: "'i list \<Rightarrow> 'i list \<Rightarrow> bool" where
  "broadcast_targets ids targets =
     (length targets = length ids \<and> list_all (\<lambda>k. targets ! k \<in> set (drop k ids)) [0..<length ids])"

text \<open>
  The loop that collects the results in the order they arrive; \<open>n\<close> is the loop's counter.
  \<open>Blocks\<close> when it waits on the channel and no goroutine is left to send.
\<close>

fun broadcast_collect :: "nat \<Rightarrow> nat \<Rightarrow> router_error option list \<Rightarrow> router_error option chan_result" where
  "broadcast_collect n len_ids [] = (if n < len_ids then Blocks else Happens None)"
| "broadcast_collect n len_ids (err # rest) =
     (if n < len_ids then (if err \<noteq> None then Happens err else broadcast_collect n len_ids rest)
      else Happens None)"

section \<open>Runs of the router\<close>

fun router_sends ::
  "(Identity \<Rightarrow> string + 's) \<Rightarrow> ('m \<Rightarrow> string + bytes) \<Rightarrow> ('s \<Rightarrow> bytes \<Rightarrow> string option) \<Rightarrow>
   ('p, 's) client_Router \<Rightarrow> (Identity \<times> 'm) list \<Rightarrow> ('p, 's) client_Router \<times> (Identity \<times> 's) list" where
  "router_sends ns ma ss r [] = (r, [])"
| "router_sends ns ma ss r ((remote, msg) # rest) =
     (let (r1, opened, err) = router_Send ns ma ss r remote msg;
          (r2, opened2) = router_sends ns ma ss r1 rest
      in (r2, opened @ opened2))"

lemma router_Send_router: "fst (router_Send ns ma ss r remote msg) = r"
  by (auto simp: router_Send_def Let_def split: option.splits sum.splits)

lemma router_Send_opens:
  assumes "br_streams r = []" and "\<not> br_done r" and "Identity_ID remote \<noteq> None" and "ns remote = Inr s"
  shows "\<exists>err. router_Send ns ma ss r remote msg = (r, [(remote, s)], err)"
  using assms by (auto simp: router_Send_def Let_def split: sum.splits)

lemma router_sends_opens:
  "br_streams r = [] \<Longrightarrow> \<not> br_done r \<Longrightarrow>
   list_all (\<lambda>(remote, _). Identity_ID remote \<noteq> None \<and> (\<exists>s. ns remote = Inr s)) calls \<Longrightarrow>
   \<exists>opened. router_sends ns ma ss r calls = (r, opened) \<and> map fst opened = map fst calls"
proof (induction calls)
  case Nil
  then show ?case by simp
next
  case (Cons call calls)
  obtain remote msg s where call: "call = (remote, msg)" and s: "ns remote = Inr s" "Identity_ID remote \<noteq> None"
    using Cons.prems(3) by (cases call) auto
  obtain err where "router_Send ns ma ss r remote msg = (r, [(remote, s)], err)"
    using router_Send_opens[of r remote ns s ma ss msg] Cons.prems(1,2) s by blast
  moreover obtain opened where "router_sends ns ma ss r calls = (r, opened)" "map fst opened = map fst calls"
    using Cons by auto
  ultimately show ?case by (simp add: call)
qed

section \<open>Properties of the router\<close>

text \<open>Two identities, for the witnesses; the identifier of the second is the greater one.\<close>

definition key_identity :: "bytes \<Rightarrow> Identity" where
  "key_identity k = zero_identity\<lparr>id_Key := k\<rparr>"

text \<open>
  The two ends of a pair agree: they compute the same channel identifier, and exactly one of
  them is the initiator, as long as their identifiers differ.
\<close>

theorem channelID_symmetric:
  assumes "channelID sha256 own remote = Some (c1, first1)" and "channelID sha256 remote own = Some (c2, first2)"
  shows "c1 = c2 \<and> (Identity_ID own \<noteq> Identity_ID remote \<longrightarrow> first1 \<noteq> first2)"
proof -
  obtain x y where xy: "Identity_ID own = Some x" "Identity_ID remote = Some y"
    using assms(1) by (auto simp: channelID_def split: option.splits)
  from channelID_eq[OF xy, of sha256] channelID_eq[OF xy(2,1), of sha256] assms show ?thesis
    by (auto simp: xy max.commute)
qed

theorem channelID_symmetric_witness:
  "\<exists>c1 f1 c2 f2. channelID (\<lambda>b. b) (key_identity (replicate 8 1)) (key_identity (replicate 8 2)) = Some (c1, f1) \<and>
     channelID (\<lambda>b. b) (key_identity (replicate 8 2)) (key_identity (replicate 8 1)) = Some (c2, f2) \<and> c1 = c2"
proof -
  obtain x y where xy: "Identity_ID (key_identity (replicate 8 1)) = Some x" "Identity_ID (key_identity (replicate 8 2)) = Some y"
    by (simp add: Identity_ID_def key_identity_def)
  note c = channelID_eq[OF xy, of "\<lambda>b. b"] channelID_eq[OF xy(2,1), of "\<lambda>b. b"]
  from channelID_symmetric[OF c] c show ?thesis by (simp only: option.inject prod.inject) auto
qed

text \<open>
  C29. The channel identifier does not identify the pair: the hash covers only the greater of the
  two identifiers, since slicing the other one after its 16 characters leaves nothing. Any two
  clients below a third one share one channel with it.
\<close>

theorem channelID_collides:
  assumes "Identity_ID a = Some x" and "Identity_ID b = Some y" and "Identity_ID c = Some z" and "x < z" and "y < z"
  shows "channelID sha256 a c = channelID sha256 b c"
  using channelID_eq[OF assms(1,3), of sha256] channelID_eq[OF assms(2,3), of sha256] assms(4,5)
  by (auto simp: max_def)

lemma key_identity_ID [simp]:
  "Identity_ID (key_identity [0, 0, 0, 0, 0, 0, 0, 1]) = Some ''0000000000000001''"
  "Identity_ID (key_identity [0, 0, 0, 0, 0, 0, 0, 2]) = Some ''0000000000000002''"
  "Identity_ID (key_identity [0, 0, 0, 0, 0, 0, 0, 3]) = Some ''0000000000000003''"
  by (simp_all add: Identity_ID_def key_identity_def hex_encode_def hex_byte_def hex_digits_def)

theorem channelID_collides_witness:
  "channelID (\<lambda>b. b) (key_identity [0, 0, 0, 0, 0, 0, 0, 1]) (key_identity [0, 0, 0, 0, 0, 0, 0, 3]) =
   channelID (\<lambda>b. b) (key_identity [0, 0, 0, 0, 0, 0, 0, 2]) (key_identity [0, 0, 0, 0, 0, 0, 0, 3])"
  using channelID_collides[OF key_identity_ID] by simp

text \<open>
  The router keeps no stream: nothing stores a stream in its map, so every \<open>Send\<close> of a
  router that is not closed opens a stream of its own, also to a client it has just sent to, and
  \<open>Close\<close> closes none of them.
\<close>

theorem router_never_reuses_streams:
  assumes "\<forall>(remote, m) \<in> set calls. Identity_ID remote \<noteq> None \<and> (\<exists>s. ns remote = Inr s)"
  shows "\<exists>r opened. router_sends ns ma ss client_NewRouter calls = (r, opened) \<and>
    map fst opened = map fst calls \<and> snd (router_Close r) = []"
proof -
  have "\<exists>opened. router_sends ns ma ss client_NewRouter calls = (client_NewRouter, opened) \<and> map fst opened = map fst calls"
    using assms by (intro router_sends_opens) (auto simp: client_NewRouter_def list_all_iff)
  moreover have "snd (router_Close client_NewRouter) = []" by (simp add: router_Close_def client_NewRouter_def)
  ultimately show ?thesis by blast
qed

theorem router_never_reuses_streams_witness:
  "\<exists>calls r opened. router_sends (\<lambda>_. Inr 0) (\<lambda>m. Inr m) (\<lambda>(s :: nat) b. None)
       (client_NewRouter :: (nat, nat) client_Router) calls = (r, opened) \<and>
     length opened = 2 \<and> snd (router_Close r) = []"
proof -
  define calls :: "(Identity \<times> bytes) list" where
    "calls = replicate 2 (key_identity [0, 0, 0, 0, 0, 0, 0, 1], [1])"
  have "\<forall>(remote, m) \<in> set calls. Identity_ID remote \<noteq> None \<and> (\<exists>s. (\<lambda>_. Inr 0) remote = (Inr s :: string + nat))"
    by (simp add: calls_def)
  from router_never_reuses_streams[OF this] obtain r :: "(nat, nat) client_Router" and opened where
    "router_sends (\<lambda>_. Inr 0) (\<lambda>m. Inr m) (\<lambda>(s :: nat) b. None) client_NewRouter calls = (r, opened)"
    and "map fst opened = map fst calls" and "snd (router_Close r) = []" by blast
  moreover from this(2) have "length opened = 2" using map_eq_imp_length_eq[of fst opened fst calls] by (simp add: calls_def)
  ultimately show ?thesis by blast
qed

text \<open>
  \<open>Broadcast\<close> never reports success to anybody: for a non-empty list of clients its loop
  does not count the results, so when every \<open>Send\<close> succeeds it waits for ever, and when it returns,
  it returns the first error.
\<close>

theorem broadcast_never_succeeds:
  assumes "ids \<noteq> []"
  shows "broadcast_collect 0 (length ids) results =
    (case filter (\<lambda>e. e \<noteq> None) results of [] \<Rightarrow> Blocks | err # _ \<Rightarrow> Happens err)"
  using assms by (induction results) auto

theorem broadcast_never_succeeds_witness:
  "broadcast_collect 0 (length [zero_identity]) [None] = Blocks"
  using broadcast_never_succeeds[of "[zero_identity]" "[None]"] by simp

text \<open>
  A broadcast may miss clients: because the goroutines share the loop variable, all of them may
  send to the last client of the list, and the last client is always sent to.
\<close>

theorem broadcast_may_miss:
  assumes "ids \<noteq> []"
  shows "broadcast_targets ids (replicate (length ids) (last ids)) \<and>
    (broadcast_targets ids targets \<longrightarrow> last ids \<in> set targets \<and> set targets \<subseteq> set ids)"
proof -
  have "last ids \<in> set (drop k ids)" if "k < length ids" for k
    using that last_drop[of k ids] last_in_set[of "drop k ids"] by simp
  then have "broadcast_targets ids (replicate (length ids) (last ids))"
    by (simp add: broadcast_targets_def list_all_iff)
  moreover have "last ids \<in> set targets \<and> set targets \<subseteq> set ids" if "broadcast_targets ids targets"
  proof -
    have len: "length targets = length ids" and all: "\<And>k. k < length ids \<Longrightarrow> targets ! k \<in> set (drop k ids)"
      using that by (auto simp: broadcast_targets_def list_all_iff)
    have "drop (length ids - 1) ids = [last ids]"
      using assms by (cases ids rule: rev_cases) auto
    then have "targets ! (length ids - 1) = last ids" using all[of "length ids - 1"] assms by simp
    then have "last ids \<in> set targets" using len assms by (metis diff_less length_greater_0_conv nth_mem zero_less_one)
    moreover have "set targets \<subseteq> set ids" using all len in_set_dropD by (fastforce simp: in_set_conv_nth[of _ targets])
    ultimately show ?thesis by simp
  qed
  ultimately show ?thesis by blast
qed

theorem broadcast_may_miss_witness: "broadcast_targets [1 :: nat, 2, 3] [3, 3, 3]"
  using broadcast_may_miss[of "[1 :: nat, 2, 3]" "[]"] by (simp add: numeral_eq_Suc)

text \<open>
  Every message that arrives intact reaches every processor: for an encoder whose decoder
  inverts it, \<open>processStream\<close> calls all processors in the order of their registration for one
  message after the other, up to the error that ends the stream.
\<close>

theorem processStream_dispatches_all:
  assumes "\<And>m. unmarshal (marshal m) = Inr m"
  shows "processStream unmarshal (client_NewRouter\<lparr>br_dispatcher := foldl seq_RegisterProcessor newSeqDispatcher ps\<rparr>) i
      (map (\<lambda>m. Inr (marshal m)) msgs @ Inl e # rest) =
    concat (map (\<lambda>m. map (\<lambda>p. (p, i, m)) ps) msgs)"
proof -
  have "procs (foldl seq_RegisterProcessor s ps) = procs s @ ps" for s
    by (induction ps arbitrary: s) (auto simp: seq_RegisterProcessor_def)
  then have "procs (foldl seq_RegisterProcessor newSeqDispatcher ps) = ps" by (simp add: newSeqDispatcher_def)
  then show ?thesis by (induction msgs) (auto simp: assms seq_Dispatch_def)
qed

theorem processStream_dispatches_all_witness:
  "processStream (\<lambda>b. Inr b) (client_NewRouter\<lparr>br_dispatcher := foldl seq_RegisterProcessor newSeqDispatcher [10 :: nat, 20]\<rparr>)
     zero_identity [Inr [1], Inl ''EOF''] = [(10, zero_identity, [1]), (20, zero_identity, [1])]"
  using processStream_dispatches_all[of "\<lambda>b. Inr b" "\<lambda>b. b" "[10 :: nat, 20]" zero_identity "[[1]]" "''EOF''" "[]"] by simp

end
