(* ===== verification/Client_Noise.thy ===== *)
theory Client_Noise
  imports Client_Router
begin

text \<open>
  client/stream.go, \<open>noiseStream\<close>: the encrypted stream over a relay channel. The package
  \<open>flynn/noise\<close> is not part of the repository: the handshake state \<open>'h\<close>, the cipher states
  \<open>'c\<close> and the functions on them are arguments. \<open>WriteMessage\<close> and \<open>ReadMessage\<close> return two
  cipher states (once the handshake is complete) in the order initiator to responder, responder to
  initiator. What \<open>channel.Receive\<close> returns, call by call, is a list; \<open>Blocks\<close> when the
  stream waits for more.
\<close>

section \<open>State and construction\<close>

record ('h, 'c) noiseStream =
  ns_first :: bool
  ns_handshake :: 'h
  ns_encrypt :: "'c option"
  ns_decrypt :: "'c option"
  ns_handshakeDone :: bool

datatype noise_error =
    Noise_already_done
  | Noise_not_done
  | Noise_dos
  | Noise_channel string
  | Noise_decrypt string

definition magicValue :: bytes where "magicValue = [0x19, 0x84]"

text \<open>
  \<open>newNoiseStream\<close>: the role comes from \<open>channelID\<close>, the keys from the identities;
  \<open>None\<close> where a conversion panics. \<open>new_state\<close> is \<open>NewHandshakeState\<close> for the pattern
  KK, given the role, the key pair and the static key of the peer.
\<close>

definition newNoiseStream ::
  "(bytes \<Rightarrow> bytes) \<Rightarrow> (bytes \<Rightarrow> bytes) \<Rightarrow> (bytes \<Rightarrow> bytes option) \<Rightarrow> (bool \<Rightarrow> bytes \<times> bytes \<Rightarrow> bytes \<Rightarrow> 'h) \<Rightarrow>
   Private \<Rightarrow> Identity \<Rightarrow> Identity \<Rightarrow> ('h, 'c) noiseStream option" where
  "newNoiseStream sha256 conv_priv conv_pub new_state priv pub remote =
     (case (channelID sha256 pub remote, Identity_PublicCurve25519 conv_pub pub, Identity_PublicCurve25519 conv_pub remote) of
        (Some (_, first), Some pubCurve, Some remotePublic) \<Rightarrow>
          Some \<lparr>ns_first = first,
                ns_handshake = new_state first (ed25519PrivateToCurve25519 conv_priv (pr_seed priv), pubCurve) remotePublic,
                ns_encrypt = None, ns_decrypt = None, ns_handshakeDone = False\<rparr>
      | _ \<Rightarrow> None)"

section \<open>The handshake\<close>

type_synonym ('h, 'c) write_message = "'h \<Rightarrow> bytes \<Rightarrow> 'h \<times> bytes \<times> 'c option \<times> 'c option"
type_synonym ('h, 'c) read_message = "'h \<Rightarrow> bytes \<Rightarrow> string + 'h \<times> 'c option \<times> 'c option"

text \<open>
  \<open>receiveHandshake\<close>; \<open>i\<close> is the loop counter. The result also has the handshake state and
  the rest of the input.
\<close>

fun receiveHandshake ::
  "('h, 'c) read_message \<Rightarrow> 'h \<Rightarrow> nat \<Rightarrow> (string + bytes) list \<Rightarrow>
   (noise_error + 'h \<times> 'c option \<times> 'c option \<times> (string + bytes) list) chan_result" where
  "receiveHandshake rd h i [] = (if i < MaxIncorrectMessages then Blocks else Happens (Inl Noise_dos))"
| "receiveHandshake rd h i (received # rest) =
     (if i < MaxIncorrectMessages then
        (case received of
           Inl e \<Rightarrow> receiveHandshake rd h (i + 1) rest
         | Inr buff \<Rightarrow>
             (case rd h buff of
                Inl e \<Rightarrow> receiveHandshake rd h (i + 1) rest
              | Inr (h', enc, dec) \<Rightarrow> Happens (Inr (h', enc, dec, rest))))
      else Happens (Inl Noise_dos))"

text \<open>
  \<open>doHandshakeClient\<close> sends the first message; \<open>send_err\<close> is the result of
  \<open>channel.Send\<close>. The result has the messages sent.
\<close>

definition doHandshakeClient ::
  "('h, 'c) write_message \<Rightarrow> ('h, 'c) read_message \<Rightarrow> string option \<Rightarrow> (string + bytes) list \<Rightarrow> ('h, 'c) noiseStream \<Rightarrow>
   (noise_error option \<times> ('h, 'c) noiseStream) chan_result \<times> bytes list" where
  "doHandshakeClient wr rd send_err inputs n =
     (let (h1, msg, _, _) = wr (ns_handshake n) []
      in case send_err of
           Some e \<Rightarrow> (Happens (Some (Noise_channel e), n\<lparr>ns_handshake := h1\<rparr>), [])
         | None \<Rightarrow>
             ((case receiveHandshake rd h1 0 inputs of
                 Blocks \<Rightarrow> Blocks
               | Panics \<Rightarrow> Panics
               | Happens (Inl e) \<Rightarrow> Happens (Some e, n\<lparr>ns_handshake := h1\<rparr>)
               | Happens (Inr (h2, enc, dec, _)) \<Rightarrow>
                   Happens (None, n\<lparr>ns_handshake := h2, ns_encrypt := enc, ns_decrypt := dec\<rparr>)), [msg]))"

definition doHandshakeServer ::
  "('h, 'c) write_message \<Rightarrow> ('h, 'c) read_message \<Rightarrow> string option \<Rightarrow> (string + bytes) list \<Rightarrow> ('h, 'c) noiseStream \<Rightarrow>
   (noise_error option \<times> ('h, 'c) noiseStream) chan_result \<times> bytes list" where
  "doHandshakeServer wr rd send_err inputs n =
     (case receiveHandshake rd (ns_handshake n) 0 inputs of
        Blocks \<Rightarrow> (Blocks, [])
      | Panics \<Rightarrow> (Panics, [])
      | Happens (Inl e) \<Rightarrow> (Happens (Some e, n), [])
      | Happens (Inr (h1, _, _, _)) \<Rightarrow>
          (let (h2, res, dec, enc) = wr h1 magicValue
           in case send_err of
                Some e \<Rightarrow> (Happens (Some (Noise_channel e), n\<lparr>ns_handshake := h2\<rparr>), [])
              | None \<Rightarrow> (Happens (None, n\<lparr>ns_handshake := h2, ns_encrypt := enc, ns_decrypt := dec\<rparr>), [res])))"

definition doHandshake ::
  "('h, 'c) write_message \<Rightarrow> ('h, 'c) read_message \<Rightarrow> string option \<Rightarrow> (string + bytes) list \<Rightarrow> ('h, 'c) noiseStream \<Rightarrow>
   (noise_error option \<times> ('h, 'c) noiseStream) chan_result \<times> bytes list" where
  "doHandshake wr rd send_err inputs n =
     (if ns_handshakeDone n then (Happens (Some Noise_already_done, n), [])
      else (let (result, sent) = (if ns_first n then doHandshakeClient wr rd send_err inputs n
                                  else doHandshakeServer wr rd send_err inputs n)
            in (case result of
                  Happens (None, n') \<Rightarrow> Happens (None, n'\<lparr>ns_handshakeDone := True\<rparr>)
                | r \<Rightarrow> r, sent)))"

section \<open>Sending and receiving\<close>

text \<open>
  \<open>send\<close>: the ciphertext goes to the channel. \<open>encrypt\<close> and \<open>decrypt\<close> are the
  methods of a cipher state, whose nonce advances. \<open>None\<close>: a nil cipher state is dereferenced.
\<close>

definition noise_send ::
  "('c \<Rightarrow> bytes \<Rightarrow> 'c \<times> bytes) \<Rightarrow> ('h, 'c) noiseStream \<Rightarrow> bytes \<Rightarrow> (noise_error + ('h, 'c) noiseStream \<times> bytes) option" where
  "noise_send encrypt n msg =
     (if \<not> ns_handshakeDone n then Some (Inl Noise_not_done)
      else case ns_encrypt n of
        None \<Rightarrow> None
      | Some c \<Rightarrow> (let (c', cipher) = encrypt c msg in Some (Inr (n\<lparr>ns_encrypt := Some c'\<rparr>, cipher))))"

definition noise_receive ::
  "('c \<Rightarrow> bytes \<Rightarrow> 'c \<times> (string + bytes)) \<Rightarrow> ('h, 'c) noiseStream \<Rightarrow> string + bytes \<Rightarrow>
   (('h, 'c) noiseStream \<times> (noise_error + bytes)) option" where
  "noise_receive decrypt n received =
     (case received of
        Inl e \<Rightarrow> Some (n, Inl (Noise_channel e))
      | Inr buff \<Rightarrow>
          (case ns_decrypt n of
             None \<Rightarrow> None
           | Some c \<Rightarrow>
               (let (c', res) = decrypt c buff
                in Some (n\<lparr>ns_decrypt := Some c'\<rparr>, case res of Inl e \<Rightarrow> Inl (Noise_decrypt e) | Inr m \<Rightarrow> Inr m))))"

section \<open>Noise on the channel\<close>

text \<open>What a third party puts on the channel: errors of the channel and messages \<open>ReadMessage\<close> refuses.\<close>

definition refused :: "('h, 'c) read_message \<Rightarrow> 'h \<Rightarrow> string + bytes \<Rightarrow> bool" where
  "refused rd h received = (case received of Inl _ \<Rightarrow> True | Inr buff \<Rightarrow> (case rd h buff of Inl _ \<Rightarrow> True | Inr _ \<Rightarrow> False))"

lemma receiveHandshake_skip:
  "list_all (refused rd h) junk \<Longrightarrow> i + length junk < MaxIncorrectMessages \<Longrightarrow> rd h good = Inr (h', enc, dec) \<Longrightarrow>
   receiveHandshake rd h i (junk @ Inr good # rest) = Happens (Inr (h', enc, dec, rest))"
proof (induction junk arbitrary: i)
  case Nil
  then show ?case by simp
next
  case (Cons x junk)
  then show ?case by (cases x) (auto simp: refused_def split: sum.splits)
qed

lemma receiveHandshake_flooded:
  "list_all (refused rd h) junk \<Longrightarrow> MaxIncorrectMessages \<le> i + length junk \<Longrightarrow>
   receiveHandshake rd h i (junk @ rest) = Happens (Inl Noise_dos)"
proof (induction junk arbitrary: i)
  case Nil
  then show ?case by (cases rest) auto
next
  case (Cons x junk)
  then show ?case by (cases x) (auto simp: refused_def split: sum.splits)
qed

lemma receiveHandshake_waits:
  "list_all (refused rd h) junk \<Longrightarrow> i + length junk < MaxIncorrectMessages \<Longrightarrow> receiveHandshake rd h i junk = Blocks"
proof (induction junk arbitrary: i)
  case (Cons x junk)
  then show ?case by (cases x) (auto simp: refused_def split: sum.splits)
qed simp

lemma receiveHandshake_refused:
  "list_all (refused rd h) junk \<Longrightarrow>
     receiveHandshake rd h 0 junk = (if length junk < MaxIncorrectMessages then Blocks else Happens (Inl Noise_dos))"
  using receiveHandshake_waits[of rd h junk 0] receiveHandshake_flooded[of rd h junk 0 "[]"] by (simp add: not_less)

section \<open>Properties of the encrypted stream\<close>

text \<open>
  C26. The handshake pairs the two ends: if the two handshake states are those of a run of the
  pattern, the responder reading the first message and the initiator the second, then both ends
  finish, one end encrypts with the cipher state the other end decrypts with, and this is so with up to 99
  messages of anybody else in front of the right one; a hundred of them make the end give up.
\<close>

theorem handshake_pairs_ciphers:
  assumes roles: "ns_first client \<and> \<not> ns_first server \<and> \<not> ns_handshakeDone client \<and> \<not> ns_handshakeDone server"
    and first_msg: "wr (ns_handshake client) [] = (h1, msg1, x1, x2)"
    and read_first: "rd (ns_handshake server) msg1 = Inr (h2, y1, y2)"
    and second_msg: "wr h2 magicValue = (h3, msg2, Some c1, Some c2)"
    and read_second: "rd h1 msg2 = Inr (h4, Some c1, Some c2)"
    and junk: "list_all (refused rd (ns_handshake server)) junk1 \<and> list_all (refused rd h1) junk2"
  shows "if length junk1 < MaxIncorrectMessages \<and> length junk2 < MaxIncorrectMessages
    then \<exists>server' client'.
      doHandshake wr rd None (junk1 @ [Inr msg1]) server = (Happens (None, server'), [msg2]) \<and>
      doHandshake wr rd None (junk2 @ [Inr msg2]) client = (Happens (None, client'), [msg1]) \<and>
      ns_encrypt client' = ns_decrypt server' \<and> ns_decrypt client' = ns_encrypt server' \<and>
      ns_handshakeDone client' \<and> ns_handshakeDone server'
    else fst (doHandshake wr rd None (junk1 @ [Inr msg1]) server) = Happens (Some Noise_dos, server) \<or>
      fst (doHandshake wr rd None (junk2 @ [Inr msg2]) client) = Happens (Some Noise_dos, client\<lparr>ns_handshake := h1\<rparr>)"
proof (cases "length junk1 < MaxIncorrectMessages \<and> length junk2 < MaxIncorrectMessages")
  case True
  with receiveHandshake_skip[of rd "ns_handshake server" junk1 0 msg1] receiveHandshake_skip[of rd h1 junk2 0 msg2] assms
  show ?thesis by (simp add: doHandshake_def doHandshakeClient_def doHandshakeServer_def)
next
  case False
  with receiveHandshake_flooded[of rd "ns_handshake server" junk1 0] receiveHandshake_flooded[of rd h1 junk2 0] assms
  show ?thesis
    by (auto simp: doHandshake_def doHandshakeClient_def doHandshakeServer_def not_less)
qed

text \<open>A toy run of the pattern, for the witnesses: the state counts the steps.\<close>

definition toy_write :: "(nat, nat) write_message" where
  "toy_write h payload = (if h = 0 then (1, [1], None, None) else (3, [2], Some 10, Some 20))"

definition toy_read :: "(nat, nat) read_message" where
  "toy_read h b = (if h = 0 \<and> b = [1] then Inr (2, None, None)
     else if h = 1 \<and> b = [2] then Inr (4, Some 10, Some 20) else Inl ''noise: invalid message'')"

definition toy_end :: "bool \<Rightarrow> (nat, nat) noiseStream" where
  "toy_end first = \<lparr>ns_first = first, ns_handshake = 0, ns_encrypt = None, ns_decrypt = None, ns_handshakeDone = False\<rparr>"

theorem handshake_pairs_ciphers_witness:
  "\<exists>server' client'.
     doHandshake toy_write toy_read None [Inr [9], Inr [1]] (toy_end False) = (Happens (None, server'), [[2]]) \<and>
     doHandshake toy_write toy_read None [Inl ''closed'', Inr [2]] (toy_end True) = (Happens (None, client'), [[1]]) \<and>
     ns_encrypt client' = ns_decrypt server'"
  using handshake_pairs_ciphers[of "toy_end True" "toy_end False" toy_write 1 "[1]" None None toy_read 2 None None 3 "[2]" 10 20 4
      "[Inr [9]]" "[Inl ''closed'']"]
  by (auto simp: toy_end_def toy_write_def toy_read_def refused_def MaxIncorrectMessages_def)

text \<open>A cipher that prefixes the nonce, for the witnesses.\<close>

definition toy_encrypt :: "byte \<Rightarrow> bytes \<Rightarrow> byte \<times> bytes" where
  "toy_encrypt c m = (c + 1, c # m)"

definition toy_decrypt :: "byte \<Rightarrow> bytes \<Rightarrow> byte \<times> (string + bytes)" where
  "toy_decrypt c x = (c + 1, case x of [] \<Rightarrow> Inl ''short'' | d # m \<Rightarrow> if d = c then Inr m else Inl ''authentication failed'')"

definition toy_ready :: "(nat, byte) noiseStream" where
  "toy_ready = \<lparr>ns_first = True, ns_handshake = 0, ns_encrypt = Some 0, ns_decrypt = Some 0, ns_handshakeDone = True\<rparr>"

text \<open>
  The reliable stream cannot repair a loss under the encryption: for a cipher that refuses what
  was encrypted one nonce later, the message after a lost one makes \<open>receive\<close> fail, and the failure
  ends the \<open>stateMachine\<close> of the reliable stream above, after which it takes no packet, so no repeated
  packet is ever received.
\<close>

theorem noise_loss_ends_stream:
  assumes "\<And>c m m'. \<exists>c' e. decrypt c (snd (encrypt (fst (encrypt c m)) m')) = (c', Inl e)"
    and "ns_encrypt a = Some c" and "ns_decrypt b = Some c"
    and "noise_send encrypt a lost = Some (Inr (a1, x1))" and "noise_send encrypt a1 m = Some (Inr (a2, x2))"
  shows "\<exists>b' e. noise_receive decrypt b (Inr x2) = Some (b', Inl (Noise_decrypt e)) \<and>
    (let r' = fst (stateMachine r (Inl e) None) in rs_globalErr r' \<noteq> None \<and> (\<forall>p se. rs_step r' (Ev_packet p se) = None))"
proof -
  have x2: "x2 = snd (encrypt (fst (encrypt c lost)) m)"
    using assms(2,4,5) by (auto simp: noise_send_def split: if_splits prod.splits)
  obtain c' e where "decrypt c x2 = (c', Inl e)" using assms(1)[of c lost m] x2 by blast
  then have "noise_receive decrypt b (Inr x2) = Some (b\<lparr>ns_decrypt := Some c'\<rparr>, Inl (Noise_decrypt e))"
    using assms(3) by (simp add: noise_receive_def)
  then show ?thesis by (auto simp: stateMachine_def rs_step_def Let_def)
qed

theorem noise_loss_ends_stream_witness:
  "\<exists>b' e. noise_receive toy_decrypt toy_ready (Inr [1, 6]) = Some (b', Inl (Noise_decrypt e))"
proof -
  have "\<exists>c' e. toy_decrypt c (snd (toy_encrypt (fst (toy_encrypt c m)) m')) = (c', Inl e)" for c m m'
    by (simp add: toy_decrypt_def toy_encrypt_def)
  note refuses = this
  have s1: "noise_send toy_encrypt toy_ready [5] = Some (Inr (toy_ready\<lparr>ns_encrypt := Some 1\<rparr>, [0, 5]))"
    by (simp add: toy_ready_def noise_send_def toy_encrypt_def)
  have s2: "noise_send toy_encrypt (toy_ready\<lparr>ns_encrypt := Some 1\<rparr>) [6] = Some (Inr (toy_ready\<lparr>ns_encrypt := Some 2\<rparr>, [1, 6]))"
    by (simp add: toy_ready_def noise_send_def toy_encrypt_def)
  from noise_loss_ends_stream[where decrypt = toy_decrypt and b = toy_ready and c = 0 and r = newReliableStream, OF refuses _ _ s1 s2]
  have "\<exists>b' e. noise_receive toy_decrypt toy_ready (Inr [1, 6]) = Some (b', Inl (Noise_decrypt e)) \<and>
      (let r' = fst (stateMachine newReliableStream (Inl e) None) in rs_globalErr r' \<noteq> None \<and> (\<forall>p se. rs_step r' (Ev_packet p se) = None))"
    by (simp add: toy_ready_def)
  then show ?thesis by blast
qed

end
