(* ===== verification/Client_Factory.thy ===== *)
theory Client_Factory
  imports Client_Noise Relay_Client
begin

text \<open>
  client/stream.go, \<open>channelStreamFactory\<close>: how a channel of the relay, the noise stream over it and
  the reliable stream on top become the stream the router uses; and, of client/router.go, the
  asynchronous \<open>NonBlockingRouter\<close>. The call of \<open>multiplexer.Channel\<close>, whose halves are in
  Relay\_Client, is the argument \<open>open_channel\<close>: \<open>None\<close> where it panics.
\<close>

section \<open>The factory\<close>

record channelStreamFactory =
  sf_priv :: Private
  sf_pub :: Identity

definition newChannelStreamFactory :: "Private \<Rightarrow> channelStreamFactory" where
  "newChannelStreamFactory priv = \<lparr>sf_priv = priv, sf_pub = pr_Public priv\<rparr>"

datatype factory_error = Channel_error channel_error | Handshake_error noise_error

text \<open>The packages a stream needs: hash, key conversions and the noise handshake.\<close>

record ('h, 'c) noise_pkg =
  pkg_sha256 :: "bytes \<Rightarrow> bytes"
  pkg_conv_priv :: "bytes \<Rightarrow> bytes"
  pkg_conv_pub :: "bytes \<Rightarrow> bytes option"
  pkg_new_state :: "bool \<Rightarrow> bytes \<times> bytes \<Rightarrow> bytes \<Rightarrow> 'h"
  pkg_write :: "('h, 'c) write_message"
  pkg_read :: "('h, 'c) read_message"

text \<open>
  \<open>newStream\<close>: the stream is the channel, the noise stream after its handshake, and a fresh reliable
  stream whose state machine is started. A handshake that fails leaves the channel joined.
\<close>

definition newStream ::
  "('h, 'c) noise_pkg \<Rightarrow> (string \<Rightarrow> (channel_error + nat) option) \<Rightarrow> string option \<Rightarrow> (string + bytes) list \<Rightarrow>
     channelStreamFactory \<Rightarrow> Identity \<Rightarrow>
     (factory_error + nat \<times> ('h, 'c) noiseStream \<times> reliableStream) chan_result \<times> bytes list" where
  "newStream pkg open_channel send_err inputs c to =
     (case channelID (pkg_sha256 pkg) (sf_pub c) to of
        None \<Rightarrow> (Panics, [])
      | Some (i, _) \<Rightarrow>
          (case open_channel i of
             None \<Rightarrow> (Panics, [])
           | Some (Inl e) \<Rightarrow> (Happens (Inl (Channel_error e)), [])
           | Some (Inr p) \<Rightarrow>
               (case newNoiseStream (pkg_sha256 pkg) (pkg_conv_priv pkg) (pkg_conv_pub pkg) (pkg_new_state pkg) (sf_priv c) (sf_pub c) to of
                  None \<Rightarrow> (Panics, [])
                | Some stream \<Rightarrow>
                    (case doHandshake (pkg_write pkg) (pkg_read pkg) send_err inputs stream of
                       (Happens (Some e, _), sent) \<Rightarrow> (Happens (Inl (Handshake_error e)), sent)
                     | (Happens (None, stream'), sent) \<Rightarrow> (Happens (Inr (p, stream', newReliableStream)), sent)
                     | (Blocks, sent) \<Rightarrow> (Blocks, sent)
                     | (Panics, sent) \<Rightarrow> (Panics, sent)))))"

definition noise_close :: "Multiplexer \<Rightarrow> nat \<Rightarrow> string option \<Rightarrow> Multiplexer chan_result" where
  "noise_close m p conn_err = cc_Close m p conn_err"

section \<open>NonBlockingRouter\<close>

text \<open>
  \<open>Send\<close> starts a goroutine that sends the error on an unbuffered channel: it delivers the error when
  the caller receives, and waits until then. \<open>Broadcast\<close> panics.
\<close>

record 'e pending_send =
  ps_result :: 'e
  ps_delivered :: bool

definition nb_Send ::
  "(Identity \<Rightarrow> string + 's) \<Rightarrow> ('m \<Rightarrow> string + bytes) \<Rightarrow> ('s \<Rightarrow> bytes \<Rightarrow> string option) \<Rightarrow>
     ('p, 's) client_Router \<Rightarrow> Identity \<Rightarrow> 'm \<Rightarrow> ('p, 's) client_Router \<times> router_error option pending_send" where
  "nb_Send new_stream marshal stream_send r i cm =
     (case router_Send new_stream marshal stream_send r i cm of
        (r', opened, err) \<Rightarrow> (r', \<lparr>ps_result = err, ps_delivered = False\<rparr>))"

definition nb_receive :: "'e pending_send \<Rightarrow> ('e \<times> 'e pending_send) chan_result" where
  "nb_receive p = (if ps_delivered p then Blocks else Happens (ps_result p, p\<lparr>ps_delivered := True\<rparr>))"

text \<open>\<open>NewNonBlockingRouter\<close> takes a router by value: the struct has a copy of it.\<close>

record ('p, 's) NonBlockingRouter =
  nb_Router :: "('p, 's) client_Router"

definition NewNonBlockingRouter :: "('p, 's) client_Router \<Rightarrow> ('p, 's) NonBlockingRouter" where
  "NewNonBlockingRouter r = \<lparr>nb_Router = r\<rparr>"

definition nb_Broadcast :: "'m \<Rightarrow> Identity list \<Rightarrow> unit chan_result" where
  "nb_Broadcast cm ids = Panics"

section \<open>Properties\<close>

text \<open>Closing the router a non-blocking router was made from does not close the copy, nor the other way round.\<close>

lemma nb_copy_not_closed:
  "br_done (fst (router_Close r)) \<and> br_done (nb_Router (NewNonBlockingRouter r)) = br_done r"
  by (simp add: router_Close_def NewNonBlockingRouter_def)

lemma doHandshake_done:
  "doHandshake wr rd send_err inputs n = (Happens (None, n'), sent) \<Longrightarrow>
     ns_handshakeDone n' \<and> ns_first n' = ns_first n \<and> \<not> ns_handshakeDone n"
  by (auto simp: doHandshake_def doHandshakeClient_def doHandshakeServer_def Let_def
      split: if_splits chan_result.splits prod.splits option.splits sum.splits)

lemma newStream_Inr:
  assumes "newStream pkg open_channel send_err inputs c to = (Happens (Inr (p, n, r)), sent)"
  shows "\<exists>i first. channelID (pkg_sha256 pkg) (sf_pub c) to = Some (i, first) \<and> open_channel i = Some (Inr p) \<and>
    ns_handshakeDone n \<and> ns_first n = first \<and> r = newReliableStream"
  using assms
  by (auto simp: newStream_def newNoiseStream_def dest!: doHandshake_done
      split: option.splits prod.splits sum.splits chan_result.splits)

text \<open>
  Clients that open streams to themselves. \<open>inputs k\<close> is what the channel has delivered to client \<open>k\<close> so far: messages
  that other such clients have sent on it, or one of \<open>others\<close>, the errors of the channel and the messages of strangers.
\<close>

inductive self_channel ::
  "('h, 'c) noise_pkg \<Rightarrow> (nat \<Rightarrow> string \<Rightarrow> (channel_error + nat) option) \<Rightarrow> (nat \<Rightarrow> string option) \<Rightarrow> (nat \<Rightarrow> channelStreamFactory) \<Rightarrow>
     (string + bytes) set \<Rightarrow> (nat \<Rightarrow> (string + bytes) list) \<Rightarrow> bool" for pkg open_channel send_err c others where
  start: "self_channel pkg open_channel send_err c others (\<lambda>k. [])"
| member: "self_channel pkg open_channel send_err c others inputs \<Longrightarrow> j \<noteq> k \<Longrightarrow>
    b \<in> set (snd (newStream pkg (open_channel j) (send_err j) (inputs j) (c j) (sf_pub (c j)))) \<Longrightarrow>
    self_channel pkg open_channel send_err c others (inputs(k := inputs k @ [Inr b]))"
| other: "self_channel pkg open_channel send_err c others inputs \<Longrightarrow> x \<in> others \<Longrightarrow>
    self_channel pkg open_channel send_err c others (inputs(k := inputs k @ [x]))"

text \<open>One client: its channel has the identifier of no bytes, it has the second role, and what is refused does not help.\<close>

lemma self_stream_refused:
  fixes pkg :: "('h, 'c) noise_pkg" and n :: "('h, 'c) noiseStream"
  assumes "newNoiseStream (pkg_sha256 pkg) (pkg_conv_priv pkg) (pkg_conv_pub pkg) (pkg_new_state pkg) (sf_priv c) (sf_pub c) (sf_pub c) = Some n"
    and "open_channel (hex_encode (pkg_sha256 pkg [])) = Some (Inr p)" and "list_all (refused (pkg_read pkg) (ns_handshake n)) inputs"
  shows "channelID (pkg_sha256 pkg) (sf_pub c) (sf_pub c) = Some (hex_encode (pkg_sha256 pkg []), False) \<and>
    newStream pkg open_channel send_err inputs c (sf_pub c) =
      (if length inputs < MaxIncorrectMessages then Blocks else Happens (Inl (Handshake_error Noise_dos)), [])"
proof -
  obtain i first where i: "channelID (pkg_sha256 pkg) (sf_pub c) (sf_pub c) = Some (i, first)"
    using assms(1) by (auto simp: newNoiseStream_def split: option.splits)
  then obtain x where x: "Identity_ID (sf_pub c) = Some x" by (auto simp: channelID_def split: option.splits)
  then have ch: "channelID (pkg_sha256 pkg) (sf_pub c) (sf_pub c) = Some (hex_encode (pkg_sha256 pkg []), False)"
    using channelID_eq[OF x x, of "pkg_sha256 pkg"] by simp
  then have n: "\<not> ns_first n" "\<not> ns_handshakeDone n"
    using assms(1) by (auto simp: newNoiseStream_def split: option.splits prod.splits)
  then have "doHandshake (pkg_write pkg) (pkg_read pkg) send_err inputs n =
      (if length inputs < MaxIncorrectMessages then Blocks else Happens (Some Noise_dos, n), [])"
    by (simp add: doHandshake_def doHandshakeServer_def receiveHandshake_refused[OF assms(3)])
  then show ?thesis using ch assms(1,2) by (simp add: newStream_def)
qed

text \<open>
  C12. Streams to oneself are never built. Two equal identifiers leave nothing to hash and give the second role, so
  that the streams of all clients to themselves share one channel of the relay on which nobody begins: in every run,
  with any number of such clients, none of them ever sends anything, and every handshake waits, for ever when nobody
  else uses the channel. Strangers, whose messages the handshake refuses, can only end it, with a hundred of them.
  \<open>Send\<close> of the router holds its lock meanwhile, and the driver of the key generation broadcasts to all participants,
  itself included.
\<close>

theorem self_streams_wait:
  fixes pkg :: "('h, 'c) noise_pkg" and n :: "nat \<Rightarrow> ('h, 'c) noiseStream"
  assumes "self_channel pkg open_channel send_err c others inputs"
    and "\<And>k. newNoiseStream (pkg_sha256 pkg) (pkg_conv_priv pkg) (pkg_conv_pub pkg) (pkg_new_state pkg)
           (sf_priv (c k)) (sf_pub (c k)) (sf_pub (c k)) = Some (n k)"
    and "\<And>k. open_channel k (hex_encode (pkg_sha256 pkg [])) = Some (Inr (p k))"
    and "\<And>k x. x \<in> others \<Longrightarrow> refused (pkg_read pkg) (ns_handshake (n k)) x"
  shows "channelID (pkg_sha256 pkg) (sf_pub (c k)) (sf_pub (c k)) = Some (hex_encode (pkg_sha256 pkg []), False) \<and>
    newStream pkg (open_channel k) (send_err k) (inputs k) (c k) (sf_pub (c k)) =
      (if length (inputs k) < MaxIncorrectMessages then Blocks else Happens (Inl (Handshake_error Noise_dos)), []) \<and>
    (others = {} \<longrightarrow> newStream pkg (open_channel k) (send_err k) (inputs k) (c k) (sf_pub (c k)) = (Blocks, []))"
proof -
  have ref: "set (inputs k) \<subseteq> others" for k using assms(1)
  proof (induction arbitrary: k rule: self_channel.induct)
    case (member inputs j k' b)
    have "list_all (refused (pkg_read pkg) (ns_handshake (n j))) (inputs j)"
      using member.IH[of j] assms(4) by (auto simp: list_all_iff)
    from self_stream_refused[where open_channel = "open_channel j", OF assms(2)[of j] assms(3)[of j] this] member.hyps(3) show ?case by simp
  qed auto
  then have "list_all (refused (pkg_read pkg) (ns_handshake (n k))) (inputs k)"
    using assms(4) by (auto simp: list_all_iff)
  note one = self_stream_refused[where open_channel = "open_channel k", OF assms(2)[of k] assms(3)[of k] this, of "send_err k"]
  moreover have "inputs k = []" if "others = {}" using ref[of k] that by simp
  then have "newStream pkg (open_channel k) (send_err k) (inputs k) (c k) (sf_pub (c k)) = (Blocks, [])" if "others = {}"
    using one that by (simp add: MaxIncorrectMessages_def)
  ultimately show ?thesis by blast
qed

text \<open>
  C11. Two clients that have built their streams to each other talk over the same channel with opposite
  roles: each stream is past its handshake, so that sending on it is never refused for that reason,
  each asked its multiplexer for the same channel, and, their identifiers being different, exactly
  one of them is the initiator.
\<close>

theorem streams_meet:
  assumes "newStream pkg open_a send_err_a inputs_a a (sf_pub b) = (Happens (Inr (p, n, r)), sent_a)"
    and "newStream pkg open_b send_err_b inputs_b b (sf_pub a) = (Happens (Inr (q, m, s)), sent_b)"
    and "Identity_ID (sf_pub a) \<noteq> Identity_ID (sf_pub b)"
  shows "(\<exists>i. open_a i = Some (Inr p) \<and> open_b i = Some (Inr q)) \<and> ns_first n \<noteq> ns_first m \<and>
    noise_send encrypt n msg \<noteq> Some (Inl Noise_not_done) \<and> noise_send encrypt m msg \<noteq> Some (Inl Noise_not_done)"
proof -
  obtain i f where a: "channelID (pkg_sha256 pkg) (sf_pub a) (sf_pub b) = Some (i, f)" "open_a i = Some (Inr p)"
    "ns_handshakeDone n" "ns_first n = f"
    using newStream_Inr[OF assms(1)] by blast
  obtain j g where b: "channelID (pkg_sha256 pkg) (sf_pub b) (sf_pub a) = Some (j, g)" "open_b j = Some (Inr q)"
    "ns_handshakeDone m" "ns_first m = g"
    using newStream_Inr[OF assms(2)] by blast
  obtain x y where xy: "Identity_ID (sf_pub a) = Some x" "Identity_ID (sf_pub b) = Some y"
    using a(1) by (auto simp: channelID_def split: option.splits)
  have "i = j" "f \<noteq> g"
    using channelID_eq[OF xy, of "pkg_sha256 pkg"] channelID_eq[OF xy(2,1), of "pkg_sha256 pkg"] a(1) b(1) xy assms(3)
    by (auto simp: max.commute)
  then show ?thesis using a b by (auto simp: noise_send_def Let_def split: option.splits prod.splits)
qed

text \<open>Two clients, the toy handshake of Client\_Noise, and one channel.\<close>

definition toy_pkg :: "(nat, nat) noise_pkg" where
  "toy_pkg = \<lparr>pkg_sha256 = (\<lambda>b. b), pkg_conv_priv = (\<lambda>b. b), pkg_conv_pub = Some,
     pkg_new_state = (\<lambda>first kp rk. 0), pkg_write = toy_write, pkg_read = toy_read\<rparr>"

definition toy_factory :: "byte \<Rightarrow> channelStreamFactory" where
  "toy_factory k = newChannelStreamFactory \<lparr>pr_seed = [k], pr_Public = zero_identity\<lparr>id_Key := replicate 8 k\<rparr>\<rparr>"

definition toy_stream :: "byte \<Rightarrow> byte \<Rightarrow> bytes \<Rightarrow>
    (factory_error + nat \<times> (nat, nat) noiseStream \<times> reliableStream) chan_result \<times> bytes list" where
  "toy_stream own other input =
     newStream toy_pkg (\<lambda>i. Some (Inr 0)) None [Inr input] (toy_factory own) (sf_pub (toy_factory other))"

text \<open>Two clients of the toy handshake open streams to themselves; a stranger has sent \<open>[9]\<close> to the first.\<close>

definition toy_selves :: "nat \<Rightarrow> channelStreamFactory" where
  "toy_selves k = toy_factory (if k = 0 then 1 else 2)"

theorem self_streams_wait_witness:
  "newStream toy_pkg (\<lambda>i. Some (Inr 0)) None [Inr [9]] (toy_selves 0) (sf_pub (toy_selves 0)) = (Blocks, []) \<and>
   newStream toy_pkg (\<lambda>i. Some (Inr 0)) None [] (toy_selves 1) (sf_pub (toy_selves 1)) = (Blocks, [])"
proof -
  let ?noise = "\<lambda>k. newNoiseStream (pkg_sha256 toy_pkg) (pkg_conv_priv toy_pkg) (pkg_conv_pub toy_pkg) (pkg_new_state toy_pkg)
      (sf_priv (toy_selves k)) (sf_pub (toy_selves k)) (sf_pub (toy_selves k)) :: (nat, nat) noiseStream option"
  have state: "ns_handshake n = 0" if "?noise k = Some n" for k n
    using that by (auto simp: newNoiseStream_def toy_pkg_def split: option.splits prod.splits)
  have "?noise 0 \<noteq> None" "?noise 1 \<noteq> None" by code_simp+
  then have "?noise k \<noteq> None" for k by (cases "k = 0") (simp_all add: toy_selves_def)
  then have noise: "?noise k = Some (the (?noise k))" for k by simp
  have ref: "refused (pkg_read toy_pkg) (ns_handshake (the (?noise k))) x" if "x \<in> {Inr [9]}" for k x
    using that state[OF noise] by (simp add: refused_def toy_pkg_def toy_read_def)
  have run: "self_channel toy_pkg (\<lambda>k i. Some (Inr 0)) (\<lambda>k. None) toy_selves {Inr [9]} ((\<lambda>k. [])(0 := [] @ [Inr [9]]))"
    by (rule self_channel.other[OF self_channel.start]) simp
  from self_streams_wait[where open_channel = "\<lambda>k i. Some (Inr 0)" and p = "\<lambda>k. 0", OF run noise refl ref, of 0]
    self_streams_wait[where open_channel = "\<lambda>k i. Some (Inr 0)" and p = "\<lambda>k. 0", OF run noise refl ref, of 1]
  show ?thesis by (simp add: MaxIncorrectMessages_def)
qed

theorem streams_meet_witness:
  "\<exists>n r sent m s sent'. toy_stream 1 2 [2] = (Happens (Inr (0, n, r)), sent) \<and>
     toy_stream 2 1 [1] = (Happens (Inr (0, m, s)), sent') \<and> ns_first n \<noteq> ns_first m"
proof -
  have "case toy_stream 1 2 [2] of (Happens (Inr (p, n, r)), sent) \<Rightarrow> p = 0 | _ \<Rightarrow> False"
    "case toy_stream 2 1 [1] of (Happens (Inr (p, n, r)), sent) \<Rightarrow> p = 0 | _ \<Rightarrow> False"
    "Identity_ID (sf_pub (toy_factory 1)) \<noteq> Identity_ID (sf_pub (toy_factory 2))"
    by code_simp+
  then obtain n r sent m s sent' where
    st: "toy_stream 1 2 [2] = (Happens (Inr (0, n, r)), sent)" "toy_stream 2 1 [1] = (Happens (Inr (0, m, s)), sent')"
    and "Identity_ID (sf_pub (toy_factory 1)) \<noteq> Identity_ID (sf_pub (toy_factory 2))"
    by (auto split: prod.splits chan_result.splits sum.splits)
  then show ?thesis
    using streams_meet[OF st(1)[unfolded toy_stream_def] st(2)[unfolded toy_stream_def]] by blast
qed

end
