(* ===== verification/Client_Stack.thy ===== *)
theory Client_Stack
  imports Client_Factory
begin

text \<open>
  client/stream.go, the streams on top of each other: a reliable stream over a noise stream over a
  channel of the relay. \<open>r.stream.send\<close> and \<open>r.stream.receive\<close> of the reliable stream are \<open>send\<close> and
  \<open>receive\<close> of the noise stream, whose \<open>n.channel\<close> is a channel of the multiplexer. The operations of
  the single layers are those of Client\_Reliable, Client\_Noise and Relay\_Client; here they are
  composed as the code calls them, and two such stacks are run against the relay of Relay\_Server.
\<close>

section \<open>A stack\<close>

text \<open>
  One end: its address at the relay, the multiplexer, the channel in it, and the two streams.
  \<open>pe_plain\<close> is a history: what was encrypted and given to the connection.
\<close>

record ('h, 'c) peer =
  pe_addr :: Address
  pe_mux :: Multiplexer
  pe_chan :: nat
  pe_noise :: "('h, 'c) noiseStream"
  pe_rel :: reliableStream
  pe_plain :: "bytes list"

type_synonym stack_error = "noise_error + channel_error"

text \<open>
  The cipher of the noise package, \<open>reliableEncoder\<close> (\<open>None\<close> where its failure is a panic), and the
  text of an error.
\<close>

record 'c stack_pkg =
  sk_encrypt :: "'c \<Rightarrow> bytes \<Rightarrow> 'c \<times> bytes"
  sk_decrypt :: "'c \<Rightarrow> bytes \<Rightarrow> 'c \<times> (string + bytes)"
  sk_Marshal :: "ReliablePacket \<Rightarrow> bytes option"
  sk_Unmarshal :: "bytes \<Rightarrow> string + ReliablePacket"
  sk_text :: "stack_error \<Rightarrow> string"

section \<open>Operations\<close>

text \<open>
  \<open>noiseStream.send\<close> with the channel below it; \<open>conn_err\<close> is the result of the connection. \<open>None\<close> is
  a panic.
\<close>

definition stream_send ::
  "'c stack_pkg \<Rightarrow> string option \<Rightarrow> ('h, 'c) peer \<Rightarrow> bytes \<Rightarrow> (('h, 'c) peer \<times> stack_error option) option" where
  "stream_send pkg conn_err s x =
     (case noise_send (sk_encrypt pkg) (pe_noise s) x of
        None \<Rightarrow> None
      | Some (Inl e) \<Rightarrow> Some (s, Some (Inl e))
      | Some (Inr (n, cipher)) \<Rightarrow>
          (case cc_Send (pe_mux s) (pe_chan s) cipher conn_err of (m, err) \<Rightarrow>
             Some (s\<lparr>pe_noise := n, pe_mux := m, pe_plain := pe_plain s @ (if err = None then [x] else [])\<rparr>,
               map_option Inr err)))"

text \<open>\<open>noiseStream.receive\<close>: an outcome of \<open>Receive\<close> of the channel is decrypted; and all outcomes.\<close>

definition stream_decrypt ::
  "'c stack_pkg \<Rightarrow> ('h, 'c) peer \<Rightarrow> clientChannel \<times> (channel_error + string \<times> bytes) \<Rightarrow> (('h, 'c) peer \<times> (stack_error + bytes)) option" where
  "stream_decrypt pkg t outcome =
     (case outcome of (c, received) \<Rightarrow>
        let t1 = t\<lparr>pe_mux := put_obj (pe_mux t) (pe_chan t) c\<rparr>
        in case received of
             Inl e \<Rightarrow> Some (t1, Inl (Inr e))
           | Inr (_, buff) \<Rightarrow>
               (case noise_receive (sk_decrypt pkg) (pe_noise t) (Inr buff) of
                  None \<Rightarrow> None
                | Some (n, Inl e) \<Rightarrow> Some (t1\<lparr>pe_noise := n\<rparr>, Inl (Inl e))
                | Some (n, Inr m) \<Rightarrow> Some (t1\<lparr>pe_noise := n\<rparr>, Inr m)))"

definition stream_receive ::
  "'c stack_pkg \<Rightarrow> ('h, 'c) peer \<Rightarrow> (('h, 'c) peer \<times> (stack_error + bytes)) option list" where
  "stream_receive pkg t = map (stream_decrypt pkg t) (cc_Receive (mx_objs (pe_mux t) ! pe_chan t))"

text \<open>\<open>reliableStream.send\<close> up to its loop, and the round of the loop that sends the packet again.\<close>

definition peer_send :: "'c stack_pkg \<Rightarrow> string option \<Rightarrow> ('h, 'c) peer \<Rightarrow> bytes \<Rightarrow> ('h, 'c) peer option" where
  "peer_send pkg conn_err s buf =
     (case sk_Marshal pkg \<lparr>rp_type = RELIABLE_DATA, rp_sequence = rs_sequence (pe_rel s) + 1, rp_data = buf\<rparr> of
        None \<Rightarrow> None
      | Some encoded \<Rightarrow>
          (case stream_send pkg conn_err s encoded of
             None \<Rightarrow> None
           | Some (s1, err) \<Rightarrow>
               Some (s1\<lparr>pe_rel := fst (rs_send (pe_rel s) buf (map_option (sk_text pkg) err))\<rparr>)))"

definition peer_retry :: "'c stack_pkg \<Rightarrow> string option \<Rightarrow> ('h, 'c) peer \<Rightarrow> ('h, 'c) peer option" where
  "peer_retry pkg conn_err s =
     (case rs_sending (pe_rel s) of
        None \<Rightarrow> None
      | Some (packet, i) \<Rightarrow>
          (case sk_Marshal pkg packet of
             None \<Rightarrow> None
           | Some encoded \<Rightarrow>
               (case stream_send pkg conn_err s encoded of
                  None \<Rightarrow> None
                | Some (s1, err) \<Rightarrow>
                    map_option (\<lambda>(r, _). s1\<lparr>pe_rel := r\<rparr>)
                      (send_wait (pe_rel s) (Retry (map_option (sk_text pkg) err))))))"

text \<open>
  One round of \<open>stateMachine\<close>, up to the send on \<open>dataCh\<close> or \<open>ackCh\<close>: what is done with the result of
  \<open>receive\<close>, where the acknowledgement goes down through the stack, and all outcomes.
\<close>

definition machine_handle ::
  "'c stack_pkg \<Rightarrow> string option \<Rightarrow> ('h, 'c) peer \<times> (stack_error + bytes) \<Rightarrow> ('h, 'c) peer option" where
  "machine_handle pkg conn_err received =
     (case received of
        (t, Inl e) \<Rightarrow> Some (t\<lparr>pe_rel := fst (stateMachine (pe_rel t) (Inl (sk_text pkg e)) None)\<rparr>)
      | (t, Inr buff) \<Rightarrow>
          (case sk_Unmarshal pkg buff of
             Inl e \<Rightarrow> Some (t\<lparr>pe_rel := fst (stateMachine (pe_rel t) (Inl e) None)\<rparr>)
           | Inr rp \<Rightarrow>
               (case rp_type rp of
                  RELIABLE_ACK \<Rightarrow> Some (t\<lparr>pe_rel := fst (stateMachine (pe_rel t) (Inr rp) None)\<rparr>)
                | RELIABLE_DATA \<Rightarrow>
                    (case sk_Marshal pkg \<lparr>rp_type = RELIABLE_ACK, rp_sequence = rp_sequence rp, rp_data = []\<rparr> of
                       None \<Rightarrow> None
                     | Some encoded \<Rightarrow>
                         (case stream_send pkg conn_err t encoded of
                            None \<Rightarrow> None
                          | Some (t1, err) \<Rightarrow>
                              Some (t1\<lparr>pe_rel := fst (stateMachine (pe_rel t) (Inr rp) (map_option (sk_text pkg) err))\<rparr>))))))"

definition machine_round :: "'c stack_pkg \<Rightarrow> string option \<Rightarrow> ('h, 'c) peer \<Rightarrow> ('h, 'c) peer option list" where
  "machine_round pkg conn_err t = map (\<lambda>outcome. Option.bind outcome (machine_handle pkg conn_err)) (stream_receive pkg t)"

definition peer_push :: "('h, 'c) peer \<Rightarrow> ('h, 'c) peer option" where
  "peer_push t = map_option (\<lambda>r. t\<lparr>pe_rel := r\<rparr>) (machine_push (pe_rel t))"

text \<open>
  What the composition does to the reliable stream is an event of Client\_Reliable, so that its theorems
  on sessions hold for the stream of a stack.
\<close>

definition put_on_wire :: "'c stack_pkg \<Rightarrow> ('h, 'c) peer \<Rightarrow> ('h, 'c) peer \<Rightarrow> ReliablePacket list \<Rightarrow> bool" where
  "put_on_wire pkg s s' out \<longleftrightarrow>
     (\<forall>x \<in> set (pe_plain s'). x \<in> set (pe_plain s) \<or> (\<exists>q \<in> set out. sk_Marshal pkg q = Some x))"

lemma put_on_wire_refl [simp]: "pe_plain s' = pe_plain s \<Longrightarrow> put_on_wire pkg s s' out"
  by (simp add: put_on_wire_def)

lemma stream_send_frame:
  "stream_send pkg ce s x = Some (s', err) \<Longrightarrow>
     pe_rel s' = pe_rel s \<and> pe_plain s' = pe_plain s @ (if err = None then [x] else [])"
  by (auto simp: stream_send_def split: option.splits sum.splits prod.splits)

lemma peer_send_refines:
  assumes "peer_send pkg ce s buf = Some s'" and "rs_sending (pe_rel s) = None"
  shows "\<exists>e out. rs_step (pe_rel s) (Ev_call buf e) = Some (pe_rel s', out) \<and> put_on_wire pkg s s' out"
proof -
  let ?p = "\<lparr>rp_type = RELIABLE_DATA, rp_sequence = rs_sequence (pe_rel s) + 1, rp_data = buf\<rparr>"
  obtain x s1 err where x: "sk_Marshal pkg ?p = Some x" "stream_send pkg ce s x = Some (s1, err)"
    and s': "s' = s1\<lparr>pe_rel := fst (rs_send (pe_rel s) buf (map_option (sk_text pkg) err))\<rparr>"
    using assms(1) by (auto simp: peer_send_def split: option.splits)
  have "rs_step (pe_rel s) (Ev_call buf (map_option (sk_text pkg) err)) =
      Some (pe_rel s', snd (rs_send (pe_rel s) buf (map_option (sk_text pkg) err)))"
    using assms(2) by (simp add: rs_step_def s')
  moreover have "put_on_wire pkg s s' (snd (rs_send (pe_rel s) buf (map_option (sk_text pkg) err)))"
    using x stream_send_frame[OF x(2)] by (cases err) (auto simp: put_on_wire_def s' rs_send_def Let_def)
  ultimately show ?thesis by blast
qed

lemma peer_retry_refines:
  assumes "peer_retry pkg ce s = Some s'"
  shows "\<exists>e out. rs_step (pe_rel s) (Ev_wait (Retry e)) = Some (pe_rel s', out) \<and> put_on_wire pkg s s' out"
proof -
  obtain packet i x s1 err r out where x: "rs_sending (pe_rel s) = Some (packet, i)" "sk_Marshal pkg packet = Some x"
      "stream_send pkg ce s x = Some (s1, err)" "send_wait (pe_rel s) (Retry (map_option (sk_text pkg) err)) = Some (r, out)"
    and s': "s' = s1\<lparr>pe_rel := r\<rparr>"
    using assms by (auto simp: peer_retry_def split: option.splits)
  have "put_on_wire pkg s s' out"
    using x stream_send_frame[OF x(3)] by (cases err) (auto simp: put_on_wire_def s' send_wait_def)
  then show ?thesis using x(4) by (auto simp: rs_step_def s' intro!: exI[of _ "map_option (sk_text pkg) err"])
qed

text \<open>
  What the current cipher state accepts from the channel was sent by the other end: the integrity
  of plaintexts that the noise protocol is used for. It says nothing of what is refused.
\<close>

definition unforged :: "'c stack_pkg \<Rightarrow> ('h, 'c) peer \<Rightarrow> ('h, 'c) peer \<Rightarrow> bool" where
  "unforged pkg t s =
     list_all (\<lambda>(c, received).
        case (received, ns_decrypt (pe_noise t)) of
          (Inr (_, y), Some k) \<Rightarrow> (case sk_decrypt pkg k y of (_, Inr m) \<Rightarrow> m \<in> set (pe_plain s) | _ \<Rightarrow> True)
        | _ \<Rightarrow> True)
       (cc_Receive (mx_objs (pe_mux t) ! pe_chan t))"

lemma stream_receive_frame:
  assumes "Some (t1, res) \<in> set (stream_receive pkg t)"
  shows "pe_rel t1 = pe_rel t \<and> pe_plain t1 = pe_plain t \<and>
    (unforged pkg t s \<longrightarrow> (case res of Inr m \<Rightarrow> m \<in> set (pe_plain s) | Inl _ \<Rightarrow> True))"
proof -
  obtain c received where c: "(c, received) \<in> set (cc_Receive (mx_objs (pe_mux t) ! pe_chan t))"
    and out: "stream_decrypt pkg t (c, received) = Some (t1, res)"
    using assms by (auto simp: stream_receive_def)
  then have "unforged pkg t s \<Longrightarrow>
      (case (received, ns_decrypt (pe_noise t)) of
          (Inr (_, y), Some k) \<Rightarrow> (case sk_decrypt pkg k y of (_, Inr m) \<Rightarrow> m \<in> set (pe_plain s) | _ \<Rightarrow> True)
        | _ \<Rightarrow> True)"
    by (auto simp: unforged_def list_all_iff)
  then show ?thesis using out
    by (auto simp: stream_decrypt_def noise_receive_def Let_def split: sum.splits option.splits prod.splits)
qed

lemma machine_handle_refines:
  assumes "machine_handle pkg ce (t, res) = Some t'" and "rs_machine (pe_rel t) = Reading"
  shows "\<exists>ev out. rs_step (pe_rel t) ev = Some (pe_rel t', out) \<and> put_on_wire pkg t t' out \<and>
    (case ev of Ev_packet rp _ \<Rightarrow> (\<exists>x. res = Inr x \<and> sk_Unmarshal pkg x = Inr rp) | Ev_stream_error _ \<Rightarrow> True | _ \<Rightarrow> False)"
proof -
  have fail: ?thesis if "t' = t\<lparr>pe_rel := fst (stateMachine (pe_rel t) (Inl e) None)\<rparr>" for e
    using that assms(2) by (intro exI[of _ "Ev_stream_error e"] exI[of _ "snd (stateMachine (pe_rel t) (Inl e) None)"]) (auto simp: rs_step_def)
  have pkt: ?thesis if "pe_rel t' = fst (stateMachine (pe_rel t) (Inr rp) e)" "put_on_wire pkg t t' (snd (stateMachine (pe_rel t) (Inr rp) e))"
      "res = Inr x" "sk_Unmarshal pkg x = Inr rp" for rp e x
    using that assms(2) by (intro exI[of _ "Ev_packet rp e"] exI[of _ "snd (stateMachine (pe_rel t) (Inr rp) e)"]) (auto simp: rs_step_def)
  show ?thesis
  proof (cases res)
    case (Inl e)
    then show ?thesis using assms(1) by (intro fail[of "sk_text pkg e"]) (simp add: machine_handle_def)
  next
    case x: (Inr x)
    show ?thesis
    proof (cases "sk_Unmarshal pkg x")
      case (Inl e)
      then show ?thesis using assms(1) x by (intro fail[of e]) (simp add: machine_handle_def)
    next
      case rp: (Inr rp)
      show ?thesis
      proof (cases "rp_type rp")
        case RELIABLE_ACK
        then show ?thesis using assms(1) x rp by (intro pkt[of rp None x]) (auto simp: machine_handle_def)
      next
        case RELIABLE_DATA
        then obtain y t1 err where y: "sk_Marshal pkg \<lparr>rp_type = RELIABLE_ACK, rp_sequence = rp_sequence rp, rp_data = []\<rparr> = Some y"
            "stream_send pkg ce t y = Some (t1, err)"
          and t': "t' = t1\<lparr>pe_rel := fst (stateMachine (pe_rel t) (Inr rp) (map_option (sk_text pkg) err))\<rparr>"
          using assms(1) x rp by (auto simp: machine_handle_def split: option.splits)
        then have "put_on_wire pkg t t' (snd (stateMachine (pe_rel t) (Inr rp) (map_option (sk_text pkg) err)))"
          using stream_send_frame[OF y(2)] RELIABLE_DATA by (cases err) (auto simp: put_on_wire_def stateMachine_def)
        then show ?thesis using t' x rp by (intro pkt[of rp "map_option (sk_text pkg) err" x]) simp_all
      qed
    qed
  qed
qed

lemma machine_round_refines:
  assumes "Some t' \<in> set (machine_round pkg ce t)" and "rs_machine (pe_rel t) = Reading" and "unforged pkg t s"
  shows "\<exists>ev out. rs_step (pe_rel t) ev = Some (pe_rel t', out) \<and> put_on_wire pkg t t' out \<and>
    (case ev of Ev_packet rp _ \<Rightarrow> (\<exists>x \<in> set (pe_plain s). sk_Unmarshal pkg x = Inr rp) | Ev_stream_error _ \<Rightarrow> True | _ \<Rightarrow> False)"
proof -
  obtain t1 res where rec: "Some (t1, res) \<in> set (stream_receive pkg t)" and h: "machine_handle pkg ce (t1, res) = Some t'"
    using assms(1) by (auto simp: machine_round_def bind_eq_Some_conv eq_commute[of "Some t'"])
  note frame = stream_receive_frame[OF rec, of s]
  obtain ev out where ev: "rs_step (pe_rel t1) ev = Some (pe_rel t', out)" "put_on_wire pkg t1 t' out"
      "case ev of Ev_packet rp _ \<Rightarrow> (\<exists>x. res = Inr x \<and> sk_Unmarshal pkg x = Inr rp) | Ev_stream_error _ \<Rightarrow> True | _ \<Rightarrow> False"
    using machine_handle_refines[OF h] frame assms(2) by auto
  have "put_on_wire pkg t t' out" using ev(2) frame by (simp add: put_on_wire_def)
  moreover have "case ev of Ev_packet rp _ \<Rightarrow> (\<exists>x \<in> set (pe_plain s). sk_Unmarshal pkg x = Inr rp) | Ev_stream_error _ \<Rightarrow> True | _ \<Rightarrow> False"
    using ev(3) frame assms(3) by (auto split: rs_event.splits)
  ultimately show ?thesis using ev(1) frame by auto
qed

section \<open>The way through the relay\<close>

text \<open>
  The last message the multiplexer of \<open>s\<close> has sent is handled by the relay, queued and broadcast by the
  goroutine of its channel, and read by the goroutine of the multiplexer of \<open>t\<close>.
\<close>

inductive trip :: "Relay \<Rightarrow> ('h, 'c) peer \<Rightarrow> ('h, 'c) peer \<Rightarrow> Relay \<Rightarrow> ('h, 'c) peer \<Rightarrow> bool" where
  "mx_sent (pe_mux s) = sent @ [w] \<Longrightarrow> relay_step r (relay_Process r (pe_addr s) (Relay_msg w)) \<Longrightarrow>
   relay_step (relay_Process r (pe_addr s) (Relay_msg w)) r2 \<Longrightarrow> relay_step r2 r3 \<Longrightarrow> rl_out r3 = rl_out r @ outs \<Longrightarrow>
   (pe_addr t, rm) \<in> set outs \<Longrightarrow> mux_routine (pe_mux t) (Inr (Relay_msg rm)) = Go_on m \<Longrightarrow>
   trip r s t r3 (t\<lparr>pe_mux := m\<rparr>)"

text \<open>What the way needs: the relay's channel waits with both ends as members, and so do both ends.\<close>

definition relay_ready :: "Relay \<Rightarrow> string \<Rightarrow> Address list \<Rightarrow> bool" where
  "relay_ready r i addrs =
     (rl_calls r = [] \<and>
      (case map_of (rl_channels r) i of
         None \<Rightarrow> False
       | Some ch \<Rightarrow> ch_routine ch = Selecting \<and> chan_buf (ch_incoming ch) = [] \<and> list_all (\<lambda>a. a \<in> members ch) addrs))"

definition mux_ready :: "Multiplexer \<Rightarrow> string \<Rightarrow> nat \<Rightarrow> bool" where
  "mux_ready m i p = (map_of (mx_channels m) i = Some p \<and> egress_of m p = [])"

definition keyed :: "('h, 'c) noiseStream \<Rightarrow> ('h, 'c) noiseStream \<Rightarrow> bool" where
  "keyed n n' = (ns_handshakeDone n \<and> ns_encrypt n \<noteq> None \<and> ns_encrypt n = ns_decrypt n')"

definition connected :: "string \<Rightarrow> Relay \<Rightarrow> ('h, 'c) peer \<Rightarrow> ('h, 'c) peer \<Rightarrow> bool" where
  "connected i r s t \<longleftrightarrow>
     relay_reachable r \<and> relay_ready r i [pe_addr s, pe_addr t] \<and> pe_addr s \<noteq> pe_addr t \<and>
     mux_reachable (pe_mux s) \<and> mux_ready (pe_mux s) i (pe_chan s) \<and>
     mux_reachable (pe_mux t) \<and> mux_ready (pe_mux t) i (pe_chan t) \<and>
     keyed (pe_noise s) (pe_noise t) \<and> keyed (pe_noise t) (pe_noise s)"

lemma connected_sym: "connected i r s t \<longleftrightarrow> connected i r t s"
  by (auto simp: connected_def relay_ready_def split: option.splits)

lemma connected_rel [simp]: "connected i r (s\<lparr>pe_rel := x\<rparr>) t = connected i r s t" "connected i r s (t\<lparr>pe_rel := x\<rparr>) = connected i r s t"
  by (simp_all add: connected_def)

lemma trip_sender: "trip r s t r' t' \<Longrightarrow> trip r (s\<lparr>pe_rel := x\<rparr>) t r' t'"
  by (erule trip.cases) (auto intro!: trip.intros)

text \<open>The relay's part: three steps after which it is as ready as before.\<close>

lemma relay_carries:
  assumes "relay_reachable r" and "relay_ready r i [a, c]" and "a \<noteq> c"
  shows "\<exists>r1 r2 r3 outs. r1 = relay_Process r a (Relay_msg (ingress_msg i x)) \<and> relay_step r r1 \<and> relay_step r1 r2 \<and>
    relay_step r2 r3 \<and> rl_out r3 = rl_out r @ outs \<and> (c, egress_msg i x) \<in> set outs \<and> relay_ready r3 i [a, c]"
proof -
  obtain ch where ch: "map_of (rl_channels r) i = Some ch" "ch_routine ch = Selecting" "chan_buf (ch_incoming ch) = []"
    "a \<in> members ch" "c \<in> members ch" and calls: "rl_calls r = []"
    using assms(2) by (auto simp: relay_ready_def split: option.splits)
  have ok: "channel_ok i ch"
    using relay_reachable_inv[OF assms(1)] ch(1) by (auto simp: relay_inv_def dest: all_entries_lookup)
  let ?m = "ingress_msg i x" and ?info = "\<lparr>mi_address = a, mi_msg = rm_ingress (ingress_msg i x)\<rparr>"
  let ?r1 = "relay_Process r a (Relay_msg ?m)"
  let ?q = "(ch_incoming ch)\<lparr>chan_buf := [?info]\<rparr>"
  let ?ch1 = "ch\<lparr>ch_incoming := ?q\<rparr>"
  let ?r2 = "(put_channel ?r1 i ?ch1)\<lparr>rl_calls := []\<rparr>"
  let ?sends = "broadcast ch ?info"
  let ?r3 = "(put_channel ?r2 i ch)\<lparr>rl_out := rl_out ?r2 @ ?sends\<rparr>"
  have r1: "?r1 = r\<lparr>rl_calls := [(i, a, ?m)]\<rparr>"
    using ok ch(1) by (simp add: relay_Process_def channel_ok_def msg_defs)
  have "chan_send (ch_incoming ch) ?info = Happens ?q"
    using ok ch(3) by (simp add: channel_ok_def queue_ok_def chan_send_def ChannelQueueSize_def)
  then have "newMessage ch a ?m = Happens ?ch1" by (simp add: newMessage_def msg_defs)
  then have s2: "relay_step ?r1 ?r2" using relay_step.call[of ?r1 i a ?m "[]" ch ?ch1] ch(1) by (simp add: r1)
  have "chan_recv ?q = Happens (Some ?info, ch_incoming ch)"
    using ch(3) by (cases "ch_incoming ch") (simp add: chan_recv_def)
  then have "(ch, ?sends) \<in> set (select_cases ?ch1)" by (cases ch) (simp add: select_cases_def)
  then have s3: "relay_step ?r2 ?r3"
    using ch(2) relay_step.select[of ?r2 i ?ch1 ch ?sends] by (simp add: put_channel_def lookup_update)
  have blob: "Ingress_GetBlob (rm_ingress ?m) = x" by (simp add: Ingress_GetBlob_def msg_defs)
  have "(c, egress_msg i x) \<in> set ?sends"
    using broadcast_refines(1)[OF ok, of ?info] ch(4,5) assms(3) blob by (auto simp: members_def)
  moreover have "relay_ready ?r3 i [a, c]" using ch by (simp add: relay_ready_def put_channel_def lookup_update)
  moreover have "rl_out ?r3 = rl_out r @ ?sends" by (simp add: r1 put_channel_def)
  ultimately show ?thesis using relay_step.handle[OF calls] s2 s3 by blast
qed

text \<open>The queue of a channel after one more message of the connection.\<close>

lemma mux_routine_delivers:
  assumes "mux_reachable m" and "map_of (mx_channels m) i = Some p" and "egress_of m p = []" and "rm_channel rm = i"
  shows "\<exists>m1. mux_routine m (Inr (Relay_msg rm)) = Go_on m1 \<and> egress_of m1 p = [rm]"
proof -
  have "mux_inv m" by (rule mux_reachable_inv[OF assms(1)])
  moreover have "mux_routine m (Inr (Relay_msg rm)) \<noteq> Waits"
    using mux_routine_goes_on[OF \<open>mux_inv m\<close>, of "Relay_msg rm"] assms(2-4) by (auto simp: queueSize_def)
  then obtain m1 where m1: "mux_routine m (Inr (Relay_msg rm)) = Go_on m1"
    using assms(2,4) by (auto simp: mux_routine_def split: chan_result.splits)
  ultimately show ?thesis using mux_routine_egress[of m i p "Relay_msg rm" m1] assms(2-4) by (simp add: for_channel_def)
qed

lemma egress_recv: "egress_of m p = [rm] \<Longrightarrow>
    chan_recv (cc_egress (mx_objs m ! p)) = Happens (Some rm, (cc_egress (mx_objs m ! p))\<lparr>chan_buf := []\<rparr>)"
  by (simp add: egress_of_def chan_recv_def)

text \<open>The sender's part.\<close>

lemma entry_channel:
  assumes "mux_reachable m" and "mux_ready m i p"
  shows "p < length (mx_objs m)" "cc_id (mx_objs m ! p) = i"
  using mux_reachable_inv[OF assms(1)] assms(2)
  by (auto simp: mux_inv_def mux_ready_def entry_ok_def dest: all_entries_lookup)

lemma cc_Send_ready:
  assumes "mux_reachable m" and "mux_ready m i p"
  shows "cc_Send m p x None = (m\<lparr>mx_sent := mx_sent m @ [ingress_msg i x]\<rparr>, None)"
    and "mux_reachable (m\<lparr>mx_sent := mx_sent m @ [ingress_msg i x]\<rparr>)"
    and "mux_ready (m\<lparr>mx_sent := mx_sent m @ [ingress_msg i x]\<rparr>) i p"
proof -
  note p = entry_channel[OF assms]
  show send: "cc_Send m p x None = (m\<lparr>mx_sent := mx_sent m @ [ingress_msg i x]\<rparr>, None)"
    using p by (simp add: cc_Send_def mux_send_def)
  show "mux_reachable (m\<lparr>mx_sent := mx_sent m @ [ingress_msg i x]\<rparr>)"
    using mux_reachable.step[OF assms(1) mux_step.send[OF p(1), of x None]] by (simp add: send)
  show "mux_ready (m\<lparr>mx_sent := mx_sent m @ [ingress_msg i x]\<rparr>) i p"
    using assms(2) by (simp add: mux_ready_def egress_of_def)
qed

text \<open>The receiver's part: the goroutine queues the message and \<open>Receive\<close> takes it out again.\<close>

lemma mux_takes:
  assumes "mux_reachable m" and "mux_ready m i p"
  shows "\<exists>m1 c. mux_routine m (Inr (Relay_msg (egress_msg i x))) = Go_on m1 \<and> (c, Inr ([], x)) \<in> set (cc_Receive (mx_objs m1 ! p)) \<and>
    mux_reachable (put_obj m1 p c) \<and> mux_ready (put_obj m1 p c) i p"
proof -
  let ?rm = "egress_msg i x"
  obtain m1 where m1: "mux_routine m (Inr (Relay_msg ?rm)) = Go_on m1" "egress_of m1 p = [?rm]"
    using mux_routine_delivers[OF assms(1), of i p ?rm] assms(2) by (auto simp: mux_ready_def msg_defs)
  let ?c = "(mx_objs m1 ! p)\<lparr>cc_egress := (cc_egress (mx_objs m1 ! p))\<lparr>chan_buf := []\<rparr>\<rparr>"
  have reach: "mux_reachable m1" by (rule mux_reachable.step[OF assms(1) mux_step.round[OF m1(1)]])
  have chans: "map_of (mx_channels m1) i = Some p"
    using m1(1) assms(2) by (auto simp: mux_ready_def mux_routine_def put_obj_def split: option.splits chan_result.splits)
  have p: "p < length (mx_objs m1)"
    using mux_reachable_inv[OF reach] chans by (auto simp: mux_inv_def entry_ok_def dest: all_entries_lookup)
  have recv: "(?c, Inr ([], x)) \<in> set (cc_Receive (mx_objs m1 ! p))"
    using egress_recv[OF m1(2)] by (simp add: cc_Receive_def msg_defs Egress_GetAddress_def Egress_GetBlob_def)
  moreover have "mux_reachable (put_obj m1 p ?c)" by (rule mux_reachable.step[OF reach mux_step.receive[OF p recv]])
  moreover have "mux_ready (put_obj m1 p ?c) i p" using chans p by (simp add: mux_ready_def egress_of_def put_obj_def)
  ultimately show ?thesis using m1(1) by blast
qed

text \<open>
  One way: what the noise stream of one end sends, the noise stream of the other end receives, and
  both ends and the relay are connected as before.
\<close>

lemma one_way:
  assumes conn: "connected i r s t"
    and cipher: "\<And>k m. sk_decrypt pkg k (snd (sk_encrypt pkg k m)) = (fst (sk_encrypt pkg k m), Inr m)"
  shows "\<exists>s1 r1 t1 t2. stream_send pkg None s x = Some (s1, None) \<and> trip r s1 t r1 t1 \<and>
    Some (t2, Inr x) \<in> set (stream_receive pkg t1) \<and> connected i r1 s1 t2 \<and>
    pe_rel s1 = pe_rel s \<and> pe_rel t1 = pe_rel t \<and> pe_rel t2 = pe_rel t"
proof -
  obtain k where k: "ns_encrypt (pe_noise s) = Some k" "ns_decrypt (pe_noise t) = Some k" "ns_handshakeDone (pe_noise s)"
    using conn by (auto simp: connected_def keyed_def)
  have peer_key: "ns_decrypt (pe_noise s) \<noteq> None" using conn unfolding connected_def keyed_def by metis
  note c = conn[unfolded connected_def]
  let ?y = "snd (sk_encrypt pkg k x)" and ?k = "fst (sk_encrypt pkg k x)"
  let ?m = "(pe_mux s)\<lparr>mx_sent := mx_sent (pe_mux s) @ [ingress_msg i ?y]\<rparr>"
  let ?s1 = "s\<lparr>pe_noise := (pe_noise s)\<lparr>ns_encrypt := Some ?k\<rparr>, pe_mux := ?m, pe_plain := pe_plain s @ [x]\<rparr>"
  have snd: "stream_send pkg None s x = Some (?s1, None)"
    using k cc_Send_ready(1)[of "pe_mux s" i "pe_chan s" ?y] c by (simp add: stream_send_def noise_send_def split_beta)
  obtain r1 r2 r3 outs where r: "r1 = relay_Process r (pe_addr s) (Relay_msg (ingress_msg i ?y))" "relay_step r r1" "relay_step r1 r2"
    "relay_step r2 r3" "rl_out r3 = rl_out r @ outs" "(pe_addr t, egress_msg i ?y) \<in> set outs" "relay_ready r3 i [pe_addr s, pe_addr t]"
    using relay_carries[of r i "pe_addr s" "pe_addr t" ?y] c by blast
  obtain m1 d where m1: "mux_routine (pe_mux t) (Inr (Relay_msg (egress_msg i ?y))) = Go_on m1"
    "(d, Inr ([], ?y)) \<in> set (cc_Receive (mx_objs m1 ! pe_chan t))"
    "mux_reachable (put_obj m1 (pe_chan t) d)" "mux_ready (put_obj m1 (pe_chan t) d) i (pe_chan t)"
    using mux_takes[of "pe_mux t" i "pe_chan t" ?y] c by blast
  let ?t1 = "t\<lparr>pe_mux := m1\<rparr>"
  let ?t2 = "t\<lparr>pe_mux := put_obj m1 (pe_chan t) d, pe_noise := (pe_noise t)\<lparr>ns_decrypt := Some ?k\<rparr>\<rparr>"
  have "trip r ?s1 t r3 ?t1" by (rule trip.intros[where w = "ingress_msg i ?y" and ?r2.0 = r2 and outs = outs]) (use r m1(1) in simp_all)
  moreover have "noise_receive (sk_decrypt pkg) (pe_noise t) (Inr ?y) = Some ((pe_noise t)\<lparr>ns_decrypt := Some ?k\<rparr>, Inr x)"
    using k by (simp add: noise_receive_def cipher)
  then have "Some (?t2, Inr x) \<in> set (stream_receive pkg ?t1)"
    using m1(2) by (force simp: stream_receive_def stream_decrypt_def Let_def image_iff)
  moreover have "relay_reachable r3" using c r(2-4) by (blast intro: relay_reachable.step)
  then have "connected i r3 ?s1 ?t2"
    using c r(7) m1(3,4) cc_Send_ready(2,3)[of "pe_mux s" i "pe_chan s" ?y] peer_key by (simp add: connected_def keyed_def del: not_None_eq)
  ultimately show ?thesis using snd by (intro exI[of _ ?s1] exI[of _ r3] exI[of _ ?t1] exI[of _ ?t2]) simp
qed

section \<open>One message and its acknowledgement\<close>

text \<open>A reliable stream with no call of \<open>send\<close> and nothing in its queues.\<close>

definition rel_ready :: "reliableStream \<Rightarrow> bool" where
  "rel_ready r =
     (rs_sending r = None \<and> rs_machine r = Reading \<and> chan_buf (rs_ackCh r) = [] \<and> chan_buf (rs_dataCh r) = [] \<and>
      \<not> chan_closed (rs_ackCh r) \<and> \<not> chan_closed (rs_dataCh r) \<and> 0 < chan_cap (rs_ackCh r) \<and> 0 < chan_cap (rs_dataCh r))"

abbreviation data_packet :: "reliableStream \<Rightarrow> bytes \<Rightarrow> ReliablePacket" where
  "data_packet r buf \<equiv> \<lparr>rp_type = RELIABLE_DATA, rp_sequence = rs_sequence r + 1, rp_data = buf\<rparr>"

abbreviation ack_packet :: "uint32 \<Rightarrow> ReliablePacket" where
  "ack_packet s \<equiv> \<lparr>rp_type = RELIABLE_ACK, rp_sequence = s, rp_data = []\<rparr>"

lemma receiver_passes:
  assumes "rel_ready r" and "\<not> s \<le> rs_lastAckd r"
  shows "\<exists>r1 r2. machine_push (fst (stateMachine r (Inr \<lparr>rp_type = RELIABLE_DATA, rp_sequence = s, rp_data = buf\<rparr>) None)) = Some r1 \<and>
    (r2, Inr buf) \<in> set (rs_receive r1) \<and> rel_ready r2 \<and> rs_lastAckd r2 = s \<and> hist_read r2 = hist_read r @ [buf]"
  using assms
  by (auto simp: rel_ready_def stateMachine_def machine_push_def chan_send_def rs_receive_def chan_recv_def)

lemma sender_returns:
  assumes "rel_ready r"
  shows "\<exists>r1 r2. machine_push (fst (stateMachine (fst (rs_send r buf None)) (Inr (ack_packet (rs_sequence r + 1))) None)) = Some r1 \<and>
    send_wait r1 Got_ack = Some (r2, []) \<and> rel_ready r2 \<and> rs_sequence r2 = rs_sequence r + 1 \<and>
    hist_results r2 = hist_results r @ [(rs_sequence r + 1, None)]"
  using assms
  by (auto simp: rel_ready_def stateMachine_def machine_push_def chan_send_def rs_send_def Let_def send_wait_def chan_recv_def
      send_returns_def)

text \<open>
  One call of \<open>send\<close> that returns nil: the packet goes to the other end, whose state machine answers it
  and passes the data on, \<open>receive\<close> there returns \<open>d\<close>, and the acknowledgement ends the call.
\<close>

inductive exchange ::
  "'c stack_pkg \<Rightarrow> bytes \<Rightarrow> bytes \<Rightarrow> Relay \<Rightarrow> ('h, 'c) peer \<Rightarrow> ('h, 'c) peer \<Rightarrow> Relay \<Rightarrow> ('h, 'c) peer \<Rightarrow> ('h, 'c) peer \<Rightarrow> bool" where
  "peer_send pkg None s buf = Some s1 \<Longrightarrow> trip r s1 t r1 t1 \<Longrightarrow> Some t2 \<in> set (machine_round pkg None t1) \<Longrightarrow>
   peer_push t2 = Some t3 \<Longrightarrow> (rt, Inr d) \<in> set (rs_receive (pe_rel t3)) \<Longrightarrow> trip r1 t3 s1 r2 s2 \<Longrightarrow>
   Some s3 \<in> set (machine_round pkg None s2) \<Longrightarrow> peer_push s3 = Some s4 \<Longrightarrow> send_wait (pe_rel s4) Got_ack = Some (rs, []) \<Longrightarrow>
   last (hist_results rs) = (rs_sequence rs, None) \<Longrightarrow>
   exchange pkg buf d r s t r2 (s4\<lparr>pe_rel := rs\<rparr>) (t3\<lparr>pe_rel := rt\<rparr>)"

definition session_up :: "string \<Rightarrow> Relay \<Rightarrow> ('h, 'c) peer \<Rightarrow> ('h, 'c) peer \<Rightarrow> bool" where
  "session_up i r s t \<longleftrightarrow>
     connected i r s t \<and> rel_ready (pe_rel s) \<and> rel_ready (pe_rel t) \<and> rs_lastAckd (pe_rel t) = rs_sequence (pe_rel s)"

lemma machine_round_data:
  assumes "Some (t2, Inr enc) \<in> set (stream_receive pkg t1)" and "sk_Unmarshal pkg enc = Inr \<lparr>rp_type = RELIABLE_DATA, rp_sequence = s, rp_data = buf\<rparr>"
    and "sk_Marshal pkg (ack_packet s) = Some ack" and "stream_send pkg None t2 ack = Some (t3, None)"
  shows "Some (t3\<lparr>pe_rel := fst (stateMachine (pe_rel t2) (Inr \<lparr>rp_type = RELIABLE_DATA, rp_sequence = s, rp_data = buf\<rparr>) None)\<rparr>)
    \<in> set (machine_round pkg None t1)"
  unfolding machine_round_def set_map
  by (rule image_eqI[OF _ assms(1)]) (simp add: machine_handle_def assms(2-4))

lemma machine_round_ack:
  assumes "Some (t2, Inr enc) \<in> set (stream_receive pkg t1)" and "sk_Unmarshal pkg enc = Inr (ack_packet s)"
  shows "Some (t2\<lparr>pe_rel := fst (stateMachine (pe_rel t2) (Inr (ack_packet s)) None)\<rparr>) \<in> set (machine_round pkg None t1)"
  unfolding machine_round_def set_map
  by (rule image_eqI[OF _ assms(1)]) (simp add: machine_handle_def assms(2))

lemma exchange_happens:
  assumes up: "session_up i r s t" and room: "unat (rs_sequence (pe_rel s)) + 1 < 2 ^ 32"
    and cipher: "\<And>k m. sk_decrypt pkg k (snd (sk_encrypt pkg k m)) = (fst (sk_encrypt pkg k m), Inr m)"
    and codec: "\<And>p. \<exists>b. sk_Marshal pkg p = Some b \<and> sk_Unmarshal pkg b = Inr p"
  shows "\<exists>r' s' t'. exchange pkg buf buf r s t r' s' t' \<and> session_up i r' s' t' \<and>
    rs_sequence (pe_rel s') = rs_sequence (pe_rel s) + 1 \<and>
    hist_results (pe_rel s') = hist_results (pe_rel s) @ [(rs_sequence (pe_rel s) + 1, None)] \<and>
    hist_read (pe_rel t') = hist_read (pe_rel t) @ [buf]"
proof -
  let ?q = "rs_sequence (pe_rel s) + 1" and ?dp = "data_packet (pe_rel s) buf"
  have conn: "connected i r s t" and rel: "rel_ready (pe_rel s)" "rel_ready (pe_rel t)"
    and last: "rs_lastAckd (pe_rel t) = rs_sequence (pe_rel s)" using up by (auto simp: session_up_def)
  have "unat ?q = unat (rs_sequence (pe_rel s)) + 1" using room by (simp add: unat_word_ariths)
  then have new: "\<not> ?q \<le> rs_lastAckd (pe_rel t)" by (simp add: last word_le_nat_alt)
  obtain d where d: "sk_Marshal pkg ?dp = Some d" "sk_Unmarshal pkg d = Inr ?dp" using codec by blast
  obtain a where a: "sk_Marshal pkg (ack_packet ?q) = Some a" "sk_Unmarshal pkg a = Inr (ack_packet ?q)" using codec by blast
  obtain s1 r1 t1 t2 where w1: "stream_send pkg None s d = Some (s1, None)" "trip r s1 t r1 t1"
      "Some (t2, Inr d) \<in> set (stream_receive pkg t1)" "connected i r1 s1 t2" "pe_rel t2 = pe_rel t"
    using one_way[OF conn cipher, of d] by blast
  let ?s1 = "s1\<lparr>pe_rel := fst (rs_send (pe_rel s) buf None)\<rparr>"
  have "connected i r1 t2 ?s1" using w1(4) by (simp add: connected_sym[of i r1 t2])
  then obtain t3 r2 s2 s3 where w2: "stream_send pkg None t2 a = Some (t3, None)" "trip r1 t3 ?s1 r2 s2"
      "Some (s3, Inr a) \<in> set (stream_receive pkg s2)" "connected i r2 t3 s3" "pe_rel s3 = pe_rel ?s1"
    using one_way[OF _ cipher, of i r1 t2 ?s1 a] by blast
  obtain rt1 rt2 where rt: "machine_push (fst (stateMachine (pe_rel t) (Inr ?dp) None)) = Some rt1" "(rt2, Inr buf) \<in> set (rs_receive rt1)"
      "rel_ready rt2" "rs_lastAckd rt2 = ?q" "hist_read rt2 = hist_read (pe_rel t) @ [buf]"
    using receiver_passes[OF rel(2) new, of buf] by blast
  obtain rs1 rs2 where rs: "machine_push (fst (stateMachine (fst (rs_send (pe_rel s) buf None)) (Inr (ack_packet ?q)) None)) = Some rs1"
      "send_wait rs1 Got_ack = Some (rs2, [])" "rel_ready rs2" "rs_sequence rs2 = ?q" "hist_results rs2 = hist_results (pe_rel s) @ [(?q, None)]"
    using sender_returns[OF rel(1), of buf] by blast
  have "exchange pkg buf buf r s t r2 (s3\<lparr>pe_rel := rs1\<rparr>\<lparr>pe_rel := rs2\<rparr>) (t3\<lparr>pe_rel := rt1\<rparr>\<lparr>pe_rel := rt2\<rparr>)"
  proof (rule exchange.intros)
    show "peer_send pkg None s buf = Some ?s1" using d(1) w1(1) by (simp add: peer_send_def)
    show "trip r ?s1 t r1 t1" by (rule trip_sender[OF w1(2)])
    show "Some (t3\<lparr>pe_rel := fst (stateMachine (pe_rel t2) (Inr ?dp) None)\<rparr>) \<in> set (machine_round pkg None t1)"
      by (rule machine_round_data[OF w1(3) d(2) a(1) w2(1)])
    show "peer_push (t3\<lparr>pe_rel := fst (stateMachine (pe_rel t2) (Inr ?dp) None)\<rparr>) = Some (t3\<lparr>pe_rel := rt1\<rparr>)"
      using rt(1) w1(5) by (simp add: peer_push_def)
    show "(rt2, Inr buf) \<in> set (rs_receive (pe_rel (t3\<lparr>pe_rel := rt1\<rparr>)))" using rt(2) by simp
    show "trip r1 (t3\<lparr>pe_rel := rt1\<rparr>) ?s1 r2 s2" by (rule trip_sender[OF w2(2)])
    show "Some (s3\<lparr>pe_rel := fst (stateMachine (pe_rel s3) (Inr (ack_packet ?q)) None)\<rparr>) \<in> set (machine_round pkg None s2)"
      by (rule machine_round_ack[OF w2(3) a(2)])
    show "peer_push (s3\<lparr>pe_rel := fst (stateMachine (pe_rel s3) (Inr (ack_packet ?q)) None)\<rparr>) = Some (s3\<lparr>pe_rel := rs1\<rparr>)"
      using rs(1) w2(5) by (simp add: peer_push_def)
    show "send_wait (pe_rel (s3\<lparr>pe_rel := rs1\<rparr>)) Got_ack = Some (rs2, [])" using rs(2) by simp
    show "last (hist_results rs2) = (rs_sequence rs2, None)" by (simp add: rs(4,5))
  qed
  moreover have "connected i r2 s3 t3" using w2(4) connected_sym by blast
  ultimately show ?thesis using rt(3-5) rs(3-5)
    by (intro exI[of _ r2] exI[of _ "s3\<lparr>pe_rel := rs2\<rparr>"] exI[of _ "t3\<lparr>pe_rel := rt2\<rparr>"]) (simp add: session_up_def)
qed

section \<open>Any number of messages\<close>

fun exchanges ::
  "'c stack_pkg \<Rightarrow> (bytes \<times> bytes) list \<Rightarrow> Relay \<Rightarrow> ('h, 'c) peer \<Rightarrow> ('h, 'c) peer \<Rightarrow> Relay \<Rightarrow> ('h, 'c) peer \<Rightarrow> ('h, 'c) peer \<Rightarrow> bool" where
  "exchanges pkg [] r s t r' s' t' = (r' = r \<and> s' = s \<and> t' = t)"
| "exchanges pkg ((buf, d) # ms) r s t r' s' t' =
     (\<exists>r1 s1 t1. exchange pkg buf d r s t r1 s1 t1 \<and> exchanges pkg ms r1 s1 t1 r' s' t')"

text \<open>
  C6. The whole stack delivers: two clients with a session over one channel of the relay can exchange any
  sequence of messages, as long as the 32-bit sequence numbers last. Each call of \<open>send\<close> goes through
  the encoder, the cipher, the multiplexer, the relay's handler and goroutine and up again on the other
  side, each \<open>receive\<close> there returns the bytes that were sent, each acknowledgement comes back the same
  way and makes \<open>send\<close> return nil, and the session is then as ready as before.
\<close>

theorem stack_delivers:
  assumes "session_up i r s t" and "unat (rs_sequence (pe_rel s)) + length bufs < 2 ^ 32"
    and "\<And>k m. sk_decrypt pkg k (snd (sk_encrypt pkg k m)) = (fst (sk_encrypt pkg k m), Inr m)"
    and "\<And>p. \<exists>b. sk_Marshal pkg p = Some b \<and> sk_Unmarshal pkg b = Inr p"
  shows "\<exists>r' s' t'. exchanges pkg (map (\<lambda>b. (b, b)) bufs) r s t r' s' t' \<and> session_up i r' s' t' \<and>
    hist_read (pe_rel t') = hist_read (pe_rel t) @ bufs \<and>
    map snd (hist_results (pe_rel s')) = map snd (hist_results (pe_rel s)) @ replicate (length bufs) None"
  using assms(1,2)
proof (induction bufs arbitrary: r s t)
  case Nil
  then show ?case by auto
next
  case (Cons buf bufs)
  have room: "unat (rs_sequence (pe_rel s)) + 1 < 2 ^ 32" using Cons.prems(2) by simp
  obtain r1 s1 t1 where one: "exchange pkg buf buf r s t r1 s1 t1" "session_up i r1 s1 t1"
      "rs_sequence (pe_rel s1) = rs_sequence (pe_rel s) + 1"
      "hist_results (pe_rel s1) = hist_results (pe_rel s) @ [(rs_sequence (pe_rel s) + 1, None)]"
      "hist_read (pe_rel t1) = hist_read (pe_rel t) @ [buf]"
    using exchange_happens[OF Cons.prems(1) room assms(3,4), of buf] by blast
  have "unat (rs_sequence (pe_rel s1)) = unat (rs_sequence (pe_rel s)) + 1"
    unfolding one(3) using room by (simp add: unat_word_ariths)
  then have "unat (rs_sequence (pe_rel s1)) + length bufs < 2 ^ 32" using Cons.prems(2) by simp
  from Cons.IH[OF one(2) this] one(1,4,5) show ?case by fastforce
qed

text \<open>A relay with a channel and two members, two clients of it, a cipher with a counter and a plain encoder.\<close>

abbreviation "addr_a \<equiv> ''tcp://10.0.0.4:1''"
abbreviation "addr_b \<equiv> ''tcp://10.0.0.4:2''"

definition pair_channel :: "Address list \<Rightarrow> Address list \<Rightarrow> channel" where
  "pair_channel waiting joined = (newChannel ''abcde'')\<lparr>ch_join := (make_chan ChannelQueueSize)\<lparr>chan_buf := waiting\<rparr>,
     ch_clients := map (\<lambda>a. (a, True)) joined\<rparr>"

definition pair_relay :: "Address list \<Rightarrow> Address list \<Rightarrow> (Address \<times> RelayMessage) list \<Rightarrow> Relay" where
  "pair_relay waiting joined outs = \<lparr>rl_channels = [(''abcde'', pair_channel waiting joined)], rl_calls = [], rl_out = outs\<rparr>"

lemmas pair_defs = pair_relay_def pair_channel_def newChannel_def make_chan_def ChannelQueueSize_def

lemma pair_join:
  assumes "relay_reachable (pair_relay [] joined outs)" and "a \<notin> set joined" and "length joined < ChannelSize"
  shows "\<exists>outs'. relay_reachable (pair_relay [] (joined @ [a]) outs')"
proof -
  let ?m = "plain_msg ''abcde'' JOIN" and ?r = "pair_relay [] joined outs"
  have p: "relay_Process ?r a (Relay_msg ?m) = ?r\<lparr>rl_calls := [(''abcde'', a, ?m)]\<rparr>"
    by (simp add: relay_Process_def plain_msg_def pair_relay_def)
  have s1: "relay_step ?r (?r\<lparr>rl_calls := [(''abcde'', a, ?m)]\<rparr>)"
    using relay_step.handle[of ?r a "Relay_msg ?m"] by (simp add: p) (simp add: pair_relay_def)
  have "newMessage (pair_channel [] joined) a ?m = Happens (pair_channel [a] joined)"
    by (simp add: newMessage_def plain_msg_def chan_send_def map_happens_def pair_defs)
  then have s2: "relay_step (?r\<lparr>rl_calls := [(''abcde'', a, ?m)]\<rparr>) (pair_relay [a] joined outs)"
    using relay_step.call[of "?r\<lparr>rl_calls := [(''abcde'', a, ?m)]\<rparr>" "''abcde''" a ?m "[]" "pair_channel [] joined"]
    by (simp add: pair_relay_def put_channel_def)
  have new: "map_of (map (\<lambda>a. (a, True)) joined) a = None" using assms(2) by (auto simp: map_of_eq_None_iff)
  have "fst (addClient (pair_channel [] joined) a) = pair_channel [] (joined @ [a])"
    using assms(3) new update_new_append[OF new] by (simp add: addClient_def Let_def pair_defs)
  moreover have "addClient (pair_channel [] joined) a \<in> set (select_cases (pair_channel [a] joined))"
    by (simp add: select_cases_def chan_recv_def pair_defs)
  ultimately have "relay_step (pair_relay [a] joined outs)
      (pair_relay [] (joined @ [a]) (outs @ snd (addClient (pair_channel [] joined) a)))"
    using relay_step.select[of "pair_relay [a] joined outs" "''abcde''" "pair_channel [a] joined"
        "pair_channel [] (joined @ [a])" "snd (addClient (pair_channel [] joined) a)"]
    by (cases "addClient (pair_channel [] joined) a") (simp add: pair_relay_def put_channel_def pair_channel_def newChannel_def)
  then show ?thesis using assms(1) s1 s2 by (blast intro: relay_reachable.step)
qed

lemma pair_relay_reachable: "\<exists>outs. relay_reachable (pair_relay [] [addr_a, addr_b] outs)"
proof -
  let ?m = "plain_msg ''abcde'' JOIN"
  let ?p = "relay_Process NewRelay addr_a (Relay_msg ?m)"
  have p: "?p = \<lparr>rl_channels = [(''abcde'', newChannel ''abcde'')], rl_calls = [(''abcde'', addr_a, ?m)], rl_out = []\<rparr>"
    by (simp add: relay_Process_def plain_msg_def NewRelay_def)
  have "relay_reachable ?p"
    by (intro relay_reachable.step[OF relay_reachable.start] relay_step.handle) (simp add: NewRelay_def)
  moreover have "newMessage (newChannel ''abcde'') addr_a ?m = Happens (pair_channel [addr_a] [])"
    by (simp add: newMessage_def plain_msg_def chan_send_def map_happens_def pair_defs)
  then have "relay_step ?p (pair_relay [addr_a] [] [])"
    using relay_step.call[of ?p "''abcde''" addr_a ?m "[]" "newChannel ''abcde''"]
    by (simp add: p pair_relay_def put_channel_def)
  moreover have "addClient (pair_channel [] []) addr_a \<in> set (select_cases (pair_channel [addr_a] []))"
    by (simp add: select_cases_def chan_recv_def pair_defs)
  then have "relay_step (pair_relay [addr_a] [] []) (pair_relay [] [addr_a] (snd (addClient (pair_channel [] []) addr_a)))"
    using relay_step.select[of "pair_relay [addr_a] [] []" "''abcde''" "pair_channel [addr_a] []" "pair_channel [] [addr_a]"]
    by (simp add: addClient_def Let_def pair_relay_def put_channel_def pair_channel_def newChannel_def ChannelSize_def)
  ultimately have "relay_reachable (pair_relay [] [addr_a] (snd (addClient (pair_channel [] []) addr_a)))"
    by (blast intro: relay_reachable.step)
  from pair_join[OF this, of addr_b] show ?thesis by (simp add: ChannelSize_def)
qed

definition plain_codec :: "byte stack_pkg" where
  "plain_codec = \<lparr>sk_encrypt = toy_encrypt, sk_decrypt = toy_decrypt,
     sk_Marshal = (\<lambda>p. Some ((if rp_type p = RELIABLE_DATA then 1 else 0) # be32_encode (rp_sequence p) @ rp_data p)),
     sk_Unmarshal = (\<lambda>b. case b of [] \<Rightarrow> Inl ''short'' | ty # rest \<Rightarrow>
        (case be32_decode rest of None \<Rightarrow> Inl ''short''
         | Some (q, d) \<Rightarrow> Inr \<lparr>rp_type = if ty = 1 then RELIABLE_DATA else RELIABLE_ACK, rp_sequence = q, rp_data = d\<rparr>)),
     sk_text = (\<lambda>e. ''error'')\<rparr>"

definition pair_peer :: "Address \<Rightarrow> (nat, byte) peer" where
  "pair_peer a = \<lparr>pe_addr = a, pe_mux = one_channel, pe_chan = 0, pe_noise = toy_ready, pe_rel = newReliableStream, pe_plain = []\<rparr>"

theorem stack_delivers_witness:
  "\<exists>r s t r' s' t'. session_up ''abcde'' r s t \<and> exchanges plain_codec [([5], [5]), ([6, 7], [6, 7])] r s t r' s' t' \<and>
     hist_read (pe_rel (t' :: (nat, byte) peer)) = [[5], [6, 7]]"
proof -
  obtain outs where "relay_reachable (pair_relay [] [addr_a, addr_b] outs)" using pair_relay_reachable by blast
  then have up: "session_up ''abcde'' (pair_relay [] [addr_a, addr_b] outs) (pair_peer addr_a) (pair_peer addr_b)"
    using one_channel_reachable
    by (simp add: session_up_def connected_def relay_ready_def mux_ready_def keyed_def rel_ready_def pair_peer_def members_def
        pair_relay_def pair_channel_def newChannel_def make_chan_def one_channel_def egress_of_def newClientChannel_def
        toy_ready_def newReliableStream_def ReliableMessageBuffer_def)
  have codec: "\<exists>b. sk_Marshal plain_codec p = Some b \<and> sk_Unmarshal plain_codec b = Inr p" for p
    by (cases p; cases "rp_type p") (auto simp: plain_codec_def be32_decode_encode)
  have cipher: "sk_decrypt plain_codec k (snd (sk_encrypt plain_codec k m)) = (fst (sk_encrypt plain_codec k m), Inr m)" for k m
    by (simp add: plain_codec_def toy_encrypt_def toy_decrypt_def)
  have fit: "unat (rs_sequence (pe_rel (pair_peer addr_a))) + length [[5], [6, 7 :: byte]] < 2 ^ 32"
    by (simp add: pair_peer_def newReliableStream_def)
  from stack_delivers[OF up fit cipher codec] up show ?thesis
    by (simp add: pair_peer_def newReliableStream_def) blast
qed

end
