(* ===== verification/Client_Session.thy ===== *)
theory Client_Session
  imports Client_Stack Go_Steps
begin

text \<open>
  Two clients and a relay they do not trust. Each client is a stack of Client\_Stack; the relay is
  the adversary: it may give a multiplexer any message at any time, or none, and other channels of the
  same connection may do what they like. All the code relies on is that the cipher accepts only what the
  other end has encrypted. The system is a step relation, and it simulates the session of
  Client\_Reliable, in which packets are lost, repeated and reordered.
\<close>

section \<open>The system\<close>

text \<open>\<open>reliableStream.close\<close>, with the channel below.\<close>

definition peer_close :: "string option \<Rightarrow> ('h, 'c) peer \<Rightarrow> ('h, 'c) peer chan_result" where
  "peer_close conn_err s =
     (case rs_close (pe_rel s) of
        Happens r \<Rightarrow>
          (case noise_close (pe_mux s) (pe_chan s) conn_err of
             Happens m \<Rightarrow> Happens (s\<lparr>pe_rel := r, pe_mux := m\<rparr>)
           | Blocks \<Rightarrow> Blocks
           | Panics \<Rightarrow> Panics)
      | Blocks \<Rightarrow> Blocks
      | Panics \<Rightarrow> Panics)"

text \<open>The events of a reliable stream that do not reach the stream below.\<close>

definition local_event :: "rs_event \<Rightarrow> bool" where
  "local_event ev =
     (case ev of
        Ev_wait w \<Rightarrow> (case w of Retry _ \<Rightarrow> False | _ \<Rightarrow> True)
      | Ev_push \<Rightarrow> True
      | Ev_receive _ \<Rightarrow> True
      | _ \<Rightarrow> False)"

type_synonym ('h, 'c) clients = "bool \<Rightarrow> ('h, 'c) peer"

inductive clients_step :: "'c stack_pkg \<Rightarrow> ('h, 'c) clients \<Rightarrow> ('h, 'c) clients \<Rightarrow> bool" for pkg where
  call: "rs_sending (pe_rel (p b)) = None \<Longrightarrow> peer_send pkg ce (p b) buf = Some s \<Longrightarrow> clients_step pkg p (p(b := s))"
| retry: "peer_retry pkg ce (p b) = Some s \<Longrightarrow> clients_step pkg p (p(b := s))"
| round: "rs_machine (pe_rel (p b)) = Reading \<Longrightarrow> Some s \<in> set (machine_round pkg ce (p b)) \<Longrightarrow>
    unforged pkg (p b) (p (\<not> b)) \<Longrightarrow> clients_step pkg p (p(b := s))"
| local: "local_event ev \<Longrightarrow> rs_step (pe_rel (p b)) ev = Some (r, out) \<Longrightarrow> clients_step pkg p (p(b := (p b)\<lparr>pe_rel := r\<rparr>))"
| close: "peer_close ce (p b) = Happens s \<Longrightarrow> clients_step pkg p (p(b := s))"
| relay: "mux_routine (pe_mux (p b)) (Inr nm) = Go_on m \<Longrightarrow> clients_step pkg p (p(b := (p b)\<lparr>pe_mux := m\<rparr>))"
| channels: "mux_step (pe_mux (p b)) m \<Longrightarrow> clients_step pkg p (p(b := (p b)\<lparr>pe_mux := m\<rparr>))"

text \<open>The streams as \<open>newStream\<close> leaves them; channels and ciphers may be in any state.\<close>

definition clients_start :: "('h, 'c) clients \<Rightarrow> bool" where
  "clients_start p \<longleftrightarrow> (\<forall>b. pe_rel (p b) = newReliableStream \<and> pe_plain (p b) = [])"

section \<open>The simulation\<close>

definition encoder_ok :: "'c stack_pkg \<Rightarrow> bool" where
  "encoder_ok pkg \<longleftrightarrow> (\<forall>q x. sk_Marshal pkg q = Some x \<longrightarrow> sk_Unmarshal pkg x = Inr q)"

definition session_of :: "'c stack_pkg \<Rightarrow> ('h, 'c) clients \<Rightarrow> session \<Rightarrow> bool" where
  "session_of pkg p c \<longleftrightarrow> encoder_ok pkg \<and> ends c = (\<lambda>b. pe_rel (p b)) \<and>
     (\<forall>b. \<forall>x \<in> set (pe_plain (p b)). \<exists>q \<in> set (wire c b). sk_Marshal pkg q = Some x)"

lemma session_of_step:
  assumes "session_of pkg p c" and "rs_step (pe_rel (p b)) ev = Some (pe_rel s, out)" and "put_on_wire pkg (p b) s out"
    and "from_wire ev (wire c (\<not> b))"
  shows "\<exists>c'. session_step\<^sup>*\<^sup>* c c' \<and> session_of pkg (p(b := s)) c'"
proof -
  let ?c = "\<lparr>ends = (ends c)(b := pe_rel s), wire = (wire c)(b := wire c b @ out)\<rparr>"
  have "session_step c ?c" using assms(1,2,4) by (intro session_step.intros) (simp_all add: session_of_def)
  moreover have "session_of pkg (p(b := s)) ?c"
    using assms(1,3) by (fastforce simp: session_of_def put_on_wire_def fun_eq_iff)
  ultimately show ?thesis by blast
qed

text \<open>A step that touches neither the reliable stream nor what was sent.\<close>

lemma session_of_frame:
  assumes "session_of pkg p c" and "pe_rel s = pe_rel (p b)" and "pe_plain s = pe_plain (p b)"
  shows "session_of pkg (p(b := s)) c"
proof -
  have "(\<lambda>d. pe_rel ((p(b := s)) d)) = (\<lambda>d. pe_rel (p d))" using assms(2) by auto
  then show ?thesis using assms(1,3) by (simp add: session_of_def)
qed

lemma session_of_packet:
  assumes "session_of pkg p c" and "x \<in> set (pe_plain (p b))" and "sk_Unmarshal pkg x = Inr rp"
  shows "rp \<in> set (wire c b)"
proof -
  obtain q where "q \<in> set (wire c b)" "sk_Marshal pkg q = Some x" using assms(1,2) by (auto simp: session_of_def)
  then show ?thesis using assms(1,3) by (auto simp: session_of_def encoder_ok_def)
qed

lemma clients_step_simulated:
  assumes "session_of pkg p c" and "clients_step pkg p p'"
  shows "\<exists>c'. session_step\<^sup>*\<^sup>* c c' \<and> session_of pkg p' c'"
  using assms(2)
proof cases
  case (call b ce buf s)
  then show ?thesis using peer_send_refines[OF call(3,2)] session_of_step[OF assms(1)] by (auto simp: from_wire_def)
next
  case (retry ce b s)
  then show ?thesis using peer_retry_refines[OF retry(2)] session_of_step[OF assms(1)] by (auto simp: from_wire_def)
next
  case (round b s ce)
  then obtain ev out where ev: "rs_step (pe_rel (p b)) ev = Some (pe_rel s, out)" "put_on_wire pkg (p b) s out"
      "case ev of Ev_packet rp _ \<Rightarrow> (\<exists>x \<in> set (pe_plain (p (\<not> b))). sk_Unmarshal pkg x = Inr rp) | Ev_stream_error _ \<Rightarrow> True | _ \<Rightarrow> False"
    using machine_round_refines[OF round(3,2,4)] by blast
  moreover have "from_wire ev (wire c (\<not> b))"
    using ev(3) session_of_packet[OF assms(1)] by (auto simp: from_wire_def split: rs_event.splits)
  ultimately show ?thesis using session_of_step[OF assms(1)] round(1) by blast
next
  case (local ev b r out)
  then show ?thesis using session_of_step[OF assms(1), of b ev "(p b)\<lparr>pe_rel := r\<rparr>" out]
    by (auto simp: from_wire_def local_event_def split: rs_event.splits)
next
  case (close ce b s)
  then have "rs_step (pe_rel (p b)) Ev_close = Some (pe_rel s, [])" "pe_plain s = pe_plain (p b)"
    by (auto simp: peer_close_def rs_step_def split: chan_result.splits)
  then show ?thesis using session_of_step[OF assms(1), of b Ev_close s "[]"] close(1) by (simp add: from_wire_def)
next
  case (relay b nm m)
  then show ?thesis using session_of_frame[OF assms(1), of "(p b)\<lparr>pe_mux := m\<rparr>" b] by auto
next
  case (channels b m)
  then show ?thesis using session_of_frame[OF assms(1), of "(p b)\<lparr>pe_mux := m\<rparr>" b] by auto
qed

lemma clients_start_simulated: "encoder_ok pkg \<Longrightarrow> clients_start p \<Longrightarrow> session_of pkg p new_session"
  by (auto simp: clients_start_def session_of_def new_session_def)

interpretation untrusted: simulation
  "\<lambda>p. encoder_ok pkg \<and> clients_start p" "clients_step pkg" "\<lambda>c. c = new_session" session_step "session_of pkg" for pkg
  by unfold_locales (auto intro: clients_start_simulated clients_step_simulated)

lemma session_steps_reachable: "session_step\<^sup>*\<^sup>* c c' \<Longrightarrow> session_reachable c \<Longrightarrow> session_reachable c'"
  by (induction rule: rtranclp_induct) (auto intro: session_reachable.step)

section \<open>What the clients can rely on\<close>

lemma untrusted_delivery:
  assumes "encoder_ok pkg" and "clients_start p" and "(clients_step pkg)\<^sup>*\<^sup>* p p'"
    and "\<And>b. length (hist_sent (pe_rel (p' b))) < 2 ^ 32"
  shows "subseq (hist_accepted (pe_rel (p' (\<not> b)))) (hist_sent (pe_rel (p' b))) \<and>
    handed_up (pe_rel (p' (\<not> b))) = map snd (hist_accepted (pe_rel (p' (\<not> b)))) \<and>
    (\<forall>n. (n, None) \<in> set (hist_results (pe_rel (p' b))) \<longrightarrow> count_list (map fst (hist_accepted (pe_rel (p' (\<not> b))))) n = 1)"
proof -
  obtain c where "session_step\<^sup>*\<^sup>* new_session c" and c: "session_of pkg p' c"
    using untrusted.simulates[of pkg p p'] assms(1-3) by blast
  then have "session_reachable c" by (intro session_steps_reachable[OF _ session_reachable.start])
  moreover have ends: "ends c = (\<lambda>b. pe_rel (p' b))" using c by (simp add: session_of_def)
  ultimately show ?thesis using session_delivery[of c b] assms(4) by simp
qed

text \<open>
  C4. Whatever the relay does: in every interleaving of two clients and a relay that may send anything, as
  long as the cipher accepts only what the other end encrypted and no end sends \<open>2 ^ 32\<close> messages, the
  packets one client accepts are a subsequence of those the other was asked to send; their data, and
  nothing else, is what its application has read, what waits in \<open>dataCh\<close> and what is being put there, in
  this order; the next \<open>receive\<close> returns the first of it that was not read; and the packet of a \<open>send\<close> that
  returned nil has been accepted exactly once.
\<close>

theorem untrusted_relay_delivery:
  assumes "encoder_ok pkg" and "clients_start p" and "(clients_step pkg)\<^sup>*\<^sup>* p p'"
    and "\<And>b. length (hist_sent (pe_rel (p' b))) < 2 ^ 32"
  shows "subseq (hist_accepted (pe_rel (p' (\<not> b)))) (hist_sent (pe_rel (p' b))) \<and>
    hist_read (pe_rel (p' (\<not> b))) @ chan_buf (rs_dataCh (pe_rel (p' (\<not> b)))) @
      (case rs_machine (pe_rel (p' (\<not> b))) of Pushing_data d \<Rightarrow> [d] | _ \<Rightarrow> []) = map snd (hist_accepted (pe_rel (p' (\<not> b)))) \<and>
    (\<forall>r d. (r, Inr d) \<in> set (rs_receive (pe_rel (p' (\<not> b)))) \<longrightarrow>
       prefix (hist_read (pe_rel (p' (\<not> b))) @ [d]) (map snd (hist_accepted (pe_rel (p' (\<not> b)))))) \<and>
    (\<forall>n. (n, None) \<in> set (hist_results (pe_rel (p' b))) \<longrightarrow> count_list (map fst (hist_accepted (pe_rel (p' (\<not> b))))) n = 1)"
  using untrusted_delivery[OF assms, of b] rs_receive_next[of _ _ "pe_rel (p' (\<not> b))"] unfolding handed_up_def by metis

text \<open>
  The witness: one client sends, the relay delivers, and the other client's state machine passes the
  message on.
\<close>

definition demo_clients :: "(nat, byte) clients" where
  "demo_clients b = pair_peer (if b then addr_a else addr_b)"

definition demo_send :: "(nat, byte) peer" where
  "demo_send = the (peer_send plain_codec None (demo_clients True) [5])"

definition demo_mux :: Multiplexer where
  "demo_mux = one_channel\<lparr>mx_objs := [(newClientChannel ''abcde'')\<lparr>cc_egress :=
     (make_chan queueSize)\<lparr>chan_buf := [egress_msg ''abcde'' (snd (toy_encrypt 0 (last (pe_plain demo_send))))]\<rparr>\<rparr>]\<rparr>"

definition demo_receive :: "(nat, byte) peer" where
  "demo_receive = the (hd (machine_round plain_codec None ((demo_clients False)\<lparr>pe_mux := demo_mux\<rparr>)))"

lemma plain_codec_ok: "encoder_ok plain_codec"
proof -
  have "sk_Unmarshal plain_codec (the (sk_Marshal plain_codec q)) = Inr q \<and> sk_Marshal plain_codec q \<noteq> None" for q
    by (cases q; cases "rp_type q") (auto simp: plain_codec_def)
  then show ?thesis unfolding encoder_ok_def by (metis option.sel)
qed

lemma demo_steps:
  "peer_send plain_codec None (demo_clients True) [5] = Some demo_send"
  "mux_routine one_channel (Inr (Relay_msg (egress_msg ''abcde'' (snd (toy_encrypt 0 (last (pe_plain demo_send))))))) = Go_on demo_mux"
  "unforged plain_codec ((demo_clients False)\<lparr>pe_mux := demo_mux\<rparr>) demo_send"
  "hd (machine_round plain_codec None ((demo_clients False)\<lparr>pe_mux := demo_mux\<rparr>)) = Some demo_receive"
  "machine_round plain_codec None ((demo_clients False)\<lparr>pe_mux := demo_mux\<rparr>) \<noteq> []"
  "hist_accepted (pe_rel demo_receive) = [(1, [5])]"
  "hist_sent (pe_rel demo_send) = [(1, [5])]" "hist_sent (pe_rel demo_receive) = []"
  by code_simp+

lemma demo_run: "(clients_step plain_codec)\<^sup>*\<^sup>* demo_clients (demo_clients(True := demo_send, False := demo_receive))"
proof -
  let ?p1 = "demo_clients(True := demo_send)"
  let ?t = "(demo_clients False)\<lparr>pe_mux := demo_mux\<rparr>"
  let ?p2 = "?p1(False := ?t)"
  have "clients_step plain_codec demo_clients ?p1"
    using clients_step.call[of demo_clients True plain_codec None "[5]" demo_send] demo_steps(1)
    by (simp add: demo_clients_def pair_peer_def newReliableStream_def)
  moreover have "clients_step plain_codec ?p1 ?p2"
    using clients_step.relay[of ?p1 False _ demo_mux plain_codec] demo_steps(2) by (simp add: demo_clients_def pair_peer_def)
  moreover have "Some demo_receive \<in> set (machine_round plain_codec None ?t)" using demo_steps(4,5) by (metis hd_in_set)
  then have "clients_step plain_codec ?p2 (?p2(False := demo_receive))"
    using clients_step.round[of ?p2 False demo_receive plain_codec None] demo_steps(3)
    by (simp add: demo_clients_def pair_peer_def newReliableStream_def)
  then have "clients_step plain_codec ?p2 (demo_clients(True := demo_send, False := demo_receive))" by (simp add: fun_upd_upd)
  ultimately show ?thesis by (meson rtranclp.rtrancl_into_rtrancl rtranclp.rtrancl_refl)
qed

theorem untrusted_relay_delivery_witness:
  "hist_read (pe_rel demo_receive) @ chan_buf (rs_dataCh (pe_rel demo_receive)) @
     (case rs_machine (pe_rel demo_receive) of Pushing_data d \<Rightarrow> [d] | _ \<Rightarrow> []) = [[5]] \<and>
   hist_accepted (pe_rel demo_receive) = [(1, [5])]"
proof -
  have "clients_start demo_clients" by (simp add: clients_start_def demo_clients_def pair_peer_def)
  moreover have "length (hist_sent (pe_rel ((demo_clients(True := demo_send, False := demo_receive)) b))) < 2 ^ 32" for b
    using demo_steps(7,8) by (cases b) simp_all
  ultimately show ?thesis using untrusted_relay_delivery[OF plain_codec_ok _ demo_run, of True] demo_steps(6) by simp
qed

end
