(* ===== verification/Client_Calls.thy ===== *)
theory Client_Calls
  imports Client_Session
begin

text \<open>
  From application to application: the messages a client gives to \<open>Send\<close> of its router (client/router.go) are
  encoded and sent on a stream, and \<open>processStream\<close> of the other client decodes what it receives and calls its
  processors. The streams are those of Client\_Session, with a relay between them that may do anything.
\<close>

section \<open>Encodings along a subsequence\<close>

lemma list_all2_subseq:
  "subseq ys xs \<Longrightarrow> list_all2 R ms xs \<Longrightarrow> \<exists>ns. subseq ns ms \<and> list_all2 R ns ys"
proof (induction arbitrary: ms rule: list_emb.induct)
  case (list_emb_Nil xs)
  then show ?case by (intro exI[of _ "[]"]) simp
next
  case (list_emb_Cons ys xs x)
  then obtain m ms' where "ms = m # ms'" "list_all2 R ms' xs" by (auto simp: list_all2_Cons2)
  then show ?case using list_emb_Cons.IH[of ms'] by (auto intro: list_emb.list_emb_Cons)
next
  case (list_emb_Cons2 y x ys xs)
  then obtain m ms' where ms: "ms = m # ms'" "R m x" "list_all2 R ms' xs" by (auto simp: list_all2_Cons2)
  then obtain ns where "subseq ns ms'" "list_all2 R ns ys" using list_emb_Cons2.IH by blast
  then show ?case using ms list_emb_Cons2.hyps by (intro exI[of _ "m # ns"]) simp
qed

text \<open>What \<open>processStream\<close> does with the encodings of messages, one after the other.\<close>

lemma processStream_decodes:
  assumes "\<And>m buf. marshal m = Inr buf \<Longrightarrow> unmarshal buf = Inr m"
  shows "list_all2 (\<lambda>m buf. marshal m = Inr buf) ms bufs \<Longrightarrow>
    processStream unmarshal r i (map Inr bufs) = concat (map (seq_Dispatch (br_dispatcher r) i) ms)"
  by (induction ms bufs rule: list_all2_induct) (simp_all add: assms)

text \<open>What the application of one end has read is a subsequence of what the other end has sent.\<close>

lemma read_subseq:
  assumes "subseq accepted sent" and "handed_up r = map snd accepted"
  shows "subseq (hist_read r) (map snd sent)"
  using subseq_map[OF assms(1), of snd] prefix_imp_subseq[OF handed_up_read[of r]] assms(2) by (metis subseq_order.trans)

section \<open>The calls of the processors\<close>

text \<open>
  C5. Whatever the relay does, the processors of a client are called only with messages the other client has sent, in the
  order they were sent and none of them twice: what \<open>processStream\<close> does with all that its stream has received is
  to call every processor with each message of a subsequence of those sent.
\<close>

theorem calls_over_untrusted_relay:
  assumes "encoder_ok pkg" and "clients_start p" and "(clients_step pkg)\<^sup>*\<^sup>* p p'"
    and "\<And>b. length (hist_sent (pe_rel (p' b))) < 2 ^ 32"
    and "list_all2 (\<lambda>m x. marshal m = Inr (snd x)) msgs (hist_sent (pe_rel (p' b)))"
    and "\<And>m buf. marshal m = Inr buf \<Longrightarrow> unmarshal buf = Inr m"
  shows "\<exists>ms. subseq ms msgs \<and>
    processStream unmarshal r i (map Inr (hist_read (pe_rel (p' (\<not> b))))) = concat (map (seq_Dispatch (br_dispatcher r) i) ms)"
proof -
  note d = untrusted_delivery[OF assms(1-4), of b]
  have sub: "subseq (hist_read (pe_rel (p' (\<not> b)))) (map snd (hist_sent (pe_rel (p' b))))"
    by (rule read_subseq[OF conjunct1[OF d] conjunct1[OF conjunct2[OF d]]])
  have enc: "list_all2 (\<lambda>m buf. marshal m = Inr buf) msgs (map snd (hist_sent (pe_rel (p' b))))"
    using assms(5) by (simp add: list_all2_map2)
  obtain ms where "subseq ms msgs" "list_all2 (\<lambda>m buf. marshal m = Inr buf) ms (hist_read (pe_rel (p' (\<not> b))))"
    using list_all2_subseq[OF sub enc] by blast
  then show ?thesis using processStream_decodes[of marshal unmarshal, OF assms(6)] by blast
qed

text \<open>
  The witness: the run of Client\_Session in which one client sends \<open>[5]\<close>, with two more steps in which the
  state machine of the other passes it on and its application reads it.
\<close>

definition demo_pushed :: "(nat, byte) peer" where
  "demo_pushed = demo_receive\<lparr>pe_rel := fst (the (rs_step (pe_rel demo_receive) Ev_push))\<rparr>"

definition demo_reader :: "(nat, byte) peer" where
  "demo_reader = demo_pushed\<lparr>pe_rel := fst (the (rs_step (pe_rel demo_pushed) (Ev_receive 0)))\<rparr>"

definition demo_Unmarshal :: "bytes \<Rightarrow> string + byte" where
  "demo_Unmarshal buf = (case buf of [x] \<Rightarrow> Inr x | _ \<Rightarrow> Inl ''bytes'')"

definition demo_router :: "(string, nat) client_Router" where
  "demo_router = client_NewRouter\<lparr>br_dispatcher := \<lparr>procs = [''app'', ''log'']\<rparr>\<rparr>"

lemma demo_read_steps:
  "rs_step (pe_rel demo_receive) Ev_push \<noteq> None" "rs_step (pe_rel demo_pushed) (Ev_receive 0) \<noteq> None"
  "hist_read (pe_rel demo_reader) = [[5]]" "hist_sent (pe_rel demo_reader) = []"
  by code_simp+

lemma demo_read_run: "(clients_step plain_codec)\<^sup>*\<^sup>* demo_clients (demo_clients(True := demo_send, False := demo_reader))"
proof -
  let ?p = "demo_clients(True := demo_send, False := demo_receive)" and ?q = "demo_clients(True := demo_send, False := demo_pushed)"
  obtain r1 out1 where r1: "rs_step (pe_rel demo_receive) Ev_push = Some (r1, out1)" using demo_read_steps(1) by auto
  then have "clients_step plain_codec ?p ?q"
    using clients_step.local[of Ev_push ?p False r1 out1 plain_codec] by (simp add: local_event_def demo_pushed_def fun_upd_upd)
  moreover obtain r2 out2 where r2: "rs_step (pe_rel demo_pushed) (Ev_receive 0) = Some (r2, out2)" using demo_read_steps(2) by auto
  then have "clients_step plain_codec ?q (demo_clients(True := demo_send, False := demo_reader))"
    using clients_step.local[of "Ev_receive 0" ?q False r2 out2 plain_codec] by (simp add: local_event_def demo_reader_def fun_upd_upd)
  ultimately show ?thesis using demo_run by (meson rtranclp.rtrancl_into_rtrancl)
qed

theorem calls_over_untrusted_relay_witness:
  "\<exists>ms. subseq ms [5 :: byte] \<and>
     processStream demo_Unmarshal demo_router zero_identity (map Inr (hist_read (pe_rel demo_reader))) =
       concat (map (seq_Dispatch (br_dispatcher demo_router) zero_identity) ms) \<and>
     processStream demo_Unmarshal demo_router zero_identity (map Inr (hist_read (pe_rel demo_reader))) =
       [(''app'', zero_identity, 5), (''log'', zero_identity, 5)]"
proof -
  let ?p = "demo_clients(True := demo_send, False := demo_reader)"
  have start: "clients_start demo_clients" by (simp add: clients_start_def demo_clients_def pair_peer_def)
  have len: "length (hist_sent (pe_rel (?p b))) < 2 ^ 32" for b
    using demo_steps(7) demo_read_steps(4) by (cases b) simp_all
  have sent: "list_all2 (\<lambda>m x. (Inr [m] :: string + bytes) = Inr (snd x)) [5] (hist_sent (pe_rel (?p True)))"
    using demo_steps(7) by simp
  have codec: "(Inr [m] :: string + bytes) = Inr buf \<Longrightarrow> demo_Unmarshal buf = Inr m" for m buf
    by (auto simp: demo_Unmarshal_def)
  have "pe_rel (?p (\<not> True)) = pe_rel demo_reader" by simp
  with calls_over_untrusted_relay[where marshal = "\<lambda>m. Inr [m] :: string + bytes" and unmarshal = demo_Unmarshal and r = demo_router
      and i = zero_identity, OF plain_codec_ok start demo_read_run len sent codec]
  obtain ms where "subseq ms [5]" "processStream demo_Unmarshal demo_router zero_identity (map Inr (hist_read (pe_rel demo_reader))) =
       concat (map (seq_Dispatch (br_dispatcher demo_router) zero_identity) ms)" by auto
  moreover have "processStream demo_Unmarshal demo_router zero_identity (map Inr (hist_read (pe_rel demo_reader))) =
       [(''app'', zero_identity, 5), (''log'', zero_identity, 5)]"
    unfolding demo_read_steps(3) by (simp add: demo_Unmarshal_def demo_router_def seq_Dispatch_def)
  ultimately show ?thesis by blast
qed

end
