(* ===== verification/Client_Dkg.thy ===== *)
theory Client_Dkg
  imports Client_Router
begin

text \<open>
  client/dkg.go: the driver of the distributed key generation. The protocol itself is
  \<open>kyber\<close>'s \<open>pedersen/dkg\<close>, which is not part of the repository: its state \<open>'g\<close>, its
  messages and the functions on them are arguments. The model has what the driver does with
  them: finding its own index, counting confirmed deals, guarding and routing messages, and handing the
  share to \<open>Run\<close> over an unbuffered channel while it holds the lock of the DKG.
\<close>

section \<open>Messages and state\<close>

text \<open>\<open>PDkg\<close> and \<open>ClientMessage\<close> of client/messages.go; absent pointers are \<open>None\<close>.\<close>

record ('d, 'r, 'j) PDkg =
  pd_Deal :: "'d option"
  pd_Response :: "'r option"
  pd_Justification :: "'j option"

record ('d, 'r, 'j) ClientMessage =
  cm_Type :: uint32
  cm_PDkg :: "('d, 'r, 'j) PDkg option"

definition PROTOCOL_PDKG :: uint32 where "PROTOCOL_PDKG = 0"
definition PROTOCOL_RDKG :: uint32 where "PROTOCOL_RDKG = 1"

text \<open>
  \<open>dk_waiting\<close>: \<open>Run\<close> is waiting at \<open>shareCh\<close>; \<open>dk_share\<close>: what it got.
\<close>

record ('g, 's) DKG =
  dk_participants :: "Identity list"
  dk_n :: nat
  dk_t :: nat
  dk_i :: nat
  dk_dkg :: 'g
  dk_done :: bool
  dk_waiting :: bool
  dk_share :: "'s option"

datatype dkg_error = Dkg_not_found | Dkg_kyber string | Dkg_timeout

section \<open>Construction\<close>

text \<open>The loop of \<open>NewDKG\<close>: the first participant whose \<open>ID\<close> is the own one.\<close>

fun find_index :: "string \<Rightarrow> nat \<Rightarrow> Identity list \<Rightarrow> nat option" where
  "find_index pubID k [] = None"
| "find_index pubID k (p # ps) = (if Identity_ID p = Some pubID then Some k else find_index pubID (Suc k) ps)"

text \<open>The calls of \<open>ID\<close> in the loop, which end with the first match: whether one of them panics.\<close>

fun id_panics :: "string \<Rightarrow> Identity list \<Rightarrow> bool" where
  "id_panics pubID [] = False"
| "id_panics pubID (p # ps) = (Identity_ID p = None \<or> Identity_ID p \<noteq> Some pubID \<and> id_panics pubID ps)"

text \<open>
  \<open>NewDKG\<close>: \<open>None\<close> where \<open>ID\<close> or \<open>Point\<close> panics; \<open>point\<close> is
  \<open>UnmarshalBinary\<close> of a key and \<open>new_gen\<close> is \<open>NewDistKeyGenerator\<close> on the points and the threshold;
  \<open>self\<close> is the new DKG as a processor of the router \<open>r\<close>, where it is registered before it has a generator.
  With the error of the generator the code also returns the DKG without one; the model returns the error.
\<close>

definition NewDKG ::
  "(bytes \<Rightarrow> 'pt option) \<Rightarrow> ('pt list \<Rightarrow> nat \<Rightarrow> string + 'g) \<Rightarrow> 'p \<Rightarrow> ('p, 'st) client_Router \<Rightarrow> Private \<Rightarrow> Identity list \<Rightarrow>
     (('p, 'st) client_Router \<times> (dkg_error + ('g, 's) DKG)) option" where
  "NewDKG point new_gen self r priv participants =
     (case Identity_ID (pr_Public priv) of
        None \<Rightarrow> None
      | Some pubID \<Rightarrow>
          if id_panics pubID participants \<or> list_ex (\<lambda>p. point (id_Key p) = None) participants then None
          else (case find_index pubID 0 participants of
                  None \<Rightarrow> Some (r, Inl Dkg_not_found)
                | Some idx \<Rightarrow>
                    let r1 = r\<lparr>br_dispatcher := seq_RegisterProcessor (br_dispatcher r) self\<rparr>
                    in (case new_gen (map (\<lambda>p. the (point (id_Key p))) participants) (length participants div 2 + 1) of
                          Inl e \<Rightarrow> Some (r1, Inl (Dkg_kyber e))
                        | Inr g \<Rightarrow>
                            Some (r1, Inr \<lparr>dk_participants = participants, dk_n = length participants,
                                           dk_t = length participants div 2 + 1, dk_i = idx, dk_dkg = g,
                                           dk_done = False, dk_waiting = False, dk_share = None\<rparr>))))"

section \<open>Sending the deals\<close>

text \<open>
  The loop of \<open>sendDeals\<close>: \<open>outer_err\<close> is the variable \<open>err\<close> the loop tests, which is
  the nil of \<open>Deals\<close>, and not the result \<open>e\<close> that has arrived, which is only logged. The results arrive
  in some order; the timeout comes after the last of the list.
\<close>

fun deals_loop :: "nat \<Rightarrow> nat \<Rightarrow> router_error option list \<Rightarrow> dkg_error option" where
  "deals_loop t nbConfirmedNodes [] = (if nbConfirmedNodes < t then Some Dkg_timeout else None)"
| "deals_loop t nbConfirmedNodes (e # results) =
     (if nbConfirmedNodes < t then deals_loop t (nbConfirmedNodes + 1) results else None)"

text \<open>\<open>deals\<close> is what \<open>Deals\<close> returned; \<open>results\<close> are the outcomes of the sends that arrive in time.\<close>

definition sendDeals :: "('g, 's) DKG \<Rightarrow> string + (nat \<times> 'd) list \<Rightarrow> router_error option list \<Rightarrow> dkg_error option" where
  "sendDeals d deals results =
     (case deals of
        Inl e \<Rightarrow> Some (Dkg_kyber e)
      | Inr ds \<Rightarrow> deals_loop (dk_t d) 0 (take (length ds) results))"

text \<open>The messages \<open>sendDeals\<close> sends, and to whom.\<close>

definition deal_messages :: "('g, 's) DKG \<Rightarrow> (nat \<times> 'd) list \<Rightarrow> (Identity \<times> ('d, 'r, 'j) ClientMessage) list" where
  "deal_messages d deals =
     map (\<lambda>(i, deal). (dk_participants d ! i,
       \<lparr>cm_Type = PROTOCOL_PDKG,
        cm_PDkg = Some \<lparr>pd_Deal = Some deal, pd_Response = None, pd_Justification = None\<rparr>\<rparr>)) deals"

text \<open>\<open>Run\<close>: after the deals it waits for the share.\<close>

definition dkg_Run :: "('g, 's) DKG \<Rightarrow> string + (nat \<times> 'd) list \<Rightarrow> router_error option list \<Rightarrow> ('g, 's) DKG \<times> dkg_error option" where
  "dkg_Run d deals results =
     (case sendDeals d deals results of
        Some e \<Rightarrow> (d, Some e)
      | None \<Rightarrow> (d\<lparr>dk_waiting := True\<rparr>, None))"

section \<open>Processing messages\<close>

text \<open>
  The handlers return the new state and the message they broadcast to all participants;
  \<open>Blocks\<close> when the handler waits for ever, holding the lock. \<open>bc\<close> gives the results of the sends of a
  broadcast in the order they arrive.
\<close>

definition dkg_broadcast :: "('g, 's) DKG \<Rightarrow> router_error option list \<Rightarrow> router_error option chan_result" where
  "dkg_broadcast d bc = broadcast_collect 0 (length (dk_participants d)) bc"

text \<open>\<open>processDeal\<close>: an invalid deal ends the program (\<open>slog.Fatal\<close>), here \<open>Panics\<close>.\<close>

definition processDeal ::
  "('g \<Rightarrow> 'd \<Rightarrow> string + 'g \<times> 'r) \<Rightarrow> router_error option list \<Rightarrow> ('g, 's) DKG \<Rightarrow> 'd \<Rightarrow> ('g, 's) DKG chan_result" where
  "processDeal process_deal bc d deal =
     (case process_deal (dk_dkg d) deal of
        Inl e \<Rightarrow> Panics
      | Inr (g, resp) \<Rightarrow>
          (case dkg_broadcast d bc of
             Blocks \<Rightarrow> Blocks
           | Panics \<Rightarrow> Panics
           | Happens err \<Rightarrow> Happens (d\<lparr>dk_dkg := g\<rparr>)))"

text \<open>
  \<open>processResponse\<close>: an error is only logged; a justification is broadcast; once the
  generator is certified the share is sent on \<open>shareCh\<close>, which blocks unless \<open>Run\<close> is waiting.
\<close>

definition processResponse ::
  "('g \<Rightarrow> 'r \<Rightarrow> 'g \<times> 'j option) \<Rightarrow> ('g \<Rightarrow> bool) \<Rightarrow> ('g \<Rightarrow> string + 's) \<Rightarrow> router_error option list \<Rightarrow>
   ('g, 's) DKG \<Rightarrow> 'r \<Rightarrow> ('g, 's) DKG chan_result" where
  "processResponse process_response certified dist_share bc d resp =
     (let (g, j) = process_response (dk_dkg d) resp;
          d1 = d\<lparr>dk_dkg := g\<rparr>;
          sent = (if j \<noteq> None then dkg_broadcast d1 bc else Happens None)
      in case sent of
           Blocks \<Rightarrow> Blocks
         | Panics \<Rightarrow> Panics
         | Happens _ \<Rightarrow>
             if certified g then
               (case dist_share g of
                  Inl e \<Rightarrow> Panics
                | Inr dks \<Rightarrow>
                    if dk_waiting d1
                    then Happens (d1\<lparr>dk_done := True, dk_waiting := False, dk_share := Some dks\<rparr>)
                    else Blocks)
             else Happens d1)"

text \<open>\<open>processJustification\<close> is empty in the source.\<close>

definition processJustification :: "('g, 's) DKG \<Rightarrow> 'j \<Rightarrow> ('g, 's) DKG chan_result" where
  "processJustification d j = Happens d"

definition dkg_Process ::
  "('g \<Rightarrow> 'd \<Rightarrow> string + 'g \<times> 'r) \<Rightarrow> ('g \<Rightarrow> 'r \<Rightarrow> 'g \<times> 'j option) \<Rightarrow> ('g \<Rightarrow> bool) \<Rightarrow> ('g \<Rightarrow> string + 's) \<Rightarrow>
   router_error option list \<Rightarrow> ('g, 's) DKG \<Rightarrow> ('d, 'r, 'j) ClientMessage \<Rightarrow> ('g, 's) DKG chan_result" where
  "dkg_Process process_deal process_response certified dist_share bc d cm =
     (if \<not> (cm_Type cm = PROTOCOL_PDKG \<and> cm_PDkg cm \<noteq> None) then Happens d
      else (let packet = the (cm_PDkg cm)
            in case pd_Deal packet of
                 Some deal \<Rightarrow> processDeal process_deal bc d deal
               | None \<Rightarrow>
                   (case pd_Response packet of
                      Some resp \<Rightarrow> processResponse process_response certified dist_share bc d resp
                    | None \<Rightarrow>
                        (case pd_Justification packet of
                           Some j \<Rightarrow> processJustification d j
                         | None \<Rightarrow> Happens d))))"

section \<open>Properties of the driver\<close>

lemma deals_loop_eq: "n \<le> t \<Longrightarrow> deals_loop t n results = (if n + length results < t then Some Dkg_timeout else None)"
  by (induction results arbitrary: n) auto

lemma find_index_Some:
  "find_index s k ps = Some i \<longleftrightarrow> k \<le> i \<and> i < k + length ps \<and> Identity_ID (ps ! (i - k)) = Some s \<and>
     (\<forall>j < i - k. Identity_ID (ps ! j) \<noteq> Some s)"
proof (induction ps arbitrary: k)
  case Nil
  then show ?case by auto
next
  case (Cons p ps)
  show ?case
  proof (cases "Identity_ID p = Some s")
    case True
    then show ?thesis by (auto simp: nth_Cons split: nat.splits)
  next
    case False
    have "(\<forall>j < i - k. Identity_ID ((p # ps) ! j) \<noteq> Some s) \<longleftrightarrow> (\<forall>j < i - Suc k. Identity_ID (ps ! j) \<noteq> Some s)" if "k < i"
      using that False by (auto simp: nth_Cons less_Suc_eq_0_disj split: nat.splits)
    moreover have "(p # ps) ! (i - k) = ps ! (i - Suc k)" if "k < i" using that by (simp add: nth_Cons')
    ultimately show ?thesis using False Cons.IH[of "Suc k"]
      by (cases "k < i") (auto simp: le_less Suc_le_eq)
  qed
qed

lemma NewDKG_Some:
  assumes "NewDKG point new_gen self r priv ps = Some (r', Inr d)"
  shows "dk_participants d = ps \<and> dk_n d = length ps \<and> dk_t d = length ps div 2 + 1 \<and> \<not> dk_waiting d \<and> dk_share d = None \<and>
    find_index (the (Identity_ID (pr_Public priv))) 0 ps = Some (dk_i d) \<and> Identity_ID (pr_Public priv) \<noteq> None"
  using assms by (auto simp: NewDKG_def Let_def split: option.splits if_splits sum.splits)

text \<open>
  The DKG is registered with the router exactly when its key is among the participants, also when there is no
  generator for it: a message that arrives then finds a processor whose generator is nil.
\<close>

lemma NewDKG_registers:
  assumes "NewDKG point new_gen self r priv ps = Some (r', res)"
  shows "procs (br_dispatcher r') = procs (br_dispatcher r) @ (if res = Inl Dkg_not_found then [] else [self])"
  using assms by (auto simp: NewDKG_def Let_def seq_RegisterProcessor_def split: option.splits if_splits sum.splits)

text \<open>A private key and three participants, for the witnesses.\<close>

definition toy_participants :: "nat \<Rightarrow> Identity list" where
  "toy_participants n = map (\<lambda>k. key_identity [0, 0, 0, 0, 0, 0, 0, of_nat k]) [1..<Suc n]"

definition toy_dkg :: "nat \<Rightarrow> (nat, nat) DKG" where
  "toy_dkg n = \<lparr>dk_participants = toy_participants n, dk_n = n, dk_t = n div 2 + 1, dk_i = 0, dk_dkg = 7,
     dk_done = False, dk_waiting = False, dk_share = None\<rparr>"

definition toy_private :: Private where
  "toy_private = \<lparr>pr_seed = [], pr_Public = key_identity [0, 0, 0, 0, 0, 0, 0, 1]\<rparr>"

lemma toy_simps [simp]: "length (toy_participants n) = n" "\<not> dk_waiting (toy_dkg n)" "dk_dkg (toy_dkg n) = 7"
  by (auto simp: toy_participants_def toy_dkg_def)

definition toy_router :: "string \<Rightarrow> (string, nat) client_Router" where
  "toy_router p = client_NewRouter\<lparr>br_dispatcher := \<lparr>procs = [p]\<rparr>\<rparr>"

lemma toy_NewDKG:
  "NewDKG (\<lambda>k. Some k) (\<lambda>_ _. Inr 7) ''dkg'' client_NewRouter toy_private (toy_participants 3) = Some (toy_router ''dkg'', Inr (toy_dkg 3))"
  by (simp add: NewDKG_def toy_private_def toy_dkg_def toy_participants_def upt_conv_Cons toy_router_def client_NewRouter_def
      seq_RegisterProcessor_def newSeqDispatcher_def)

text \<open>
  \<open>NewDKG\<close> finds itself: the index is the first participant with the own identifier,
  the threshold is a strict majority that the group can reach, and the error for a key that is not among the
  participants is returned exactly when no participant has the own identifier.
\<close>

theorem NewDKG_index:
  "case (NewDKG point new_gen self r priv ps :: (('p, 'st) client_Router \<times> (dkg_error + ('g, 's) DKG)) option) of
     Some (r', Inr d) \<Rightarrow> dk_i d < length ps \<and> Identity_ID (ps ! dk_i d) = Identity_ID (pr_Public priv) \<and>
       (\<nexists>j. j < dk_i d \<and> Identity_ID (ps ! j) = Identity_ID (pr_Public priv)) \<and>
       length ps < 2 * dk_t d \<and> dk_t d \<le> length ps
   | Some (r', Inl Dkg_not_found) \<Rightarrow> (\<nexists>p. p \<in> set ps \<and> Identity_ID p = Identity_ID (pr_Public priv))
   | _ \<Rightarrow> True"
proof -
  have none: "(\<nexists>p. p \<in> set ps \<and> Identity_ID p = Some s)" if "find_index s k ps = None" for s k
    using that by (induction ps arbitrary: k) (auto split: if_splits)
  show ?thesis
  proof (cases "NewDKG point new_gen self r priv ps :: (('p, 'st) client_Router \<times> (dkg_error + ('g, 's) DKG)) option")
    case None
    then show ?thesis by simp
  next
    case (Some res)
    obtain r' out where res: "res = (r', out)" by (cases res)
    show ?thesis
    proof (cases out)
      case (Inr d)
      with Some res NewDKG_Some[of point new_gen self r priv ps r' d] show ?thesis by (auto simp: find_index_Some)
    next
      case (Inl e)
      with Some res none show ?thesis
        by (auto simp: NewDKG_def Let_def split: option.splits if_splits sum.splits dkg_error.splits)
    qed
  qed
qed

text \<open>
  Confirmed deals are not confirmed: with \<open>n\<close> participants and a deal for each of the others,
  \<open>sendDeals\<close> succeeds as soon as \<open>n div 2 + 1\<close> sends have ended, whether they succeeded or
  failed, and with at most two participants it can only time out.
\<close>

theorem sendDeals_counts_failures:
  assumes "NewDKG point new_gen self r priv ps = Some (r', Inr d)" and "length deals = length ps - 1"
  shows "sendDeals d (Inr deals) results =
    (if length ps \<le> 2 \<or> length results < length ps div 2 + 1 then Some Dkg_timeout else None)"
proof -
  have "ps \<noteq> []" using NewDKG_Some[OF assms(1)] by (auto simp: find_index_Some)
  then have "(length ps - 1 < length ps div 2 + 1) = (length ps \<le> 2)" by (cases ps) auto
  then show ?thesis using NewDKG_Some[OF assms(1)] assms(2)
    by (auto simp: sendDeals_def deals_loop_eq min_def)
qed

theorem sendDeals_counts_failures_witness:
  "sendDeals (toy_dkg 3) (Inr [(1, ''d''), (2, ''e'')]) [Some Router_closed, Some Router_closed] = None"
  using sendDeals_counts_failures[OF toy_NewDKG, of "[(1, ''d''), (2, ''e'')]" "[Some Router_closed, Some Router_closed]"]
  by simp

text \<open>
  The key generation cannot finish when everything works: a valid deal makes the handler
  broadcast its response, and when every send of it succeeds the handler never returns and keeps the lock; and once the
  share has been handed to \<open>Run\<close>, the next response that finds the generator certified blocks in the same way.
\<close>

theorem dkg_handlers_block:
  assumes "NewDKG point new_gen self r priv ps = Some (r', Inr d)" and "process_deal (dk_dkg d) deal = Inr (g, resp)"
    and "\<not> dk_waiting d'" and "process_response (dk_dkg d') resp' = (g', None)" and "certified g'" and "dist_share g' = Inr dks"
  shows "processDeal process_deal (replicate (length ps) None) d deal = Blocks \<and>
    processResponse process_response certified dist_share bc d' resp' = Blocks"
proof -
  have ps: "ps \<noteq> []" "dk_participants d = ps" using NewDKG_Some[OF assms(1)] by (auto simp: find_index_Some)
  have "broadcast_collect 0 (length ps) (replicate k None) = Blocks" for k
    using ps(1) by (induction k) auto
  then show ?thesis using assms(2-) ps by (simp add: processDeal_def dkg_broadcast_def processResponse_def)
qed

theorem dkg_handlers_block_witness:
  "processDeal (\<lambda>g (d :: string). Inr (g, ''resp'')) (replicate (length (toy_participants 3)) None) (toy_dkg 3) ''deal'' = Blocks \<and>
   processResponse (\<lambda>g (r :: string). (g, None :: string option)) (\<lambda>_. True) (\<lambda>_. Inr 0) [] (toy_dkg 3) ''r'' = Blocks"
  by (rule dkg_handlers_block[OF toy_NewDKG]) simp_all

end
