(* ===== verification/Client_Generation.thy ===== *)
theory Client_Generation
  imports Client_Dkg
begin

text \<open>
  client/dkg.go as a process: one participant of the key generation, with \<open>Run\<close> in one goroutine and
  \<open>Process\<close> called by the streams of the other participants. \<open>Process\<close> holds the lock of the DKG, and
  \<open>shareCh\<close> has no buffer, so a handler and \<open>Run\<close> meet there. The handlers are those of Client\_Dkg.
\<close>

section \<open>A participant\<close>

text \<open>
  The functions of the generator of kyber: \<open>Deals\<close>, which also handles the own deal, \<open>ProcessDeal\<close>,
  \<open>ProcessResponse\<close>, \<open>Certified\<close> and \<open>DistKeyShare\<close>.
\<close>

record ('g, 'd, 'r, 'j, 's) kyber_pkg =
  ky_Deals :: "'g \<Rightarrow> 'g \<times> (string + (nat \<times> 'd) list)"
  ky_ProcessDeal :: "'g \<Rightarrow> 'd \<Rightarrow> string + 'g \<times> 'r"
  ky_ProcessResponse :: "'g \<Rightarrow> 'r \<Rightarrow> 'g \<times> 'j option"
  ky_Certified :: "'g \<Rightarrow> bool"
  ky_DistKeyShare :: "'g \<Rightarrow> string + 's"

text \<open>
  Who has the lock: nobody, a handler that waits for ever in \<open>Broadcast\<close>, or a handler that offers the
  share on \<open>shareCh\<close>. \<open>Dead\<close>: the program has ended with an error or a panic.
\<close>

datatype 's holder = Free | In_broadcast | Offering 's | Dead

record ('g, 's) node =
  nd_dkg :: "('g, 's) DKG"
  nd_holder :: "'s holder"

definition new_node :: "('g, 's) DKG \<Rightarrow> ('g, 's) node" where
  "new_node d = \<lparr>nd_dkg = d, nd_holder = Free\<rparr>"

text \<open>The share a handler that does not return is offering, if it got as far as that.\<close>

definition offered :: "('g, 'd, 'r, 'j, 's) kyber_pkg \<Rightarrow> router_error option list \<Rightarrow> ('g, 's) DKG \<Rightarrow> ('d, 'r, 'j) ClientMessage \<Rightarrow> 's option" where
  "offered pkg bc d cm =
     (case Option.bind (cm_PDkg cm) pd_Response of
        None \<Rightarrow> None
      | Some resp \<Rightarrow>
          if Option.bind (cm_PDkg cm) pd_Deal \<noteq> None then None
          else (case ky_ProcessResponse pkg (dk_dkg d) resp of (g, j) \<Rightarrow>
                  if j \<noteq> None \<and> dkg_broadcast d bc = Blocks \<or> \<not> ky_Certified pkg g then None
                  else (case ky_DistKeyShare pkg g of Inl e \<Rightarrow> None | Inr dks \<Rightarrow> Some dks)))"

text \<open>
  \<open>Process\<close>, once it has the lock; \<open>bc\<close> has the results of the sends of a broadcast. A handler that
  offers its share has set \<open>done\<close>.
\<close>

definition node_Process ::
  "('g, 'd, 'r, 'j, 's) kyber_pkg \<Rightarrow> router_error option list \<Rightarrow> ('g, 's) node \<Rightarrow> ('d, 'r, 'j) ClientMessage \<Rightarrow> ('g, 's) node" where
  "node_Process pkg bc nd cm =
     (case dkg_Process (ky_ProcessDeal pkg) (ky_ProcessResponse pkg) (ky_Certified pkg) (ky_DistKeyShare pkg) bc (nd_dkg nd) cm of
        Happens d \<Rightarrow> nd\<lparr>nd_dkg := d\<rparr>
      | Panics \<Rightarrow> nd\<lparr>nd_holder := Dead\<rparr>
      | Blocks \<Rightarrow>
          (case offered pkg bc (nd_dkg nd) cm of
             None \<Rightarrow> nd\<lparr>nd_holder := In_broadcast\<rparr>
           | Some dks \<Rightarrow> nd\<lparr>nd_dkg := (nd_dkg nd)\<lparr>dk_done := True\<rparr>, nd_holder := Offering dks\<rparr>))"

text \<open>\<open>Run\<close>: sends the deals, and then receives on \<open>shareCh\<close>, from a handler that is there or will come.\<close>

definition node_Run :: "('g, 'd, 'r, 'j, 's) kyber_pkg \<Rightarrow> ('g, 's) node \<Rightarrow> router_error option list \<Rightarrow> ('g, 's) node \<times> dkg_error option" where
  "node_Run pkg nd results =
     (case ky_Deals pkg (dk_dkg (nd_dkg nd)) of
        (g, deals) \<Rightarrow>
          (let nd1 = nd\<lparr>nd_dkg := (nd_dkg nd)\<lparr>dk_dkg := g\<rparr>\<rparr>
           in case dkg_Run (nd_dkg nd1) deals results of
                (d, Some e) \<Rightarrow> (nd1, Some e)
              | (d, None) \<Rightarrow>
                  (case nd_holder nd of
                     Offering dks \<Rightarrow> (nd1\<lparr>nd_dkg := (nd_dkg nd1)\<lparr>dk_share := Some dks\<rparr>, nd_holder := Free\<rparr>, None)
                   | _ \<Rightarrow> (nd1\<lparr>nd_dkg := d\<rparr>, None))))"

text \<open>
  The steps of a participant: \<open>Run\<close> is called once, messages arrive in any order and number, and the results
  of the sends are restricted by \<open>sends\<close>.
\<close>

inductive node_step ::
  "('g, 'd, 'r, 'j, 's) kyber_pkg \<Rightarrow> (router_error option list \<Rightarrow> bool) \<Rightarrow> ('g, 's) node \<Rightarrow> ('g, 's) node \<Rightarrow> bool" for pkg sends where
  handle: "nd_holder nd = Free \<Longrightarrow> sends bc \<Longrightarrow> node_step pkg sends nd (node_Process pkg bc nd cm)"
| run: "nd_holder nd \<noteq> Dead \<Longrightarrow> \<not> dk_waiting (nd_dkg nd) \<Longrightarrow> dk_share (nd_dkg nd) = None \<Longrightarrow>
    node_step pkg sends nd (fst (node_Run pkg nd results))"

section \<open>The lock\<close>

lemma broadcast_all_ok: "ps \<noteq> [] \<Longrightarrow> list_all (\<lambda>e. e = None) bc \<Longrightarrow> broadcast_collect 0 (length ps) bc = Blocks"
  by (induction bc) auto

lemma broadcast_some_error: "list_ex (\<lambda>e. e \<noteq> None) bc \<Longrightarrow> \<exists>err. broadcast_collect 0 (length ps) bc = Happens err"
  by (induction bc) auto

lemma dkg_Run_cases: "dkg_Run d deals results = (d', err) \<Longrightarrow> d' = d \<or> d' = d\<lparr>dk_waiting := True\<rparr>"
  by (auto simp: dkg_Run_def split: option.splits)

text \<open>What holds of a participant none of whose deals have been handled: its generator is not certified.\<close>

definition uncertified :: "('g, 'd, 'r, 'j, 's) kyber_pkg \<Rightarrow> ('g \<Rightarrow> bool) \<Rightarrow> bool" where
  "uncertified pkg fresh \<longleftrightarrow> (\<forall>g. fresh g \<longrightarrow> \<not> ky_Certified pkg g \<and> fresh (fst (ky_Deals pkg g)) \<and> (\<forall>r. fresh (fst (ky_ProcessResponse pkg g r))))"

definition node_stuck :: "('g \<Rightarrow> bool) \<Rightarrow> ('g, 's) node \<Rightarrow> bool" where
  "node_stuck fresh nd \<longleftrightarrow> dk_participants (nd_dkg nd) \<noteq> [] \<and> dk_share (nd_dkg nd) = None \<and>
     (case nd_holder nd of Free \<Rightarrow> fresh (dk_dkg (nd_dkg nd)) | Offering _ \<Rightarrow> False | _ \<Rightarrow> True)"

lemma node_Run_stuck:
  assumes "uncertified pkg fresh" and "node_stuck fresh nd"
  shows "node_stuck fresh (fst (node_Run pkg nd results))"
proof -
  obtain g deals where g: "ky_Deals pkg (dk_dkg (nd_dkg nd)) = (g, deals)" by (cases "ky_Deals pkg (dk_dkg (nd_dkg nd))")
  have "fresh (dk_dkg (nd_dkg nd)) \<Longrightarrow> fresh g" using assms(1) g by (metis uncertified_def fst_conv)
  then show ?thesis using assms(2)
    by (cases "dkg_Run ((nd_dkg nd)\<lparr>dk_dkg := g\<rparr>) deals results")
       (auto simp: node_Run_def node_stuck_def g Let_def split: option.splits holder.splits dest!: dkg_Run_cases)
qed

lemma node_Process_stuck:
  assumes "uncertified pkg fresh" and "node_stuck fresh nd" and "nd_holder nd = Free" and "list_all (\<lambda>e. e = None) bc"
  shows "node_stuck fresh (node_Process pkg bc nd cm)"
proof -
  let ?d = "nd_dkg nd"
  have d: "dk_participants ?d \<noteq> []" "dk_share ?d = None" "fresh (dk_dkg ?d)" using assms(2,3) by (auto simp: node_stuck_def)
  have resp: "fresh g" "\<not> ky_Certified pkg g" if "ky_ProcessResponse pkg (dk_dkg ?d) resp = (g, j)" for resp g j
  proof -
    show g: "fresh g" using assms(1) d(3) that unfolding uncertified_def by (metis fst_conv)
    show "\<not> ky_Certified pkg g" using assms(1) g by (auto simp: uncertified_def)
  qed
  have bc: "broadcast_collect 0 (length (dk_participants ?d)) bc = Blocks" by (rule broadcast_all_ok[OF d(1) assms(4)])
  have none: "offered pkg bc ?d cm = None"
    using resp(2) by (auto simp: offered_def split: option.splits prod.splits)
  show ?thesis using d assms(3) none bc resp
    by (auto simp: node_Process_def node_stuck_def dkg_Process_def processDeal_def processResponse_def processJustification_def
        dkg_broadcast_def Let_def split: chan_result.splits option.splits sum.splits prod.splits if_splits)
qed

lemma node_step_stuck:
  "uncertified pkg fresh \<Longrightarrow> node_step pkg (list_all (\<lambda>e. e = None)) nd nd' \<Longrightarrow> node_stuck fresh nd \<Longrightarrow> node_stuck fresh nd'"
  by (erule node_step.cases) (auto intro: node_Process_stuck node_Run_stuck)

section \<open>Whether the key generation ends\<close>

lemma node_never_completes:
  assumes "uncertified pkg fresh" and "node_stuck fresh nd0" and "(node_step pkg (list_all (\<lambda>e. e = None)))\<^sup>*\<^sup>* nd0 nd"
  shows "dk_share (nd_dkg nd) = None"
proof -
  from assms(3,2) have "node_stuck fresh nd"
    by (induction rule: rtranclp_induct) (auto intro: node_step_stuck[OF assms(1)])
  then show ?thesis by (simp add: node_stuck_def)
qed

lemma new_node_stuck:
  assumes "NewDKG point new_gen self r priv ps = Some (r', Inr d)" and "fresh (dk_dkg d)"
  shows "node_stuck fresh (new_node d)"
  using NewDKG_Some[OF assms(1)] assms(2) by (auto simp: find_index_Some node_stuck_def new_node_def)

text \<open>
  C38. The key generation ends for nobody when nothing fails: whatever arrives at a participant,
  in whatever order, as long as no send of its broadcasts returns an error, \<open>Run\<close> never gets a share. Of kyber it is
  used that a generator that has handled no deal of another participant is not certified, and that
  responses alone do not change that.
\<close>

theorem dkg_never_completes:
  assumes "NewDKG point new_gen self r priv ps = Some (r', Inr d)" and "uncertified pkg fresh" and "fresh (dk_dkg d)"
    and "(node_step pkg (list_all (\<lambda>e. e = None)))\<^sup>*\<^sup>* (new_node d) nd"
  shows "dk_share (nd_dkg nd) = None"
  by (rule node_never_completes[OF assms(2) new_node_stuck[OF assms(1), of fresh, OF assms(3)] assms(4)])

text \<open>
  The witness: a generator that counts deals and responses and is certified after one deal and two responses.
\<close>

definition count_pkg :: "(nat \<times> nat, string, string, string, string) kyber_pkg" where
  "count_pkg = \<lparr>ky_Deals = (\<lambda>g. (g, Inr [(1, ''d''), (2, ''e'')])), ky_ProcessDeal = (\<lambda>(n, m) d. Inr ((Suc n, m), ''ok'')), ky_ProcessResponse = (\<lambda>(n, m) r. ((n, Suc m), None)),
     ky_Certified = (\<lambda>(n, m). 1 \<le> n \<and> 2 \<le> m), ky_DistKeyShare = (\<lambda>g. Inr ''share'')\<rparr>"

definition count_dkg :: "(nat \<times> nat, string) DKG" where
  "count_dkg = \<lparr>dk_participants = toy_participants 3, dk_n = 3, dk_t = 2, dk_i = 0, dk_dkg = (0, 0),
     dk_done = False, dk_waiting = False, dk_share = None\<rparr>"

abbreviation deal_msg :: "'d \<Rightarrow> ('d, 'r, 'j) ClientMessage" where
  "deal_msg x \<equiv> \<lparr>cm_Type = PROTOCOL_PDKG, cm_PDkg = Some \<lparr>pd_Deal = Some x, pd_Response = None, pd_Justification = None\<rparr>\<rparr>"

abbreviation response_msg :: "'r \<Rightarrow> ('d, 'r, 'j) ClientMessage" where
  "response_msg x \<equiv> \<lparr>cm_Type = PROTOCOL_PDKG, cm_PDkg = Some \<lparr>pd_Deal = None, pd_Response = Some x, pd_Justification = None\<rparr>\<rparr>"

lemma count_NewDKG:
  "NewDKG (\<lambda>k. Some k) (\<lambda>_ _. Inr (0, 0)) ''dkg'' client_NewRouter toy_private (toy_participants 3) = Some (toy_router ''dkg'', Inr count_dkg)"
  by (simp add: NewDKG_def toy_private_def count_dkg_def toy_participants_def upt_conv_Cons toy_router_def client_NewRouter_def
      seq_RegisterProcessor_def newSeqDispatcher_def)

lemma count_uncertified: "uncertified count_pkg (\<lambda>(n, m). n = 0)"
  by (auto simp: uncertified_def count_pkg_def)

theorem dkg_never_completes_witness:
  "dk_share (nd_dkg (node_Process count_pkg [None, None, None] (new_node count_dkg) (deal_msg ''deal''))) = None \<and>
   nd_holder (node_Process count_pkg [None, None, None] (new_node count_dkg) (deal_msg ''deal'')) = In_broadcast"
proof -
  let ?nd = "node_Process count_pkg [None, None, None] (new_node count_dkg) (deal_msg ''deal'')"
  have "node_step count_pkg (list_all (\<lambda>e. e = None)) (new_node count_dkg) ?nd"
    by (rule node_step.handle) (simp_all add: new_node_def)
  then have "dk_share (nd_dkg ?nd) = None"
    by (intro dkg_never_completes[OF count_NewDKG count_uncertified]) (simp_all add: count_dkg_def)
  moreover have "nd_holder ?nd = In_broadcast"
    by (simp add: node_Process_def new_node_def dkg_Process_def processDeal_def dkg_broadcast_def count_pkg_def count_dkg_def offered_def)
  ultimately show ?thesis ..
qed

section \<open>With failing sends\<close>

text \<open>The generator over a list of deals, and over responses that neither certify it nor need a justification.\<close>

fun gen_deals :: "('g, 'd, 'r, 'j, 's) kyber_pkg \<Rightarrow> 'g \<Rightarrow> 'd list \<Rightarrow> 'g option" where
  "gen_deals pkg g [] = Some g"
| "gen_deals pkg g (x # xs) = (case ky_ProcessDeal pkg g x of Inl e \<Rightarrow> None | Inr (g', resp) \<Rightarrow> gen_deals pkg g' xs)"

fun gen_responses :: "('g, 'd, 'r, 'j, 's) kyber_pkg \<Rightarrow> 'g \<Rightarrow> 'r list \<Rightarrow> 'g option" where
  "gen_responses pkg g [] = Some g"
| "gen_responses pkg g (x # xs) =
     (case ky_ProcessResponse pkg g x of (g', j) \<Rightarrow>
        if j \<noteq> None \<or> ky_Certified pkg g' then None else gen_responses pkg g' xs)"

abbreviation with_gen :: "('g, 's) node \<Rightarrow> 'g \<Rightarrow> ('g, 's) node" where
  "with_gen nd g \<equiv> nd\<lparr>nd_dkg := (nd_dkg nd)\<lparr>dk_dkg := g\<rparr>\<rparr>"

lemma node_deals:
  "list_ex (\<lambda>e. e \<noteq> None) bc \<Longrightarrow> gen_deals pkg (dk_dkg (nd_dkg nd)) xs = Some g \<Longrightarrow>
     foldl (node_Process pkg bc) nd (map deal_msg xs) = with_gen nd g"
proof (induction xs arbitrary: nd)
  case Nil
  then show ?case by simp
next
  case (Cons x xs)
  obtain g' resp where g': "ky_ProcessDeal pkg (dk_dkg (nd_dkg nd)) x = Inr (g', resp)" "gen_deals pkg g' xs = Some g"
    using Cons.prems(2) by (auto split: sum.splits)
  obtain err where "dkg_broadcast (nd_dkg nd) bc = Happens err"
    using broadcast_some_error[OF Cons.prems(1)] by (auto simp: dkg_broadcast_def)
  then have "node_Process pkg bc nd (deal_msg x) = with_gen nd g'"
    using g'(1) by (simp add: node_Process_def dkg_Process_def processDeal_def)
  then show ?case using Cons.IH[of "with_gen nd g'"] Cons.prems(1) g'(2) by simp
qed

lemma node_responses:
  "gen_responses pkg (dk_dkg (nd_dkg nd)) xs = Some g \<Longrightarrow> foldl (node_Process pkg bc) nd (map response_msg xs) = with_gen nd g"
proof (induction xs arbitrary: nd)
  case Nil
  then show ?case by simp
next
  case (Cons x xs)
  obtain g' where g': "ky_ProcessResponse pkg (dk_dkg (nd_dkg nd)) x = (g', None)" "\<not> ky_Certified pkg g'" "gen_responses pkg g' xs = Some g"
    using Cons.prems by (auto split: prod.splits if_splits)
  then have "node_Process pkg bc nd (response_msg x) = with_gen nd g'"
    by (simp add: node_Process_def dkg_Process_def processResponse_def Let_def)
  then show ?case using Cons.IH[of "with_gen nd g'"] g'(3) by simp
qed

text \<open>
  What makes the key generation end: when in every broadcast some send fails, a participant that has sent its deals
  and then gets the deals and the responses of the others hands the share to \<open>Run\<close> with the response that certifies its
  generator, and the lock is free again.
\<close>

theorem dkg_completes_with_failures:
  assumes "node_Run pkg (new_node d) results = (nd, None)" and "list_ex (\<lambda>e. e \<noteq> None) bc"
    and "gen_deals pkg (dk_dkg (nd_dkg nd)) xs = Some g1" and "gen_responses pkg g1 rs = Some g2"
    and "ky_ProcessResponse pkg g2 r = (g3, None)" and "ky_Certified pkg g3" and "ky_DistKeyShare pkg g3 = Inr dks"
  shows "let nd' = foldl (node_Process pkg bc) nd (map deal_msg xs @ map response_msg rs @ [response_msg r])
    in dk_share (nd_dkg nd') = Some dks \<and> dk_done (nd_dkg nd') \<and> nd_holder nd' = Free"
proof -
  have nd: "nd_holder nd = Free" "dk_waiting (nd_dkg nd)"
    using assms(1) by (auto simp: node_Run_def new_node_def dkg_Run_def Let_def split: option.splits prod.splits)
  then have "foldl (node_Process pkg bc) nd (map deal_msg xs @ map response_msg rs) = with_gen nd g2"
    using node_deals[OF assms(2), of pkg nd xs g1] node_responses[of pkg "with_gen nd g1" rs g2 bc] assms(3,4) by simp
  then show ?thesis using assms(5-7) nd
    by (simp flip: append_assoc add: node_Process_def dkg_Process_def processResponse_def Let_def)
qed

theorem dkg_completes_with_failures_witness:
  "let nd' = foldl (node_Process count_pkg [None, Some Router_closed]) (fst (node_Run count_pkg (new_node count_dkg) [None, None]))
      [deal_msg ''deal'', response_msg ''a'', response_msg ''b'']
    in dk_share (nd_dkg nd') = Some ''share''"
proof -
  obtain nd where nd: "node_Run count_pkg (new_node count_dkg) [None, None] = (nd, None)" and g: "dk_dkg (nd_dkg nd) = (0, 0)"
    by (simp add: node_Run_def new_node_def dkg_Run_def sendDeals_def count_dkg_def count_pkg_def)
  have "gen_deals count_pkg (dk_dkg (nd_dkg nd)) [''deal''] = Some (1, 0)" "gen_responses count_pkg (1, 0) [''a''] = Some (1, 1)"
    "ky_ProcessResponse count_pkg (1, 1) ''b'' = ((1, 2), None)" "ky_Certified count_pkg (1, 2)" "ky_DistKeyShare count_pkg (1, 2) = Inr ''share''"
    by (simp_all add: count_pkg_def g)
  from dkg_completes_with_failures[OF nd _ this, of "[None, Some Router_closed]"] show ?thesis
    unfolding nd by (simp add: Let_def)
qed

end
