(* ===== verification/Client_Group.thy ===== *)
theory Client_Group
  imports Client_Generation Go_Steps
begin

text \<open>
  All participants of a key generation together: each is a node of Client\_Generation, and what
  their handlers and their \<open>Run\<close> send is in transit until it is handled by the participant it is for. The
  routers deliver every message at most once, in any order. What \<open>processDeal\<close> and \<open>processResponse\<close> of client/dkg.go
  send is added to what they do to the own state.
\<close>

section \<open>What a handler sends\<close>

text \<open>The message \<open>Process\<close> gives to \<open>Broadcast\<close>.\<close>

definition dkg_reply :: "('g, 'd, 'r, 'j, 's) kyber_pkg \<Rightarrow> ('g, 's) DKG \<Rightarrow> ('d, 'r, 'j) ClientMessage \<Rightarrow> ('d, 'r, 'j) ClientMessage option" where
  "dkg_reply pkg d cm =
     (if cm_Type cm \<noteq> PROTOCOL_PDKG then None
      else case cm_PDkg cm of
        None \<Rightarrow> None
      | Some packet \<Rightarrow>
          (case pd_Deal packet of
             Some deal \<Rightarrow>
               (case ky_ProcessDeal pkg (dk_dkg d) deal of
                  Inl e \<Rightarrow> None
                | Inr (g, resp) \<Rightarrow>
                    Some \<lparr>cm_Type = PROTOCOL_PDKG,
                          cm_PDkg = Some \<lparr>pd_Deal = None, pd_Response = Some resp, pd_Justification = None\<rparr>\<rparr>)
           | None \<Rightarrow>
               (case pd_Response packet of
                  None \<Rightarrow> None
                | Some resp \<Rightarrow>
                    map_option (\<lambda>j. \<lparr>cm_Type = PROTOCOL_PDKG,
                          cm_PDkg = Some \<lparr>pd_Deal = None, pd_Response = None, pd_Justification = Some j\<rparr>\<rparr>)
                      (snd (ky_ProcessResponse pkg (dk_dkg d) resp)))))"

section \<open>The group\<close>

text \<open>
  \<open>gr_idle\<close> are the participants that have not called \<open>Run\<close> yet; a message in transit is with the
  identity it was sent to.
\<close>

record ('g, 'd, 'r, 'j, 's) group =
  gr_nodes :: "('g, 's) node list"
  gr_idle :: "nat list"
  gr_net :: "(Identity \<times> ('d, 'r, 'j) ClientMessage) list"

text \<open>Every participant has made its DKG, with its own key; \<open>None\<close> when one of them could not.\<close>

definition new_group ::
  "(bytes \<Rightarrow> 'pt option) \<Rightarrow> (Private \<Rightarrow> 'pt list \<Rightarrow> nat \<Rightarrow> string + 'g) \<Rightarrow> Identity list \<Rightarrow> Private list \<Rightarrow>
     ('g, 'd, 'r, 'j, 's) group option" where
  "new_group point new_gen ps privs =
     map_option (\<lambda>nodes. \<lparr>gr_nodes = nodes, gr_idle = [0..<length nodes], gr_net = []\<rparr>)
       (those (map (\<lambda>priv.
          case NewDKG point (new_gen priv) ''dkg'' (client_NewRouter :: (string, nat) client_Router) priv ps of
            Some (r, Inr d) \<Rightarrow> Some (new_node d)
          | _ \<Rightarrow> None) privs))"

definition own_identity :: "('g, 's) node \<Rightarrow> Identity" where
  "own_identity nd = dk_participants (nd_dkg nd) ! dk_i (nd_dkg nd)"

text \<open>
  A participant calls \<open>Run\<close>, or handles a message that is for it. No send returns an error: \<open>results\<close> and \<open>bc\<close> are the
  results that have arrived, and a message of a send that has not returned, as that to oneself, stays in transit.
\<close>

inductive group_step ::
  "('g, 'd, 'r, 'j, 's) kyber_pkg \<Rightarrow> ('g, 'd, 'r, 'j, 's) group \<Rightarrow> ('g, 'd, 'r, 'j, 's) group \<Rightarrow> bool" for pkg where
  run: "i \<in> set (gr_idle g) \<Longrightarrow> i < length (gr_nodes g) \<Longrightarrow> nd = gr_nodes g ! i \<Longrightarrow>
    nd_holder nd \<noteq> Dead \<Longrightarrow> \<not> dk_waiting (nd_dkg nd) \<Longrightarrow> dk_share (nd_dkg nd) = None \<Longrightarrow>
    list_all (\<lambda>e. e = None) results \<Longrightarrow>
    group_step pkg g (g\<lparr>gr_nodes := (gr_nodes g)[i := fst (node_Run pkg nd results)], gr_idle := remove1 i (gr_idle g),
      gr_net := gr_net g @ (case snd (ky_Deals pkg (dk_dkg (nd_dkg nd))) of Inl e \<Rightarrow> [] | Inr deals \<Rightarrow> deal_messages (nd_dkg nd) deals)\<rparr>)"
| handle: "gr_net g = xs @ (to, cm) # ys \<Longrightarrow> i < length (gr_nodes g) \<Longrightarrow> nd = gr_nodes g ! i \<Longrightarrow>
    own_identity nd = to \<Longrightarrow> nd_holder nd = Free \<Longrightarrow> list_all (\<lambda>e. e = None) bc \<Longrightarrow>
    broadcast_targets (dk_participants (nd_dkg nd)) targets \<Longrightarrow>
    group_step pkg g (g\<lparr>gr_nodes := (gr_nodes g)[i := node_Process pkg bc nd cm],
      gr_net := xs @ ys @ (case dkg_reply pkg (nd_dkg nd) cm of None \<Rightarrow> [] | Some m \<Rightarrow> map (\<lambda>t. (t, m)) targets)\<rparr>)"

section \<open>Each participant for itself\<close>

text \<open>A step of the group is a step of one participant, and nothing for the others.\<close>

definition member :: "nat \<Rightarrow> ('g, 'd, 'r, 'j, 's) group \<Rightarrow> ('g, 's) node \<Rightarrow> bool" where
  "member j g nd \<longleftrightarrow> j < length (gr_nodes g) \<and> gr_nodes g ! j = nd"

lemma member_step:
  assumes "member j g nd" and "group_step pkg g g'"
  shows "\<exists>nd'. (node_step pkg (list_all (\<lambda>e. e = None)))\<^sup>*\<^sup>* nd nd' \<and> member j g' nd'"
  using assms(2)
proof cases
  case (run i nd1 results)
  then show ?thesis using assms(1) node_step.run[of nd pkg "list_all (\<lambda>e. e = None)" results]
    by (cases "j = i") (auto simp: member_def)
next
  case (handle xs to cm ys i nd1 bc targets)
  then show ?thesis using assms(1) node_step.handle[of nd "list_all (\<lambda>e. e = None)" bc pkg cm]
    by (cases "j = i") (auto simp: member_def)
qed

interpretation member: simulation
  "\<lambda>g. j < length (gr_nodes g)" "group_step pkg" "\<lambda>nd. True" "node_step pkg (list_all (\<lambda>e. e = None))" "member j" for j pkg
  by (unfold_locales, simp add: member_def, rule member_step)

section \<open>Termination\<close>

text \<open>A run uses up a call of \<open>Run\<close>; a message handled is used up, unless the handler keeps the lock.\<close>

definition has_participants :: "('g, 'd, 'r, 'j, 's) group \<Rightarrow> bool" where
  "has_participants g \<longleftrightarrow> list_all (\<lambda>nd. dk_participants (nd_dkg nd) \<noteq> []) (gr_nodes g)"

definition free_nodes :: "('g, 's) node list \<Rightarrow> nat" where
  "free_nodes nds = length (filter (\<lambda>nd. nd_holder nd = Free) nds)"

definition group_measure :: "(('g, 'd, 'r, 'j, 's) group \<times> ('g, 'd, 'r, 'j, 's) group) set" where
  "group_measure = measures [\<lambda>g. length (gr_idle g), \<lambda>g. free_nodes (gr_nodes g), \<lambda>g. length (gr_net g)]"

lemma free_nodes_update:
  assumes "i < length nds" and "nd_holder (nds ! i) = Free"
  shows "if nd_holder nd = Free then free_nodes (nds[i := nd]) = free_nodes nds else free_nodes (nds[i := nd]) < free_nodes nds"
proof -
  have "nds = take i nds @ nds ! i # drop (Suc i) nds" using assms(1) by (rule id_take_nth_drop)
  then have "free_nodes nds = free_nodes (take i nds) + 1 + free_nodes (drop (Suc i) nds)"
    using assms(2) unfolding free_nodes_def by (metis (mono_tags, lifting) add.assoc filter.simps(2) filter_append length_Cons length_append plus_1_eq_Suc)
  moreover have "free_nodes (nds[i := nd]) = free_nodes (take i nds) + (if nd_holder nd = Free then 1 else 0) + free_nodes (drop (Suc i) nds)"
    using assms(1) by (simp add: upd_conv_take_nth_drop free_nodes_def)
  ultimately show ?thesis by simp
qed

text \<open>A handler that has something to send keeps the lock.\<close>

lemma node_Process_reply:
  assumes "dk_participants (nd_dkg nd) \<noteq> []" and "list_all (\<lambda>e. e = None) bc" and "dkg_reply pkg (nd_dkg nd) cm = Some m"
  shows "nd_holder (node_Process pkg bc nd cm) \<noteq> Free"
  using assms(3) broadcast_all_ok[OF assms(1,2)]
  by (auto simp: dkg_reply_def node_Process_def dkg_Process_def processDeal_def processResponse_def dkg_broadcast_def Let_def
      split: option.splits sum.splits prod.splits if_splits)

lemma node_Process_participants [simp]: "dk_participants (nd_dkg (node_Process pkg bc nd cm)) = dk_participants (nd_dkg nd)"
  by (auto simp: node_Process_def dkg_Process_def processDeal_def processResponse_def processJustification_def Let_def
      split: option.splits sum.splits prod.splits chan_result.splits if_splits)

lemma node_Run_participants [simp]: "dk_participants (nd_dkg (fst (node_Run pkg nd results))) = dk_participants (nd_dkg nd)"
  by (auto simp: node_Run_def dkg_Run_def Let_def split: option.splits prod.splits holder.splits)

lemma has_participants_update:
  "has_participants g \<Longrightarrow> i < length (gr_nodes g) \<Longrightarrow> dk_participants (nd_dkg nd) = dk_participants (nd_dkg (gr_nodes g ! i)) \<Longrightarrow>
     list_all (\<lambda>nd. dk_participants (nd_dkg nd) \<noteq> []) ((gr_nodes g)[i := nd])"
  by (auto simp: has_participants_def list_all_length nth_list_update)

lemma group_step_decreases:
  assumes "group_step pkg g g'" and "has_participants g"
  shows "(g', g) \<in> group_measure \<and> has_participants g'"
  using assms(1)
proof cases
  case (run i nd results)
  then have "length (remove1 i (gr_idle g)) < length (gr_idle g)" using length_pos_if_in_set[OF run(2)] by (simp add: length_remove1)
  moreover have "has_participants g'" using has_participants_update[OF assms(2) run(3)] run by (simp add: has_participants_def)
  ultimately show ?thesis using run(1) by (simp add: group_measure_def)
next
  case (handle xs to cm ys i nd bc targets)
  let ?nd = "node_Process pkg bc nd cm"
  have ps: "dk_participants (nd_dkg nd) \<noteq> []" using assms(2) handle(3,4) by (simp add: has_participants_def list_all_length)
  have i: "nd_holder (gr_nodes g ! i) = Free" using handle(4,6) by simp
  have free: "if nd_holder ?nd = Free then free_nodes (gr_nodes g') = free_nodes (gr_nodes g) else free_nodes (gr_nodes g') < free_nodes (gr_nodes g)"
    using free_nodes_update[OF handle(3) i, of ?nd] handle(1) by simp
  have "(g', g) \<in> group_measure"
  proof (cases "nd_holder ?nd = Free")
    case True
    then have "dkg_reply pkg (nd_dkg nd) cm = None" using node_Process_reply[OF ps handle(7)] by fastforce
    then show ?thesis using True free handle(1,2) by (simp add: group_measure_def)
  next
    case False
    then show ?thesis using free handle(1) by (simp add: group_measure_def)
  qed
  moreover have "has_participants g'" using has_participants_update[OF assms(2) handle(3)] handle by (simp add: has_participants_def)
  ultimately show ?thesis ..
qed

section \<open>The key generation of a group\<close>

lemma those_member: "those (map f ys) = Some xs \<Longrightarrow> x \<in> set xs \<Longrightarrow> \<exists>y \<in> set ys. f y = Some x"
  by (induction ys arbitrary: xs) (fastforce split: option.splits)+

lemma node_made:
  "(case x of Some (r, Inr d) \<Rightarrow> Some (new_node d) | _ \<Rightarrow> None) = Some nd \<Longrightarrow> \<exists>r d. x = Some (r, Inr d) \<and> nd = new_node d"
  by (cases x) (auto split: sum.split_asm)

lemma new_group_nodes:
  assumes "new_group point new_gen ps privs = Some g" and "nd \<in> set (gr_nodes g)"
  obtains r priv d where "NewDKG point (new_gen priv) ''dkg'' (client_NewRouter :: (string, nat) client_Router) priv ps = Some (r, Inr d)" "nd = new_node d"
proof -
  have "\<exists>priv \<in> set privs. (case NewDKG point (new_gen priv) ''dkg'' (client_NewRouter :: (string, nat) client_Router) priv ps of
      Some (r, Inr d) \<Rightarrow> Some (new_node d) | _ \<Rightarrow> None) = Some nd"
    by (rule those_member[OF _ assms(2)]) (use assms(1) in \<open>auto simp: new_group_def\<close>)
  then obtain priv where made: "(case NewDKG point (new_gen priv) ''dkg'' (client_NewRouter :: (string, nat) client_Router) priv ps of
      Some (r, Inr d) \<Rightarrow> Some (new_node d) | _ \<Rightarrow> None) = Some nd" by blast
  from node_made[OF this] show thesis using that by blast
qed

lemma new_group_participants:
  assumes "new_group point new_gen ps privs = Some g"
  shows "has_participants g"
proof -
  have "dk_participants (nd_dkg nd) \<noteq> []" if nd: "nd \<in> set (gr_nodes g)" for nd
  proof -
    obtain r priv d where d: "NewDKG point (new_gen priv) ''dkg'' (client_NewRouter :: (string, nat) client_Router) priv ps = Some (r, Inr d)"
      "nd = new_node d" by (rule new_group_nodes[OF assms nd])
    show ?thesis using NewDKG_Some[OF d(1)] d(2) by (auto simp: new_node_def find_index_Some)
  qed
  then show ?thesis by (simp add: has_participants_def list_all_iff)
qed

text \<open>
  C14. The key generation of a group in which no send fails: every run of it is over after
  finitely many steps, and at no time has a participant got a share. Of kyber it is used that a generator
  that has handled no deal of another participant is not certified, and that its own deals and responses alone
  do not change that.
\<close>

theorem group_generation_fails:
  assumes "new_group point new_gen ps privs = Some g0" and "uncertified pkg fresh"
    and "\<And>nd. nd \<in> set (gr_nodes g0) \<Longrightarrow> fresh (dk_dkg (nd_dkg nd))"
  shows "\<not> (\<exists>f. f 0 = g0 \<and> (\<forall>k. group_step pkg (f k) (f (Suc k)))) \<and>
    ((group_step pkg)\<^sup>*\<^sup>* g0 g \<longrightarrow> list_all (\<lambda>nd. dk_share (nd_dkg nd) = None) (gr_nodes g))"
proof (intro conjI impI notI)
  assume "\<exists>f. f 0 = g0 \<and> (\<forall>k. group_step pkg (f k) (f (Suc k)))"
  then obtain f where f: "f 0 = g0" "\<And>k. group_step pkg (f k) (f (Suc k))" by blast
  have "has_participants (f k)" for k
    by (induction k) (use f new_group_participants[OF assms(1)] group_step_decreases in auto)
  then have "(f (Suc k), f k) \<in> group_measure" for k using group_step_decreases[OF f(2)] by blast
  moreover have "wf group_measure" by (simp add: group_measure_def)
  ultimately show False using wf_iff_no_infinite_down_chain by blast
next
  assume run: "(group_step pkg)\<^sup>*\<^sup>* g0 g"
  have len: "length (gr_nodes g) = length (gr_nodes g0)"
    using run by (induction rule: rtranclp_induct) (auto elim!: group_step.cases)
  have "dk_share (nd_dkg (gr_nodes g ! j)) = None" if j: "j < length (gr_nodes g)" for j
  proof -
    have nd0: "gr_nodes g0 ! j \<in> set (gr_nodes g0)" using j len by simp
    obtain r priv d where d: "NewDKG point (new_gen priv) ''dkg'' (client_NewRouter :: (string, nat) client_Router) priv ps = Some (r, Inr d)"
      "gr_nodes g0 ! j = new_node d" by (rule new_group_nodes[OF assms(1) nd0])
    have "fresh (dk_dkg d)" using assms(3)[OF nd0] d(2) by (simp add: new_node_def)
    then have stuck: "node_stuck fresh (gr_nodes g0 ! j)" using new_node_stuck[OF d(1), of fresh] d(2) by simp
    have "member j g0 (gr_nodes g0 ! j)" using j len by (simp add: member_def)
    from member.sim_run[OF run this] obtain nd where
      "(node_step pkg (list_all (\<lambda>e. e = None)))\<^sup>*\<^sup>* (gr_nodes g0 ! j) nd" "member j g nd" by blast
    then show ?thesis using node_never_completes[OF assms(2) stuck] by (simp add: member_def)
  qed
  then show "list_all (\<lambda>nd. dk_share (nd_dkg nd) = None) (gr_nodes g)" by (simp add: list_all_length)
qed

text \<open>The witness: three participants with the counting generator of Client\_Generation; the first calls \<open>Run\<close>.\<close>

definition count_private :: "byte \<Rightarrow> Private" where
  "count_private k = \<lparr>pr_seed = [], pr_Public = key_identity [0, 0, 0, 0, 0, 0, 0, k]\<rparr>"

definition count_group :: "(nat \<times> nat, string, string, string, string) group" where
  "count_group = \<lparr>gr_nodes = map (\<lambda>i. new_node (count_dkg\<lparr>dk_i := i\<rparr>)) [0, 1, 2], gr_idle = [0, 1, 2], gr_net = []\<rparr>"

lemma count_new_group:
  "new_group (\<lambda>k. Some k) (\<lambda>_ _ _. Inr (0, 0)) (toy_participants 3) [count_private 1, count_private 2, count_private 3] = Some count_group"
  by (simp add: new_group_def NewDKG_def count_private_def toy_participants_def upt_conv_Cons count_group_def count_dkg_def Let_def)
    (simp add: numeral_2_eq_2 numeral_3_eq_3)

theorem group_generation_fails_witness:
  "\<exists>g. group_step count_pkg count_group g \<and> gr_net g \<noteq> [] \<and> list_all (\<lambda>nd. dk_share (nd_dkg nd) = None) (gr_nodes g)"
proof -
  let ?nd = "new_node (count_dkg\<lparr>dk_i := 0\<rparr>)"
  let ?g = "count_group\<lparr>gr_nodes := (gr_nodes count_group)[0 := fst (node_Run count_pkg ?nd [None, None])], gr_idle := remove1 0 (gr_idle count_group),
      gr_net := gr_net count_group @ (case snd (ky_Deals count_pkg (dk_dkg (nd_dkg ?nd))) of Inl e \<Rightarrow> [] | Inr deals \<Rightarrow> deal_messages (nd_dkg ?nd) deals)\<rparr>"
  have step: "group_step count_pkg count_group ?g"
    by (rule group_step.run) (simp_all add: count_group_def new_node_def count_dkg_def)
  have fresh: "(\<lambda>(n, m). n = 0) (dk_dkg (nd_dkg nd))" if "nd \<in> set (gr_nodes count_group)" for nd
    using that by (auto simp: count_group_def new_node_def count_dkg_def)
  have "(group_step count_pkg)\<^sup>*\<^sup>* count_group ?g" using step by (rule r_into_rtranclp)
  then have "list_all (\<lambda>nd. dk_share (nd_dkg nd) = None) (gr_nodes ?g)"
    using group_generation_fails[OF count_new_group count_uncertified fresh] by blast
  moreover have "gr_net ?g \<noteq> []" by (simp add: count_group_def count_pkg_def deal_messages_def)
  ultimately show ?thesis using step by blast
qed

end
