(* ===== verification/Client_Files.thy ===== *)
theory Client_Files
  imports Go_Prelude
begin

text \<open>
  client/file.go, object.go, hash.go and client.go: the fetchers of files with the regular expression
  of the HTTP one, the objects to be signed, the table of hashes, and the constructors that are not
  written yet. \<open>http.Get\<close>, the reading of its body, and the hash package are arguments.
\<close>

section \<open>Regular expressions\<close>

text \<open>
  What the pattern uses of package \<open>regexp\<close>: literals, an optional part, one or more characters of a
  class, and a class repeated between two bounds. \<open>rems r s\<close> is what is left of \<open>s\<close> after each way to
  match \<open>r\<close> at its start.
\<close>

datatype re = Lit string | Cat re re | Opt re | Many1 "char \<Rightarrow> bool" | Between nat nat "char \<Rightarrow> bool"

definition run_length :: "(char \<Rightarrow> bool) \<Rightarrow> string \<Rightarrow> nat" where
  "run_length p s = length (takeWhile p s)"

fun rems :: "re \<Rightarrow> string \<Rightarrow> string list" where
  "rems (Lit w) s = (if prefix w s then [drop (length w) s] else [])"
| "rems (Cat a b) s = concat (map (rems b) (rems a s))"
| "rems (Opt a) s = rems a s @ [s]"
| "rems (Many1 p) s = map (\<lambda>k. drop k s) [1..<run_length p s + 1]"
| "rems (Between m n p) s = map (\<lambda>k. drop k s) [m..<min n (run_length p s) + 1]"

definition MatchString :: "re \<Rightarrow> string \<Rightarrow> bool" where
  "MatchString r s = list_ex (\<lambda>t. rems r t \<noteq> []) (suffixes s)"

definition word_char :: "char \<Rightarrow> bool" where
  "word_char c = (c \<in> set ''0123456789ABCDEFGHIJKLMNOPQRSTUVWXYZabcdefghijklmnopqrstuvwxyz_'')"

definition lower_char :: "char \<Rightarrow> bool" where
  "lower_char c = (c \<in> set ''abcdefghijklmnopqrstuvwxyz'')"

section \<open>Fetchers\<close>

text \<open>\<open>https?://\w+\.[a-z]{2,15}\<close>\<close>

definition http_re :: re where
  "http_re = Cat (Lit ''http'') (Cat (Opt (Lit ''s'')) (Cat (Lit ''://'')
     (Cat (Many1 word_char) (Cat (Lit ''.'') (Between 2 15 lower_char)))))"

datatype 'e fetch_error = Cant_fetch string | Http 'e

text \<open>A \<open>FileFetcher\<close> is its two methods.\<close>

record 'e FileFetcher =
  ff_Accept :: "string \<Rightarrow> bool"
  ff_Grab :: "string \<Rightarrow> 'e fetch_error + bytes"

definition http_Accept :: "string \<Rightarrow> bool" where
  "http_Accept url = MatchString http_re url"

text \<open>\<open>get\<close> is \<open>http.Get\<close>: an error, or a body whose reading gives an error or its bytes.\<close>

definition http_Grab :: "(string \<Rightarrow> 'e + ('e + bytes)) \<Rightarrow> string \<Rightarrow> 'e fetch_error + bytes" where
  "http_Grab get url =
     (if \<not> http_Accept url then Inl (Cant_fetch url)
      else case get url of
             Inl e \<Rightarrow> Inl (Http e)
           | Inr (Inl e) \<Rightarrow> Inl (Http e)
           | Inr (Inr body) \<Rightarrow> Inr body)"

definition NewHttpFetcher :: "(string \<Rightarrow> 'e + ('e + bytes)) \<Rightarrow> 'e FileFetcher" where
  "NewHttpFetcher get = \<lparr>ff_Accept = http_Accept, ff_Grab = http_Grab get\<rparr>"

text \<open>The global variable \<open>fetchers\<close>, as \<open>init\<close> leaves it.\<close>

definition RegisterFileFetcher :: "'e FileFetcher list \<Rightarrow> 'e FileFetcher \<Rightarrow> 'e FileFetcher list" where
  "RegisterFileFetcher fetchers ff = fetchers @ [ff]"

definition init_fetchers :: "(string \<Rightarrow> 'e + ('e + bytes)) \<Rightarrow> 'e FileFetcher list" where
  "init_fetchers get = RegisterFileFetcher [] (NewHttpFetcher get)"

fun FindFileFetcher :: "'e FileFetcher list \<Rightarrow> string \<Rightarrow> 'e FileFetcher option" where
  "FindFileFetcher [] url = None"
| "FindFileFetcher (ff # ffs) url = (if ff_Accept ff url then Some ff else FindFileFetcher ffs url)"

section \<open>Objects, hashes and clients\<close>

text \<open>The constructors of objects return nil, and no error.\<close>

datatype Object = Object

definition NewTextObject :: "string \<Rightarrow> Object option" where "NewTextObject text = None"
definition NewLocalFileObject :: "string \<Rightarrow> Object option \<times> string option" where "NewLocalFileObject path = (None, None)"
definition NewRemoteFileObject :: "string \<Rightarrow> Object option \<times> string option" where "NewRemoteFileObject url = (None, None)"

definition default_Accept :: "Object option \<Rightarrow> bool" where "default_Accept o' = True"

definition Blake2 :: string where "Blake2 = ''blake2''"
definition DefaultHash :: string where "DefaultHash = Blake2"
definition SupportedHashes :: "string list" where "SupportedHashes = [Blake2]"

text \<open>\<open>blake2b\<close> is a fresh hash of the package.\<close>

definition NewHash :: "'h \<Rightarrow> string \<Rightarrow> string + 'h" where
  "NewHash blake2b s = (if s = Blake2 then Inr blake2b else Inl (''hash: '' @ s @ '' not known''))"

text \<open>Both constructors panic.\<close>

definition NewLeader :: "unit option" where "NewLeader = None"
definition NewClient :: "unit option" where "NewClient = None"

section \<open>Properties\<close>

lemma takeWhile_split: "k \<le> run_length p s \<longleftrightarrow> k \<le> length s \<and> list_all p (take k s)"
proof (induction s arbitrary: k)
  case (Cons c s)
  then show ?case by (cases k) (auto simp: run_length_def)
qed (simp add: run_length_def)

text \<open>What is left after a repetition: a word of the class has been cut off.\<close>

lemma rems_Many1: "t \<in> set (rems (Many1 p) s) \<longleftrightarrow> (\<exists>w. s = w @ t \<and> w \<noteq> [] \<and> list_all p w)"
proof
  assume "t \<in> set (rems (Many1 p) s)"
  then obtain k where "k \<in> set [1..<run_length p s + 1]" "t = drop k s" by (auto simp del: set_upt)
  then have "0 < k" "k \<le> run_length p s" "t = drop k s" by auto
  then show "\<exists>w. s = w @ t \<and> w \<noteq> [] \<and> list_all p w"
    by (intro exI[of _ "take k s"]) (auto simp: takeWhile_split)
next
  assume "\<exists>w. s = w @ t \<and> w \<noteq> [] \<and> list_all p w"
  then obtain w where "s = w @ t" "w \<noteq> []" "list_all p w" by blast
  then have "0 < length w" "length w \<le> run_length p s" "t = drop (length w) s" by (simp_all add: takeWhile_split)
  then have "length w \<in> set [1..<run_length p s + 1]" unfolding set_upt atLeastLessThan_iff by linarith
  with \<open>t = drop (length w) s\<close> show "t \<in> set (rems (Many1 p) s)" unfolding rems.simps set_map by (rule image_eqI)
qed

lemma rems_Between: "rems (Between m n p) s \<noteq> [] \<longleftrightarrow> m \<le> n \<and> (\<exists>w t. s = w @ t \<and> length w = m \<and> list_all p w)"
proof -
  have "rems (Between m n p) s \<noteq> [] \<longleftrightarrow> m \<le> n \<and> m \<le> run_length p s" by auto
  also have "\<dots> \<longleftrightarrow> m \<le> n \<and> (\<exists>w t. s = w @ t \<and> length w = m \<and> list_all p w)"
    by (auto simp: takeWhile_split) (metis append_take_drop_id length_take min.absorb2)
  finally show ?thesis .
qed

lemma rems_Lit: "t \<in> set (rems (Lit w) s) \<longleftrightarrow> s = w @ t"
  by (auto simp: prefix_def)

lemma rems_Cat: "rems (Cat a b) s \<noteq> [] \<longleftrightarrow> (\<exists>t \<in> set (rems a s). rems b t \<noteq> [])"
  by auto

lemma rems_Opt: "t \<in> set (rems (Opt (Lit w)) s) \<longleftrightarrow> (\<exists>o'. s = o' @ t \<and> (o' = [] \<or> o' = w))"
  by (auto simp: prefix_def)

lemma rems_chain:
  "rems (Cat (Lit a) (Cat (Opt (Lit u)) (Cat (Lit b) (Cat (Many1 p) (Cat (Lit d) (Between m n q)))))) t \<noteq> [] \<longleftrightarrow>
     m \<le> n \<and> (\<exists>x w y z. t = a @ x @ b @ w @ d @ y @ z \<and> (x = [] \<or> x = u) \<and> w \<noteq> [] \<and> list_all p w \<and> length y = m \<and> list_all q y)"
  unfolding rems_Cat Bex_def rems_Lit rems_Opt rems_Many1 rems_Between by blast

text \<open>
  C31. What the HTTP fetcher accepts: exactly the strings in which, anywhere, \<open>http\<close> or \<open>https\<close>, the
  separator, a word, a dot and two small letters follow each other. The pattern is not anchored, so
  text may come before it, and anything after it.
\<close>

theorem http_Accept_iff:
  "http_Accept url \<longleftrightarrow>
     (\<exists>pre sch w tld post. url = pre @ ''http'' @ sch @ ''://'' @ w @ ''.'' @ tld @ post \<and> (sch = [] \<or> sch = ''s'') \<and>
        w \<noteq> [] \<and> list_all word_char w \<and> length tld = 2 \<and> list_all lower_char tld)"
proof -
  have "http_Accept url \<longleftrightarrow> (\<exists>pre t. url = pre @ t \<and> rems http_re t \<noteq> [])"
    unfolding http_Accept_def MatchString_def list_ex_iff Bex_def set_suffixes_eq mem_Collect_eq suffix_def by blast
  moreover have "rems http_re t \<noteq> [] \<longleftrightarrow>
     (\<exists>sch w tld post. t = ''http'' @ sch @ ''://'' @ w @ ''.'' @ tld @ post \<and> (sch = [] \<or> sch = ''s'') \<and>
        w \<noteq> [] \<and> list_all word_char w \<and> length tld = 2 \<and> list_all lower_char tld)" for t
    unfolding http_re_def rems_chain by (simp only: le_numeral_extra numeral_le_iff rel_simps simp_thms)
  ultimately show ?thesis by (simp only:) blast
qed

text \<open>
  \<open>FindFileFetcher\<close> gives the fetcher registered first of those that accept the URL; the HTTP
  fetcher, registered by \<open>init\<close>, comes before every other, and one that is found never answers that
  it cannot fetch this URL.
\<close>

theorem find_fetcher_first:
  fixes ffs :: "'e FileFetcher list"
  shows "FindFileFetcher (foldl RegisterFileFetcher (init_fetchers get) ffs) url =
     (if http_Accept url then Some (NewHttpFetcher get) else find (\<lambda>ff. ff_Accept ff url) ffs) \<and>
   (if http_Accept url then http_Grab get url \<noteq> Inl (Cant_fetch url) else http_Grab get url = Inl (Cant_fetch url))"
proof -
  have "foldl RegisterFileFetcher fs ffs = fs @ ffs" for fs :: "'e FileFetcher list" by (induction ffs arbitrary: fs) (auto simp: RegisterFileFetcher_def)
  moreover have "FindFileFetcher fs url = find (\<lambda>ff. ff_Accept ff url) fs" for fs :: "'e FileFetcher list" by (induction fs) auto
  ultimately show ?thesis
    by (simp add: init_fetchers_def RegisterFileFetcher_def NewHttpFetcher_def http_Grab_def split: sum.splits)
qed

text \<open>The supported hashes are those \<open>NewHash\<close> knows.\<close>

theorem NewHash_supported: "(\<exists>h. NewHash blake2b s = Inr h) \<longleftrightarrow> s \<in> set SupportedHashes"
  by (simp add: NewHash_def SupportedHashes_def)

end
