(* ===== verification/Go_Path.thy ===== *)
theory Go_Path
  imports Go_Prelude
begin

text \<open>
  The functions of \<open>path/filepath\<close> the configuration uses, on a system with \<open>/\<close> as separator:
  \<open>Clean\<close>, \<open>Join\<close> of two elements and \<open>Rel\<close>. A path is a string; the proofs look at whether it is
  rooted and at the list of its elements.
\<close>

section \<open>Elements of a path\<close>

abbreviation Dot :: string where "Dot \<equiv> ''.''"
abbreviation DotDot :: string where "DotDot \<equiv> ''..''"
abbreviation slash :: char where "slash \<equiv> CHR ''/''"

definition rooted :: "string \<Rightarrow> bool" where
  "rooted p = (case p of [] \<Rightarrow> False | c # _ \<Rightarrow> c = slash)"

definition elems :: "string \<Rightarrow> string list" where
  "elems p = filter (\<lambda>c. c \<noteq> []) (strings_split p [slash])"

text \<open>The rules of \<open>Clean\<close>; the elements kept so far are in reverse order.\<close>

fun clean_elems :: "bool \<Rightarrow> string list \<Rightarrow> string list \<Rightarrow> string list" where
  "clean_elems r st [] = rev st"
| "clean_elems r st (c # cs) =
     (if c = Dot then clean_elems r st cs
      else if c = DotDot then
        (case st of
           [] \<Rightarrow> clean_elems r (if r then [] else [DotDot]) cs
         | t # ts \<Rightarrow> clean_elems r (if t = DotDot then DotDot # st else ts) cs)
      else clean_elems r (c # st) cs)"

definition normal_elems :: "string \<Rightarrow> string list" where
  "normal_elems p = clean_elems (rooted p) [] (elems p)"

definition render :: "bool \<Rightarrow> string list \<Rightarrow> string" where
  "render r cs = (if r then slash # strings_join [slash] cs else if cs = [] then Dot else strings_join [slash] cs)"

definition Clean :: "string \<Rightarrow> string" where
  "Clean p = render (rooted p) (normal_elems p)"

definition Join :: "string \<Rightarrow> string \<Rightarrow> string" where
  "Join a b = (if a \<noteq> [] then Clean (a @ [slash] @ b) else if b \<noteq> [] then Clean b else [])"

text \<open>
  \<open>Rel\<close>: the elements the two paths do not share, going up those of the base. \<open>None\<close> is its
  error.
\<close>

fun strip_common :: "string list \<Rightarrow> string list \<Rightarrow> string list \<times> string list" where
  "strip_common (b # bs) (t # ts) = (if b = t then strip_common bs ts else (b # bs, t # ts))"
| "strip_common bs ts = (bs, ts)"

definition Rel :: "string \<Rightarrow> string \<Rightarrow> string option" where
  "Rel base targ =
     (if Clean targ = Clean base then Some Dot
      else if rooted base \<noteq> rooted targ then None
      else case strip_common (normal_elems base) (if Clean targ = Dot then [Dot] else normal_elems targ) of (bs, ts) \<Rightarrow>
             if bs \<noteq> [] \<and> hd bs = DotDot then None
             else Some (strings_join [slash] (map (\<lambda>_. DotDot) bs @ ts)))"

section \<open>Elements and strings\<close>

lemma split_aux_slash: "split_aux [c] acc (a @ c # b) = split_aux [c] acc a @ split_aux [c] [] b"
  by (induction a arbitrary: acc) auto

lemma elems_append [simp]: "elems (a @ slash # b) = elems a @ elems b"
  by (simp add: elems_def strings_split_def split_aux_slash)

lemma elems_Nil [simp]: "elems [] = []"
  by (simp add: elems_def strings_split_def)

lemma elems_slash [simp]: "elems (slash # p) = elems p"
  using elems_append[of "[]" p] by simp

lemma elems_element: "c \<noteq> [] \<Longrightarrow> slash \<notin> set c \<Longrightarrow> elems c = [c]"
  by (simp add: elems_def split_no_sep sublist_def in_set_conv_decomp)

definition element :: "string \<Rightarrow> bool" where
  "element c = (c \<noteq> [] \<and> slash \<notin> set c)"

lemma elems_join: "list_all element cs \<Longrightarrow> elems (strings_join [slash] cs) = cs"
  by (induction "[slash]" cs rule: strings_join.induct) (auto simp: elems_element element_def)

lemma split_aux_elements:
  "slash \<notin> set acc \<Longrightarrow> c \<in> set (split_aux [slash] acc s) \<Longrightarrow> slash \<notin> set c"
proof (induction s arbitrary: acc)
  case (Cons a s)
  then show ?case using Cons.IH[of "[]"] Cons.IH[of "a # acc"] by (cases "a = slash") auto
qed auto

lemma elems_elements: "list_all element (elems p)"
  using split_aux_elements[of "[]" _ p] by (auto simp: list_all_iff elems_def element_def strings_split_def)

text \<open>A plain name: an element that is neither of the two special ones.\<close>

definition plain :: "string \<Rightarrow> bool" where
  "plain c = (element c \<and> c \<noteq> Dot \<and> c \<noteq> DotDot)"

section \<open>Normal forms\<close>

text \<open>The stack of \<open>clean_elems\<close>: plain names above the \<open>..\<close> of a path that is not rooted.\<close>

fun normal :: "bool \<Rightarrow> string list \<Rightarrow> bool" where
  "normal r [] = True"
| "normal r (c # st) = (if c = DotDot then \<not> r \<and> list_all ((=) DotDot) st else plain c \<and> normal r st)"

lemma normal_plain: "plain c \<Longrightarrow> normal r st \<Longrightarrow> normal r (c # st)"
  by (simp add: plain_def)

lemma normal_dots: "list_all ((=) DotDot) st \<Longrightarrow> normal False st"
  by (induction st) auto

lemma normal_clean: "list_all element cs \<Longrightarrow> normal r st \<Longrightarrow> normal r (rev (clean_elems r st cs))"
proof (induction r st cs rule: clean_elems.induct)
  case (2 r st c cs)
  show ?case
  proof (cases "c = DotDot")
    case True
    then show ?thesis using 2 by (cases st) (auto split: if_splits)
  next
    case False
    then show ?thesis using 2 by (auto simp: plain_def intro: normal_plain)
  qed
qed simp

lemma clean_elems_append: "clean_elems r st (cs @ ds) = clean_elems r (rev (clean_elems r st cs)) ds"
  by (induction r st cs rule: clean_elems.induct) (auto split: list.splits)

lemma clean_elems_plain: "list_all plain cs \<Longrightarrow> clean_elems r st cs = rev st @ cs"
  by (induction cs arbitrary: st) (auto simp: plain_def)

lemma clean_normal: "normal r st \<Longrightarrow> clean_elems r [] (rev st) = rev st"
proof (induction st)
  case (Cons c st)
  have "normal r st" using Cons.prems by (auto split: if_splits intro: normal_dots)
  then have "clean_elems r [] (rev (c # st)) = clean_elems r st [c]" by (simp add: clean_elems_append Cons.IH)
  then show ?case using Cons.prems by (cases st) (auto simp: plain_def split: if_splits)
qed simp

lemma normal_elems_normal: "normal (rooted p) (rev (normal_elems p))"
  unfolding normal_elems_def by (rule normal_clean) (simp_all add: elems_elements)

lemma normal_elements: "normal r st \<Longrightarrow> list_all element st"
proof (induction st)
  case (Cons c st)
  have "element DotDot" by (simp add: element_def)
  then show ?case using Cons by (auto simp: plain_def split: if_splits intro: normal_dots)
qed simp

lemma join_first: "element c \<Longrightarrow> \<exists>d s. strings_join [slash] (c # cs) = d # s \<and> d \<noteq> slash"
  by (cases c; cases cs) (auto simp: element_def)

lemma rooted_render [simp]: "list_all element cs \<Longrightarrow> rooted (render r cs) = r"
  using join_first[of "hd cs" "tl cs"] by (cases cs) (auto simp: render_def rooted_def)

lemma normal_render [simp]:
  assumes "normal r (rev cs)"
  shows "normal_elems (render r cs) = cs"
proof -
  have "list_all element cs" using normal_elements[OF assms] by (simp add: list_all_rev)
  then have "clean_elems r [] (elems (render r cs)) = clean_elems r [] cs"
    by (auto simp: render_def elems_join elems_element)
  with \<open>list_all element cs\<close> clean_normal[OF assms] show ?thesis by (simp add: normal_elems_def)
qed

lemma render_inject: "normal r (rev cs) \<Longrightarrow> normal r (rev ds) \<Longrightarrow> render r cs = render r ds \<longleftrightarrow> cs = ds"
  by (metis normal_render)

lemma Clean_idem: "Clean (Clean p) = Clean p"
  using normal_elems_normal[of p] normal_elements[OF normal_elems_normal[of p]]
  by (simp add: Clean_def list_all_rev)

section \<open>Joining a plain name\<close>

lemma Join_plain:
  assumes "plain n"
  shows "Join a n = render (rooted a) (normal_elems a @ [n])"
proof -
  have n: "elems n = [n]" "clean_elems r st [n] = rev st @ [n]" "rooted n = False" for r st
    using assms by (auto simp: plain_def element_def elems_element rooted_def split: list.splits)
  show ?thesis
  proof (cases "a = []")
    case True
    then show ?thesis using assms n by (auto simp: Join_def Clean_def normal_elems_def rooted_def plain_def element_def)
  next
    case False
    then have "rooted (a @ slash # n) = rooted a" by (cases a) (simp_all add: rooted_def)
    moreover have "clean_elems r [] (elems (a @ slash # n)) = clean_elems r [] (elems a) @ [n]" for r
      using n(2)[of r "rev (clean_elems r [] (elems a))"] by (simp only: elems_append n(1) clean_elems_append rev_rev_ident)
    ultimately show ?thesis using False by (simp add: Join_def Clean_def normal_elems_def)
  qed
qed

lemma normal_snoc: "plain n \<Longrightarrow> normal (rooted a) (rev (normal_elems a @ [n]))"
  using normal_plain[OF _ normal_elems_normal[of a], of n] by simp

lemma Join_elems [simp]: "plain n \<Longrightarrow> normal_elems (Join a n) = normal_elems a @ [n]"
  using normal_snoc[of n a] by (simp add: Join_plain)

lemma Join_rooted [simp]: "plain n \<Longrightarrow> rooted (Join a n) = rooted a"
  using normal_elements[OF normal_snoc[of n a]] by (simp add: Join_plain list_all_rev)

lemma strip_common_prefix: "strip_common bs (bs @ ts) = ([], ts)"
  by (induction bs) simp_all

lemma Rel_below:
  assumes "rooted t = rooted b" and "normal_elems t = normal_elems b @ ns" and "ns \<noteq> []"
  shows "Rel b t = Some (strings_join [slash] ns)"
proof -
  have "Clean t \<noteq> Clean b"
    using assms render_inject[of "rooted b" "normal_elems t" "normal_elems b"] normal_elems_normal[of t] normal_elems_normal[of b]
    by (simp add: Clean_def)
  moreover have "Clean t \<noteq> Dot"
  proof
    assume "Clean t = Dot"
    then have "normal_elems (Clean t) = []" by (simp add: normal_elems_def elems_element)
    then show False using assms(2,3) normal_elems_normal[of t] by (simp add: Clean_def)
  qed
  ultimately show ?thesis using assms by (simp add: Rel_def strip_common_prefix)
qed

end
