(* ===== verification/Go_Os.thy ===== *)
theory Go_Os
  imports Go_Path "HOL-Library.List_Lexorder" "HOL-Library.Char_ord"
begin

text \<open>
  The file system as the configuration uses it (packages \<open>os\<close> and \<open>io/ioutil\<close>): files with their
  bytes, directories, and the places the process has no permission for. A place is a cleaned path:
  whether it is rooted, and its elements. The root and the working directory always exist.
\<close>

type_synonym loc = "bool \<times> string list"

definition loc_of :: "string \<Rightarrow> loc" where
  "loc_of p = (rooted p, normal_elems p)"

record fs =
  fs_files :: "(loc, bytes) gomap"
  fs_dirs :: "loc list"
  fs_denied :: "loc list"

datatype fs_error = Not_exist | Denied | Not_dir | Is_dir

section \<open>Lookup\<close>

definition is_dir :: "fs \<Rightarrow> loc \<Rightarrow> bool" where
  "is_dir fs l = (snd l = [] \<or> l \<in> set (fs_dirs fs))"

definition is_file :: "fs \<Rightarrow> loc \<Rightarrow> bool" where
  "is_file fs l = (map_of (fs_files fs) l \<noteq> None)"

definition parent_loc :: "loc \<Rightarrow> loc" where
  "parent_loc l = (fst l, butlast (snd l))"

definition ancestors :: "loc \<Rightarrow> loc list" where
  "ancestors l = map (\<lambda>k. (fst l, take k (snd l))) [0..<length (snd l)]"

text \<open>What stops the system on the way to a place.\<close>

definition walk_error :: "fs \<Rightarrow> loc \<Rightarrow> fs_error option" where
  "walk_error fs l =
     (case find (\<lambda>a. is_file fs a \<or> a \<in> set (fs_denied fs)) (ancestors l) of
        None \<Rightarrow> None
      | Some a \<Rightarrow> Some (if is_file fs a then Not_dir else Denied))"

definition os_Stat :: "fs \<Rightarrow> string \<Rightarrow> fs_error option" where
  "os_Stat fs p =
     (if p = [] then Some Not_exist
      else case walk_error fs (loc_of p) of
             Some e \<Rightarrow> Some e
           | None \<Rightarrow> if is_file fs (loc_of p) \<or> is_dir fs (loc_of p) then None else Some Not_exist)"

section \<open>System calls\<close>

text \<open>\<open>MkdirAll\<close> makes the missing directories from the top; those made before an error stay.\<close>

fun mkdirs :: "fs \<Rightarrow> loc list \<Rightarrow> fs \<times> fs_error option" where
  "mkdirs fs [] = (fs, None)"
| "mkdirs fs (l # ls) =
     (if is_dir fs l then mkdirs fs ls
      else if is_file fs l then (fs, Some Not_dir)
      else case walk_error fs l of
             Some e \<Rightarrow> (fs, Some e)
           | None \<Rightarrow> mkdirs (fs\<lparr>fs_dirs := fs_dirs fs @ [l]\<rparr>) ls)"

definition os_MkdirAll :: "fs \<Rightarrow> string \<Rightarrow> fs \<times> fs_error option" where
  "os_MkdirAll fs p =
     (if p = [] then (fs, Some Not_exist) else mkdirs fs (ancestors (loc_of p) @ [loc_of p]))"

text \<open>\<open>OpenFile\<close> with \<open>O_CREATE|O_WRONLY|O_TRUNC\<close>: the file is empty afterwards.\<close>

definition os_OpenTrunc :: "fs \<Rightarrow> loc \<Rightarrow> fs_error + fs" where
  "os_OpenTrunc fs l =
     (case walk_error fs l of
        Some e \<Rightarrow> Inl e
      | None \<Rightarrow>
          if is_dir fs l then Inl Is_dir
          else if \<not> is_dir fs (parent_loc l) then Inl Not_exist
          else if l \<in> set (fs_denied fs) then Inl Denied
          else Inr (fs\<lparr>fs_files := AList.update l [] (fs_files fs)\<rparr>))"

definition os_write :: "fs \<Rightarrow> loc \<Rightarrow> bytes \<Rightarrow> fs" where
  "os_write fs l b = fs\<lparr>fs_files := AList.update l b (fs_files fs)\<rparr>"

definition ioutil_ReadFile :: "fs \<Rightarrow> loc \<Rightarrow> fs_error + bytes" where
  "ioutil_ReadFile fs l =
     (case walk_error fs l of
        Some e \<Rightarrow> Inl e
      | None \<Rightarrow>
          if is_dir fs l then Inl Is_dir
          else case map_of (fs_files fs) l of
                 None \<Rightarrow> Inl Not_exist
               | Some b \<Rightarrow> if l \<in> set (fs_denied fs) then Inl Denied else Inr b)"

text \<open>\<open>ReadDir\<close>, of which only the names of the directories matter; they come sorted.\<close>

definition ioutil_ReadDir_dirs :: "fs \<Rightarrow> loc \<Rightarrow> fs_error + string list" where
  "ioutil_ReadDir_dirs fs l =
     (case walk_error fs l of
        Some e \<Rightarrow> Inl e
      | None \<Rightarrow>
          if is_file fs l then Inl Not_dir
          else if \<not> is_dir fs l then Inl Not_exist
          else if l \<in> set (fs_denied fs) then Inl Denied
          else Inr (sort (map (\<lambda>d. last (snd d)) (filter (\<lambda>d. snd d \<noteq> [] \<and> parent_loc d = l) (fs_dirs fs)))))"

section \<open>Well-formed file systems\<close>

definition fs_wf :: "fs \<Rightarrow> bool" where
  [inv_defs]: "fs_wf fs =
     (wf_map (fs_files fs) \<and> distinct (fs_dirs fs) \<and>
      list_all (\<lambda>d. snd d \<noteq> [] \<and> is_dir fs (parent_loc d)) (fs_dirs fs) \<and>
      list_all (\<lambda>l. snd l \<noteq> [] \<and> \<not> is_dir fs l \<and> is_dir fs (parent_loc l)) (map fst (fs_files fs)))"

lemma loc_Join [simp]: "plain n \<Longrightarrow> loc_of (Join a n) = (fst (loc_of a), snd (loc_of a) @ [n])"
  by (simp add: loc_of_def)

lemma parent_snoc [simp]: "parent_loc (r, cs @ [n]) = (r, cs)"
  by (simp add: parent_loc_def)

lemma ancestors_snoc [simp]: "ancestors (r, cs @ [n]) = ancestors (r, cs) @ [(r, cs)]"
  by (simp add: ancestors_def)

lemma ancestors_Nil [simp]: "ancestors (r, []) = []"
  by (simp add: ancestors_def)

lemma ancestors_shorter: "a \<in> set (ancestors l) \<Longrightarrow> length (snd a) < length (snd l)"
  by (auto simp: ancestors_def)

lemma not_own_ancestor: "l \<notin> set (ancestors l)"
  using ancestors_shorter[of l l] by blast

lemma walk_error_None:
  "walk_error fs l = None \<longleftrightarrow> list_all (\<lambda>a. \<not> is_file fs a \<and> a \<notin> set (fs_denied fs)) (ancestors l)"
proof -
  have "find P xs = None \<longleftrightarrow> list_all (\<lambda>a. \<not> P a) xs" for P and xs :: "loc list" by (induction xs) auto
  from this[of "\<lambda>a. is_file fs a \<or> a \<in> set (fs_denied fs)" "ancestors l"] show ?thesis
    by (cases "find (\<lambda>a. is_file fs a \<or> a \<in> set (fs_denied fs)) (ancestors l)") (simp_all add: walk_error_def)
qed

lemma walk_error_not_missing [simp]: "walk_error fs l \<noteq> Some Not_exist"
  by (auto simp: walk_error_def split: option.splits)

lemma walk_error_snoc:
  "walk_error fs (r, cs @ [n]) = None \<longleftrightarrow>
     walk_error fs (r, cs) = None \<and> \<not> is_file fs (r, cs) \<and> (r, cs) \<notin> set (fs_denied fs)"
  by (auto simp: walk_error_None)

lemma is_dir_mono: "set (fs_dirs fs) \<subseteq> set (fs_dirs fs') \<Longrightarrow> is_dir fs l \<Longrightarrow> is_dir fs' l"
  by (auto simp: is_dir_def)

lemma is_file_update: "is_file (fs\<lparr>fs_files := AList.update l b (fs_files fs)\<rparr>) l' \<longleftrightarrow> l' = l \<or> is_file fs l'"
  by (simp add: is_file_def update_conv)

lemma is_dir_frame [simp]: "is_dir (fs\<lparr>fs_files := x\<rparr>) l = is_dir fs l" "is_file (fs\<lparr>fs_dirs := y\<rparr>) l = is_file fs l"
  by (simp_all add: is_dir_def is_file_def)

text \<open>Making a directory whose parent exists, and making a file, keep the well-formedness.\<close>

lemma fs_wf_mkdir:
  assumes "fs_wf fs" and "\<not> is_dir fs l" and "\<not> is_file fs l" and "is_dir fs (parent_loc l)"
  shows "fs_wf (fs\<lparr>fs_dirs := fs_dirs fs @ [l]\<rparr>)"
proof -
  have more: "is_dir (fs\<lparr>fs_dirs := fs_dirs fs @ [l]\<rparr>) d \<longleftrightarrow> is_dir fs d \<or> d = l" for d
    by (auto simp: is_dir_def)
  have "l \<notin> fst ` set (fs_files fs)" using assms(3) by (simp add: is_file_def map_of_eq_None_iff)
  then show ?thesis using assms by (auto simp: fs_wf_def more list_all_iff) (auto simp: is_dir_def)
qed

lemma fs_wf_write:
  assumes "fs_wf fs" and "\<not> is_dir fs l" and "is_dir fs (parent_loc l)"
  shows "fs_wf (fs\<lparr>fs_files := AList.update l b (fs_files fs)\<rparr>)"
proof -
  have "snd l \<noteq> []" using assms(2) by (auto simp: is_dir_def)
  moreover have "set (map fst (AList.update l b (fs_files fs))) = insert l (fst ` set (fs_files fs))"
    by (simp add: keys_update)
  ultimately show ?thesis using assms by (auto simp: fs_wf_def list_all_iff wf_map_update)
qed

text \<open>
  What \<open>MkdirAll\<close> on a place does: the files stay, no directory goes away, and without an error the
  place is a directory.
\<close>

lemma mkdirs_frame:
  "mkdirs fs ls = (fs', err) \<Longrightarrow> fs_files fs' = fs_files fs \<and> fs_denied fs' = fs_denied fs \<and> set (fs_dirs fs) \<subseteq> set (fs_dirs fs')"
  by (induction fs ls arbitrary: fs' err rule: mkdirs.induct) (fastforce split: if_splits option.splits)+

lemma mkdirs_new: "mkdirs fs ls = (fs', err) \<Longrightarrow> set (fs_dirs fs') \<subseteq> set (fs_dirs fs) \<union> set ls"
  by (induction fs ls arbitrary: fs' err rule: mkdirs.induct) (fastforce split: if_splits option.splits)+

lemma mkdirs_dirs:
  "mkdirs fs ls = (fs', None) \<Longrightarrow> l \<in> set ls \<Longrightarrow> is_dir fs' l"
proof (induction fs ls arbitrary: fs' rule: mkdirs.induct)
  case (2 fs l' ls)
  then show ?case
    using mkdirs_frame[of fs ls fs' None] mkdirs_frame[of "fs\<lparr>fs_dirs := fs_dirs fs @ [l']\<rparr>" ls fs' None]
    by (auto split: if_splits option.splits intro: is_dir_mono simp: is_dir_def)
qed simp

text \<open>The places \<open>MkdirAll\<close> visits come after their parents.\<close>

fun chain :: "loc \<Rightarrow> loc list \<Rightarrow> bool" where
  "chain p [] = True"
| "chain p (l # ls) = (parent_loc l = p \<and> chain l ls)"

lemma chain_snoc: "chain p (ls @ [l]) \<longleftrightarrow> chain p ls \<and> parent_loc l = last (p # ls)"
  by (induction ls arbitrary: p) auto

lemma chain_ancestors: "chain (r, []) (ancestors (r, cs) @ [(r, cs)])"
proof (induction cs rule: rev_induct)
  case (snoc c cs)
  have "ancestors (r, cs @ [c]) @ [(r, cs @ [c])] = (ancestors (r, cs) @ [(r, cs)]) @ [(r, cs @ [c])]" by simp
  then show ?case using snoc by (simp only: chain_snoc) simp
qed (simp add: parent_loc_def)

lemma mkdirs_wf:
  "fs_wf fs \<Longrightarrow> is_dir fs p \<Longrightarrow> chain p ls \<Longrightarrow> mkdirs fs ls = (fs', err) \<Longrightarrow> fs_wf fs'"
proof (induction fs ls arbitrary: p fs' err rule: mkdirs.induct)
  case (2 fs l ls)
  show ?case
  proof (cases "is_dir fs l")
    case True
    then show ?thesis using "2.IH"(1)[of l fs' err] "2.prems" by simp
  next
    case False
    have "is_dir (fs\<lparr>fs_dirs := fs_dirs fs @ [l]\<rparr>) l" by (simp add: is_dir_def)
    then show ?thesis using False "2.IH"(2)[of l fs' err] "2.prems" fs_wf_mkdir[of fs l]
      by (auto split: if_splits option.splits)
  qed
qed auto

lemma os_MkdirAll_wf: "fs_wf fs \<Longrightarrow> os_MkdirAll fs p = (fs', err) \<Longrightarrow> fs_wf fs'"
  using mkdirs_wf[OF _ _ chain_ancestors, of fs "fst (loc_of p)" "snd (loc_of p)" fs' err]
  by (auto simp: os_MkdirAll_def is_dir_def split: if_splits)

lemma os_MkdirAll_dir: "os_MkdirAll fs p = (fs', None) \<Longrightarrow> is_dir fs' (loc_of p)"
  using mkdirs_dirs[of fs "ancestors (loc_of p) @ [loc_of p]" fs' "loc_of p"]
  by (auto simp: os_MkdirAll_def split: if_splits)

lemma os_MkdirAll_new:
  "os_MkdirAll fs p = (fs', err) \<Longrightarrow> set (fs_dirs fs') \<subseteq> set (fs_dirs fs) \<union> set (ancestors (loc_of p)) \<union> {loc_of p}"
  using mkdirs_new[of fs "ancestors (loc_of p) @ [loc_of p]" fs' err] by (auto simp: os_MkdirAll_def split: if_splits)

lemma os_MkdirAll_frame:
  "os_MkdirAll fs p = (fs', err) \<Longrightarrow>
     fs_files fs' = fs_files fs \<and> fs_denied fs' = fs_denied fs \<and> set (fs_dirs fs) \<subseteq> set (fs_dirs fs')"
  using mkdirs_frame[of fs "ancestors (loc_of p) @ [loc_of p]" fs' err]
  by (auto simp: os_MkdirAll_def split: if_splits)

end
