(* ===== verification/Util_Config.thy ===== *)
theory Util_Config
  imports Go_Os
begin

text \<open>
  util/config.go: the tree of configuration folders, and the files below them, over the file system
  of Go\_Os. The TOML package is third-party: its encoder and decoder, and the \<open>Toml\<close> and
  \<open>FromToml\<close> methods of the values, are the record \<open>toml_ops\<close>. A panic is \<open>None\<close>.
\<close>

section \<open>The tree\<close>

datatype Config = Config (parent: "Config option") (dir: string)

definition DefaultConfigPath :: "string \<Rightarrow> string \<Rightarrow> string" where
  "DefaultConfigPath defaultHome app = Join defaultHome (''.'' @ app)"

text \<open>\<open>init\<close> sets \<open>defaultHome\<close> from \<open>user.Current\<close>, an argument, and panics when that fails.\<close>

definition config_init :: "string + string \<Rightarrow> string option" where
  "config_init current = (case current of Inl e \<Rightarrow> None | Inr homeDir \<Rightarrow> Some homeDir)"

definition NewConfigWithPath :: "string \<Rightarrow> Config" where
  "NewConfigWithPath path = Config None path"

definition NewConfig :: "string \<Rightarrow> string \<Rightarrow> Config" where
  "NewConfig defaultHome app = NewConfigWithPath (DefaultConfigPath defaultHome app)"

definition Path :: "Config \<Rightarrow> string" where
  "Path c = dir c"

definition Dir :: "Config \<Rightarrow> string \<Rightarrow> Config" where
  "Dir c folder = Config (Some c) (Join (dir c) folder)"

fun root :: "Config \<Rightarrow> Config" where
  "root (Config None d) = Config None d"
| "root (Config (Some p) d) = root p"

definition RelPath :: "Config \<Rightarrow> string \<Rightarrow> string option" where
  "RelPath c fname = Rel (dir (root c)) (Join (dir c) fname)"

section \<open>Files\<close>

text \<open>A value is a \<open>Tomler\<close>, or one the encoder takes as it is.\<close>

datatype ('t, 'a) item = Tomler 't | Plain 'a

record ('t, 'a, 'e) toml_ops =
  Toml :: "'t \<Rightarrow> 'a"
  FromToml :: "'t \<Rightarrow> bytes \<Rightarrow> 't \<times> 'e option"
  toml_Encode :: "'a \<Rightarrow> bytes \<times> 'e option"
  toml_Decode :: "'a \<Rightarrow> bytes \<Rightarrow> 'a \<times> 'e option"

datatype 'e cfg_error = Fs fs_error | Codec 'e | No_file string

definition exists_path :: "fs \<Rightarrow> string \<Rightarrow> bool \<times> fs_error option" where
  "exists_path fs path =
     (case os_Stat fs path of
        None \<Rightarrow> (True, None)
      | Some Not_exist \<Rightarrow> (False, None)
      | Some e \<Rightarrow> (True, Some e))"

definition createFolderIfNotExists :: "fs \<Rightarrow> Config \<Rightarrow> fs option" where
  "createFolderIfNotExists fs c =
     (case exists_path fs (dir c) of (ex, err) \<Rightarrow>
        if ex \<or> err \<noteq> None then Some fs
        else (case os_MkdirAll fs (dir c) of (fs', None) \<Rightarrow> Some fs' | (_, Some e) \<Rightarrow> None))"

text \<open>What the panic of \<open>createFolderIfNotExists\<close> leaves: the directories made before the error.\<close>

definition panic_fs :: "fs \<Rightarrow> Config \<Rightarrow> fs" where
  "panic_fs fs c = fst (os_MkdirAll fs (dir c))"

definition toTomlize :: "('t, 'a, 'e) toml_ops \<Rightarrow> ('t, 'a) item \<Rightarrow> 'a" where
  "toTomlize ops i = (case i of Tomler t \<Rightarrow> Toml ops t | Plain a \<Rightarrow> a)"

text \<open>\<open>Write\<close>: the file is truncated before the value is encoded, and holds what the encoder wrote.\<close>

definition Write :: "('t, 'a, 'e) toml_ops \<Rightarrow> fs \<Rightarrow> Config \<Rightarrow> string \<Rightarrow> ('t, 'a) item \<Rightarrow> (fs \<times> 'e cfg_error option) option" where
  "Write ops fs c fname i =
     (case createFolderIfNotExists fs c of
        None \<Rightarrow> None
      | Some fs1 \<Rightarrow>
          let l = loc_of (Join (dir c) fname)
          in case os_OpenTrunc fs1 l of
               Inl e \<Rightarrow> Some (fs1, Some (Fs e))
             | Inr fs2 \<Rightarrow>
                 (case toml_Encode ops (toTomlize ops i) of (out, err) \<Rightarrow>
                    Some (os_write fs2 l out, map_option Codec err)))"

definition Read :: "('t, 'a, 'e) toml_ops \<Rightarrow> fs \<Rightarrow> Config \<Rightarrow> string \<Rightarrow> ('t, 'a) item \<Rightarrow>
    (fs \<times> ('t, 'a) item \<times> 'e cfg_error option) option" where
  "Read ops fs c fname i =
     (case createFolderIfNotExists fs c of
        None \<Rightarrow> None
      | Some fs1 \<Rightarrow>
          let path = Join (dir c) fname
          in case exists_path fs1 path of (ex, err) \<Rightarrow>
               if \<not> ex \<or> err \<noteq> None then Some (fs1, i, Some (No_file fname))
               else case ioutil_ReadFile fs1 (loc_of path) of
                      Inl e \<Rightarrow> Some (fs1, i, Some (Fs e))
                    | Inr buff \<Rightarrow>
                        (case i of
                           Tomler t \<Rightarrow> (case FromToml ops t buff of (t', err) \<Rightarrow> Some (fs1, Tomler t', map_option Codec err))
                         | Plain a \<Rightarrow> (case toml_Decode ops a buff of (a', err) \<Rightarrow> Some (fs1, Plain a', map_option Codec err))))"

definition ListDir :: "fs \<Rightarrow> Config \<Rightarrow> fs_error + string list" where
  "ListDir fs c = ioutil_ReadDir_dirs fs (loc_of (dir c))"

section \<open>Properties\<close>

text \<open>The folder exists after \<open>createFolderIfNotExists\<close>, or the way to it is barred.\<close>

lemma createFolder_frame:
  assumes "createFolderIfNotExists fs c = Some fs1"
  shows "fs_files fs1 = fs_files fs \<and> fs_denied fs1 = fs_denied fs \<and> set (fs_dirs fs) \<subseteq> set (fs_dirs fs1)"
  using assms os_MkdirAll_frame[of fs "dir c"]
  by (auto simp: createFolderIfNotExists_def split: prod.splits if_splits option.splits)

lemma createFolder_wf: "fs_wf fs \<Longrightarrow> createFolderIfNotExists fs c = Some fs1 \<Longrightarrow> fs_wf fs1"
  by (auto simp: createFolderIfNotExists_def intro: os_MkdirAll_wf split: prod.splits if_splits option.splits)

lemma createFolder_noop: "is_dir fs (loc_of (dir c)) \<Longrightarrow> dir c \<noteq> [] \<Longrightarrow> createFolderIfNotExists fs c = Some fs"
  by (auto simp: createFolderIfNotExists_def exists_path_def os_Stat_def split: option.splits fs_error.splits)

lemma OpenTrunc_Inr:
  "os_OpenTrunc fs l = Inr fs' \<longleftrightarrow>
     walk_error fs l = None \<and> \<not> is_dir fs l \<and> is_dir fs (parent_loc l) \<and> l \<notin> set (fs_denied fs) \<and>
     fs' = fs\<lparr>fs_files := AList.update l [] (fs_files fs)\<rparr>"
  by (auto simp: os_OpenTrunc_def split: option.splits if_splits)

text \<open>\<open>Write\<close> once the folder is there.\<close>

lemma Write_eq:
  assumes "createFolderIfNotExists fs c = Some fs1" and "l = loc_of (Join (dir c) fname)"
  shows "Write ops fs c fname i =
    (case os_OpenTrunc fs1 l of
       Inl e \<Rightarrow> Some (fs1, Some (Fs e))
     | Inr _ \<Rightarrow> Some (os_write fs1 l (fst (toml_Encode ops (toTomlize ops i))),
                    map_option Codec (snd (toml_Encode ops (toTomlize ops i)))))"
proof (cases "os_OpenTrunc fs1 l")
  case (Inl e)
  then show ?thesis using assms by (simp add: Write_def Let_def)
next
  case (Inr fs2)
  then have "os_write fs2 l b = os_write fs1 l b" for b by (simp add: OpenTrunc_Inr os_write_def update_twice)
  then show ?thesis using assms Inr by (simp add: Write_def Let_def split: prod.splits)
qed

lemma Write_wf:
  assumes "fs_wf fs" and "Write ops fs c fname i = Some (fs', err)"
  shows "fs_wf fs'"
proof (cases "createFolderIfNotExists fs c")
  case None
  then show ?thesis using assms(2) by (simp add: Write_def)
next
  case (Some fs1)
  let ?l = "loc_of (Join (dir c) fname)"
  have wf: "fs_wf fs1" by (rule createFolder_wf[OF assms(1) Some])
  have "fs_wf (os_write fs1 ?l out)" if "os_OpenTrunc fs1 ?l = Inr fs2" for fs2 out
    using that fs_wf_write[OF wf, of ?l out] by (simp add: OpenTrunc_Inr os_write_def)
  then show ?thesis using assms(2) wf by (auto simp: Write_eq[OF Some refl] split: sum.splits)
qed

lemma Read_wf: "fs_wf fs \<Longrightarrow> Read ops fs c fname i = Some (fs', i', err) \<Longrightarrow> fs_wf fs'"
  by (auto simp: Read_def Let_def split: option.splits prod.splits sum.splits item.splits if_splits dest: createFolder_wf)

text \<open>The directories \<open>Write\<close> makes lead to its folder.\<close>

lemma Write_dirs:
  assumes "Write ops fs c fname i = Some (fs', err)"
  shows "set (fs_dirs fs') \<subseteq> set (fs_dirs fs) \<union> set (ancestors (loc_of (dir c))) \<union> {loc_of (dir c)}"
proof (cases "createFolderIfNotExists fs c")
  case None
  then show ?thesis using assms by (simp add: Write_def)
next
  case (Some fs1)
  then have "set (fs_dirs fs1) \<subseteq> set (fs_dirs fs) \<union> set (ancestors (loc_of (dir c))) \<union> {loc_of (dir c)}"
    using os_MkdirAll_new[of fs "dir c"]
    by (auto simp: createFolderIfNotExists_def split: prod.splits if_splits option.splits)
  moreover have "fs_dirs fs' = fs_dirs fs1"
    using assms by (auto simp: Write_eq[OF Some refl] os_write_def split: sum.splits)
  ultimately show ?thesis by simp
qed

text \<open>A file system with one folder, and TOML that encodes a string as its bytes.\<close>

definition demo_fs :: fs where
  "demo_fs = \<lparr>fs_files = [], fs_dirs = [(True, [''home''])], fs_denied = []\<rparr>"

definition demo_toml :: "(string, string, string) toml_ops" where
  "demo_toml = \<lparr>Toml = id, FromToml = (\<lambda>t b. (bytes_string b, None)),
     toml_Encode = (\<lambda>s. if s = [] then ([], Some ''nothing to encode'') else (string_bytes s, None)),
     toml_Decode = (\<lambda>t b. (bytes_string b, None))\<rparr>"

lemma demo_fs_wf: "fs_wf demo_fs"
  by (simp add: fs_wf_def demo_fs_def wf_map_def is_dir_def parent_loc_def)

definition demo_config :: Config where "demo_config = NewConfigWithPath ''/home/app''"

definition demo_written :: fs where
  "demo_written = \<lparr>fs_files = [((True, [''home'', ''app'', ''key'']), string_bytes ''secret'')],
     fs_dirs = [(True, [''home'']), (True, [''home'', ''app''])], fs_denied = []\<rparr>"

lemma demo_Write: "Write demo_toml demo_fs demo_config ''key'' (Tomler ''secret'') = Some (demo_written, None)"
  by code_simp

lemma Write_frame:
  "Write ops fs c fname i = Some (fs', err) \<Longrightarrow>
     set (fs_dirs fs) \<subseteq> set (fs_dirs fs') \<and> fs_denied fs' = fs_denied fs \<and>
     (if err = None
      then map_of (fs_files fs') (loc_of (Join (dir c) fname)) = Some (fst (toml_Encode ops (toTomlize ops i))) else True) \<and>
     (l \<noteq> loc_of (Join (dir c) fname) \<longrightarrow> map_of (fs_files fs') l = map_of (fs_files fs) l)"
proof (cases "createFolderIfNotExists fs c")
  case (Some fs1)
  assume "Write ops fs c fname i = Some (fs', err)"
  then show ?thesis using createFolder_frame[OF Some]
    by (cases "os_OpenTrunc fs1 (loc_of (Join (dir c) fname))")
      (auto simp: Write_eq[OF Some refl] os_write_def lookup_update)
qed (simp add: Write_def)

lemma panic_fs_files: "fs_files (panic_fs fs c) = fs_files fs"
  using os_MkdirAll_frame[of fs "dir c"] by (cases "os_MkdirAll fs (dir c)") (simp add: panic_fs_def)

lemma Write_other:
  "Write ops fs c fname i = Some (fs', err) \<Longrightarrow> l \<noteq> loc_of (Join (dir c) fname) \<Longrightarrow>
     map_of (fs_files fs') l = map_of (fs_files fs) l"
  using Write_frame[of ops fs c fname i fs' err l] by blast

text \<open>
  Writing is confined: whatever happens in \<open>Write\<close>, every other file keeps its contents, no
  directory goes away, and permissions stay; without an error the file holds exactly what the
  encoder produced.
\<close>

theorem config_write_frame:
  "case Write ops fs c fname i of
     None \<Rightarrow> True
   | Some (fs', err) \<Rightarrow>
       set (fs_dirs fs) \<subseteq> set (fs_dirs fs') \<and> fs_denied fs' = fs_denied fs \<and>
       (\<nexists>l. l \<noteq> loc_of (Join (dir c) fname) \<and> map_of (fs_files fs') l \<noteq> map_of (fs_files fs) l) \<and>
       (if err = None
        then map_of (fs_files fs') (loc_of (Join (dir c) fname)) = Some (fst (toml_Encode ops (toTomlize ops i))) else True)"
  using Write_frame[of ops fs c fname i] by (auto split: option.splits)

text \<open>A file that \<open>Read\<close> finds, with its contents.\<close>

definition readable :: "fs \<Rightarrow> Config \<Rightarrow> string \<Rightarrow> bytes \<Rightarrow> bool" where
  "readable fs c fname out =
     (plain fname \<and> dir c \<noteq> [] \<and> is_dir fs (loc_of (dir c)) \<and>
      (let l = loc_of (Join (dir c) fname)
       in walk_error fs l = None \<and> \<not> is_dir fs l \<and> l \<notin> set (fs_denied fs) \<and> map_of (fs_files fs) l = Some out))"

lemma Join_plain_not_Nil: "plain n \<Longrightarrow> Join a n \<noteq> []"
  by (metis Join_elems append_is_Nil_conv clean_elems.simps(1) elems_Nil list.discI normal_elems_def rev.simps(1))

lemma Read_readable:
  assumes "readable fs c fname out"
  shows "Read ops fs c fname (Tomler t) =
    (case FromToml ops t out of (t', err) \<Rightarrow> Some (fs, Tomler t', map_option Codec err))"
proof -
  let ?p = "Join (dir c) fname"
  have r: "?p \<noteq> []" "dir c \<noteq> []" "is_dir fs (loc_of (dir c))" "walk_error fs (loc_of ?p) = None"
    "\<not> is_dir fs (loc_of ?p)" "loc_of ?p \<notin> set (fs_denied fs)" "map_of (fs_files fs) (loc_of ?p) = Some out"
    using assms Join_plain_not_Nil by (simp_all add: readable_def Let_def del: loc_Join)
  then have "exists_path fs ?p = (True, None)" "ioutil_ReadFile fs (loc_of ?p) = Inr out"
    by (simp_all add: exists_path_def os_Stat_def is_file_def ioutil_ReadFile_def)
  then show ?thesis using createFolder_noop[OF r(3,2)] by (simp add: Read_def)
qed

text \<open>What an error-free \<open>Write\<close> leaves, and what it leaves of another file of the same folder.\<close>

lemma Write_ok:
  assumes "Write ops fs c fname i = Some (fs', None)"
  obtains fs1 where "createFolderIfNotExists fs c = Some fs1" "walk_error fs1 (loc_of (Join (dir c) fname)) = None"
    "\<not> is_dir fs1 (loc_of (Join (dir c) fname))" "is_dir fs1 (parent_loc (loc_of (Join (dir c) fname)))"
    "loc_of (Join (dir c) fname) \<notin> set (fs_denied fs1)"
    "fs' = os_write fs1 (loc_of (Join (dir c) fname)) (fst (toml_Encode ops (toTomlize ops i)))"
proof -
  let ?l = "loc_of (Join (dir c) fname)"
  obtain fs1 where fs1: "createFolderIfNotExists fs c = Some fs1"
    using assms by (cases "createFolderIfNotExists fs c") (simp_all add: Write_def)
  moreover obtain fs2 where "os_OpenTrunc fs1 ?l = Inr fs2"
    and "fs' = os_write fs1 ?l (fst (toml_Encode ops (toTomlize ops i)))"
    using assms by (cases "os_OpenTrunc fs1 ?l") (simp_all add: Write_eq[OF fs1 refl])
  ultimately show ?thesis using that by (simp add: OpenTrunc_Inr del: loc_Join)
qed

lemma walk_error_write:
  assumes "walk_error fs l = None" and "l' \<notin> set (ancestors l)"
  shows "walk_error (os_write fs l' b) l = None"
  using assms by (auto simp: walk_error_None list_all_iff os_write_def is_file_update)

lemma Write_readable:
  assumes "Write ops fs c fname i = Some (fs', None)" and "plain fname" and "dir c \<noteq> []"
  shows "readable fs' c fname (fst (toml_Encode ops (toTomlize ops i)))"
proof (rule Write_ok[OF assms(1)])
  fix fs1
  let ?l = "loc_of (Join (dir c) fname)"
  assume fs1: "walk_error fs1 ?l = None" "\<not> is_dir fs1 ?l" "is_dir fs1 (parent_loc ?l)" "?l \<notin> set (fs_denied fs1)"
    and fs': "fs' = os_write fs1 ?l (fst (toml_Encode ops (toTomlize ops i)))"
  then have "is_dir fs1 (loc_of (dir c))" using assms(2) by simp
  moreover have "walk_error fs' ?l = None" unfolding fs' by (rule walk_error_write[OF fs1(1) not_own_ancestor])
  ultimately show ?thesis using fs1 assms(2,3)
    by (simp add: readable_def Let_def fs' os_write_def lookup_update del: loc_Join)
qed

lemma Write_keeps_readable:
  assumes "readable fs c f out" and "Write ops fs c g i = Some (fs', None)" and "plain g" and "g \<noteq> f"
  shows "readable fs' c f out"
proof (rule Write_ok[OF assms(2)])
  fix fs1
  let ?f = "loc_of (Join (dir c) f)" and ?g = "loc_of (Join (dir c) g)"
  assume "createFolderIfNotExists fs c = Some fs1" and fs': "fs' = os_write fs1 ?g (fst (toml_Encode ops (toTomlize ops i)))"
  then have fs1: "fs1 = fs" using assms(1) createFolder_noop[of fs c] by (simp add: readable_def)
  have f: "?f = (fst (loc_of (dir c)), snd (loc_of (dir c)) @ [f])" and g: "?g = (fst (loc_of (dir c)), snd (loc_of (dir c)) @ [g])"
    using assms(1,3) by (simp_all add: readable_def)
  have "?g \<notin> set (ancestors ?f)" using ancestors_shorter[of ?g ?f] unfolding f g by auto
  moreover have "?f \<noteq> ?g" using assms(4) unfolding f g by simp
  ultimately show ?thesis using assms(1) walk_error_write[of fs ?f ?g]
    by (simp add: readable_def Let_def fs' fs1 os_write_def lookup_update del: loc_Join)
qed

text \<open>
  C21. Round trip: a value written without an error to a plain file name is what \<open>Read\<close> gives back,
  without an error and without changing anything, for every value whose \<open>FromToml\<close> undoes its
  encoding.
\<close>

theorem config_read_back:
  assumes "Write ops fs c fname (Tomler t) = Some (fs', None)" and "plain fname" and "dir c \<noteq> []"
    and "FromToml ops t0 (fst (toml_Encode ops (Toml ops t))) = (t, None)"
  shows "Read ops fs' c fname (Tomler t0) = Some (fs', Tomler t, None)"
  using Read_readable[OF Write_readable[OF assms(1-3)], of ops t0] assms(4) by (simp add: toTomlize_def)

theorem config_read_back_witness:
  "Read demo_toml demo_written demo_config ''key'' (Tomler []) = Some (demo_written, Tomler ''secret'', None)"
proof -
  have "plain ''key''" "dir demo_config \<noteq> []" by code_simp+
  moreover have "FromToml demo_toml [] (fst (toml_Encode demo_toml (Toml demo_toml ''secret''))) = (''secret'', None)"
    by (simp add: demo_toml_def)
  ultimately show ?thesis using config_read_back[OF demo_Write] by blast
qed

text \<open>
  \<open>Write\<close> is not atomic: when the encoder fails, the file that was there is lost, and what is
  left is what the encoder wrote until then.
\<close>

theorem config_failed_write_truncates:
  assumes "createFolderIfNotExists fs c = Some fs1" and "os_OpenTrunc fs1 (loc_of (Join (dir c) fname)) = Inr fs2"
    and "toml_Encode ops (toTomlize ops i) = (out, Some e)"
  shows "\<exists>fs'. Write ops fs c fname i = Some (fs', Some (Codec e)) \<and>
    map_of (fs_files fs') (loc_of (Join (dir c) fname)) = Some out"
  using assms by (simp add: Write_eq[OF assms(1) refl] os_write_def lookup_update)

theorem config_failed_write_truncates_witness:
  "map_of (fs_files demo_written) (loc_of ''/home/app/key'') = Some (string_bytes ''secret'') \<and>
   (\<exists>fs'. Write demo_toml demo_written demo_config ''key'' (Tomler []) = Some (fs', Some (Codec ''nothing to encode'')) \<and>
      map_of (fs_files fs') (loc_of ''/home/app/key'') = Some [])"
proof -
  have "createFolderIfNotExists demo_written demo_config = Some demo_written"
    "os_OpenTrunc demo_written (loc_of (Join (dir demo_config) ''key'')) =
       Inr (demo_written\<lparr>fs_files := [((True, [''home'', ''app'', ''key'']), [])]\<rparr>)"
    "toml_Encode demo_toml (toTomlize demo_toml (Tomler [])) = ([], Some ''nothing to encode'')"
    "Join (dir demo_config) ''key'' = ''/home/app/key''"
    "map_of (fs_files demo_written) (loc_of ''/home/app/key'') = Some (string_bytes ''secret'')"
    by code_simp+
  then show ?thesis
    using config_failed_write_truncates[of demo_written demo_config demo_written "''key''" _ demo_toml "Tomler []" "[]"]
    by simp
qed

lemma root_Dirs: "root (foldl Dir (NewConfigWithPath p) folders) = NewConfigWithPath p"
  by (induction folders rule: rev_induct) (simp_all add: NewConfigWithPath_def Dir_def)

lemma loc_Dirs:
  "list_all plain folders \<Longrightarrow>
     loc_of (dir (foldl Dir (NewConfigWithPath p) folders)) = (rooted p, normal_elems p @ folders)"
  by (induction folders rule: rev_induct) (simp_all add: NewConfigWithPath_def Dir_def loc_of_def)

text \<open>
  The path of a file relative to the root of its configuration is the names of the folders that
  lead to it and its own, for plain names; \<open>RelPath\<close> does not panic on them, whatever the root.
\<close>

theorem RelPath_below_root:
  assumes "list_all plain folders" and "plain fname"
  shows "RelPath (foldl Dir (NewConfigWithPath p) folders) fname = Some (strings_join [slash] (folders @ [fname]))"
  using Rel_below[of "Join (dir (foldl Dir (NewConfigWithPath p) folders)) fname" p "folders @ [fname]"]
    loc_Dirs[OF assms(1), of p] assms(2)
  by (simp add: RelPath_def root_Dirs loc_of_def) (simp add: NewConfigWithPath_def)

theorem RelPath_below_root_witness:
  "RelPath (Dir (Dir (NewConfigWithPath ''~/.mulsigo/'') ''identity'') ''alice'') ''secret.toml'' =
     Some ''identity/alice/secret.toml''"
proof -
  have "list_all plain [''identity'', ''alice'']" "plain ''secret.toml''" by code_simp+
  then show ?thesis using RelPath_below_root[of "[''identity'', ''alice'']" "''secret.toml''" "''~/.mulsigo/''"] by simp
qed

end
