(* ===== verification/Util_Names.thy ===== *)
theory Util_Names
  imports Go_Prelude
begin

text \<open>
  util/names-generator.go: the two tables of words and \<open>GetRandomName\<close>. \<open>intn k n\<close> is the result
  of the \<open>k\<close>-th call of \<open>rand.Intn\<close>, with argument \<open>n\<close>. The loop of \<open>goto begin\<close> need not end, so
  its value is an option.
\<close>

section \<open>The tables\<close>

definition left :: "string list" where
  "left = [
    ''admiring'', ''adoring'', ''affectionate'', ''agitated'', ''amazing'', ''angry'', ''awesome'',
    ''blissful'', ''boring'', ''brave'', ''clever'', ''cocky'', ''compassionate'', ''competent'',
    ''condescending'', ''confident'', ''cranky'', ''dazzling'', ''determined'', ''distracted'', ''dreamy'',
    ''eager'', ''ecstatic'', ''elastic'', ''elated'', ''elegant'', ''eloquent'', ''epic'', ''fervent'',
    ''festive'', ''flamboyant'', ''focused'', ''friendly'', ''frosty'', ''gallant'', ''gifted'', ''goofy'',
    ''gracious'', ''happy'', ''hardcore'', ''heuristic'', ''hopeful'', ''hungry'', ''infallible'',
    ''inspiring'', ''jolly'', ''jovial'', ''keen'', ''kind'', ''laughing'', ''loving'', ''lucid'',
    ''mystifying'', ''modest'', ''musing'', ''naughty'', ''nervous'', ''nifty'', ''nostalgic'',
    ''objective'', ''optimistic'', ''peaceful'', ''pedantic'', ''pensive'', ''practical'', ''priceless'',
    ''quirky'', ''quizzical'', ''relaxed'', ''reverent'', ''romantic'', ''sad'', ''serene'', ''sharp'',
    ''silly'', ''sleepy'', ''stoic'', ''stupefied'', ''suspicious'', ''tender'', ''thirsty'', ''trusting'',
    ''unruffled'', ''upbeat'', ''vibrant'', ''vigilant'', ''vigorous'', ''wizardly'', ''wonderful'',
    ''xenodochial'', ''youthful'', ''zealous'', ''zen'']"

definition right :: "string list" where
  "right = [
    ''albattani'', ''allen'', ''almeida'', ''agnesi'', ''archimedes'', ''ardinghelli'', ''aryabhata'',
    ''austin'', ''babbage'', ''banach'', ''bardeen'', ''bartik'', ''bassi'', ''beaver'', ''bell'',
    ''benz'', ''bhabha'', ''bhaskara'', ''blackwell'', ''bohr'', ''booth'', ''borg'', ''bose'', ''boyd'',
    ''brahmagupta'', ''brattain'', ''brown'', ''carson'', ''chandrasekhar'', ''shannon'', ''clarke'',
    ''colden'', ''cori'', ''cray'', ''curran'', ''curie'', ''darwin'', ''davinci'', ''dijkstra'',
    ''dubinsky'', ''easley'', ''edison'', ''einstein'', ''elion'', ''engelbart'', ''euclid'', ''euler'',
    ''fermat'', ''fermi'', ''feynman'', ''franklin'', ''galileo'', ''gates'', ''goldberg'', ''goldstine'',
    ''goldwasser'', ''golick'', ''goodall'', ''haibt'', ''hamilton'', ''hawking'', ''heisenberg'',
    ''hermann'', ''heyrovsky'', ''hodgkin'', ''hoover'', ''hopper'', ''hugle'', ''hypatia'', ''jackson'',
    ''jang'', ''jennings'', ''jepsen'', ''johnson'', ''joliot'', ''jones'', ''kalam'', ''kare'',
    ''keller'', ''kepler'', ''khorana'', ''kilby'', ''kirch'', ''knuth'', ''kowalevski'', ''lalande'',
    ''lamarr'', ''lamport'', ''leakey'', ''leavitt'', ''lewin'', ''lichterman'', ''liskov'', ''lovelace'',
    ''lumiere'', ''mahavira'', ''mayer'', ''mccarthy'', ''mcclintock'', ''mclean'', ''mcnulty'',
    ''meitner'', ''meninsky'', ''mestorf'', ''minsky'', ''mirzakhani'', ''morse'', ''murdock'',
    ''neumann'', ''newton'', ''nightingale'', ''nobel'', ''noether'', ''northcutt'', ''noyce'', ''panini'',
    ''pare'', ''pasteur'', ''payne'', ''perlman'', ''pike'', ''poincare'', ''poitras'', ''ptolemy'',
    ''raman'', ''ramanujan'', ''ride'', ''montalcini'', ''ritchie'', ''roentgen'', ''rosalind'', ''saha'',
    ''sammet'', ''shaw'', ''shirley'', ''shockley'', ''sinoussi'', ''snyder'', ''spence'', ''stallman'',
    ''stonebraker'', ''swanson'', ''swartz'', ''swirles'', ''tesla'', ''thompson'', ''torvalds'',
    ''turing'', ''varahamihira'', ''visvesvaraya'', ''volhard'', ''wescoff'', ''wiles'', ''williams'',
    ''wilson'', ''wing'', ''wozniak'', ''wright'', ''yalow'', ''yonath'']"

section \<open>GetRandomName\<close>

definition boring_wozniak :: string where "boring_wozniak = ''boring_wozniak''"

partial_function (option) begin_loop :: "(nat \<Rightarrow> nat \<Rightarrow> nat) \<Rightarrow> nat \<Rightarrow> (string \<times> nat) option" where
  "begin_loop intn k =
     (let name = left ! intn k (length left) @ ''_'' @ right ! intn (k + 1) (length right)
      in if name = boring_wozniak then begin_loop intn (k + 2) else Some (name, k + 2))"

definition GetRandomName :: "(nat \<Rightarrow> nat \<Rightarrow> nat) \<Rightarrow> nat \<Rightarrow> int \<Rightarrow> string option" where
  "GetRandomName intn k retry =
     (case begin_loop intn k of
        None \<Rightarrow> None
      | Some (name, k') \<Rightarrow> Some (if 0 < retry then name @ [char_of (48 + intn k' 10)] else name))"

section \<open>Properties\<close>

text \<open>The name of one attempt.\<close>

definition attempt :: "(nat \<Rightarrow> nat \<Rightarrow> nat) \<Rightarrow> nat \<Rightarrow> string" where
  "attempt intn k = left ! intn k (length left) @ ''_'' @ right ! intn (k + 1) (length right)"

lemma begin_loop_first:
  "attempt intn (k + 2 * m) \<noteq> boring_wozniak \<Longrightarrow> (\<forall>j<m. attempt intn (k + 2 * j) = boring_wozniak) \<Longrightarrow>
     begin_loop intn k = Some (attempt intn (k + 2 * m), k + 2 * m + 2)"
proof (induction m arbitrary: k)
  case 0
  then show ?case by (subst begin_loop.simps) (simp add: attempt_def Let_def)
next
  case (Suc m)
  have "attempt intn k = boring_wozniak" using Suc.prems(2) by auto
  moreover have "begin_loop intn (k + 2) = Some (attempt intn (k + 2 + 2 * m), k + 2 + 2 * m + 2)"
  proof (rule Suc.IH)
    show "\<forall>j<m. attempt intn (k + 2 + 2 * j) = boring_wozniak"
    proof (intro allI impI)
      fix j assume "j < m"
      then show "attempt intn (k + 2 + 2 * j) = boring_wozniak" using Suc.prems(2)[rule_format, of "Suc j"] by (simp add: add.assoc)
    qed
  qed (use Suc.prems(1) in \<open>simp add: add.assoc\<close>)
  ultimately show ?case by (subst begin_loop.simps) (simp add: attempt_def Let_def add.assoc)
qed

lemma begin_loop_returns:
  assumes "attempt intn (k + 2 * m) \<noteq> boring_wozniak"
  shows "\<exists>j\<le>m. attempt intn (k + 2 * j) \<noteq> boring_wozniak \<and>
    begin_loop intn k = Some (attempt intn (k + 2 * j), k + 2 * j + 2)"
proof -
  define j where "j = (LEAST j. attempt intn (k + 2 * j) \<noteq> boring_wozniak)"
  have "attempt intn (k + 2 * j) \<noteq> boring_wozniak" unfolding j_def by (rule LeastI[of _ m]) (rule assms)
  moreover have "j \<le> m" unfolding j_def by (rule Least_le) (rule assms)
  moreover have "\<forall>i<j. attempt intn (k + 2 * i) = boring_wozniak" unfolding j_def using not_less_Least by blast
  ultimately show ?thesis using begin_loop_first by blast
qed

text \<open>The words have only small letters.\<close>

definition small_letters :: "string \<Rightarrow> bool" where
  "small_letters w = (w \<noteq> [] \<and> list_all (\<lambda>c. c \<in> set ''abcdefghijklmnopqrstuvwxyz'') w)"

lemma tables: "list_all small_letters left" "list_all small_letters right" "length left = 93" "length right = 160"
  by code_simp+

lemma begin_loop_SomeD:
  assumes "begin_loop intn k = Some res"
  shows "(\<exists>j. fst res = attempt intn j) \<and> fst res \<noteq> boring_wozniak"
proof (rule begin_loop.raw_induct[OF _ assms, where P = "\<lambda>intn k res. (\<exists>j. fst res = attempt intn j) \<and> fst res \<noteq> boring_wozniak"])
  fix f intn k res
  assume "\<And>intn k res. f intn k = Some res \<Longrightarrow> (\<exists>j. fst res = attempt intn j) \<and> fst res \<noteq> boring_wozniak"
    and "(let name = left ! intn k (length left) @ ''_'' @ right ! intn (k + 1) (length right)
      in if name = boring_wozniak then f intn (k + 2) else Some (name, k + 2)) = Some res"
  then show "(\<exists>j. fst res = attempt intn j) \<and> fst res \<noteq> boring_wozniak"
    by (auto simp: Let_def attempt_def intro!: exI[of _ k] split: if_splits)
qed

lemma GetRandomName_parts:
  assumes "\<forall>k n. 0 < n \<longrightarrow> intn k n < n" and "GetRandomName intn k retry = Some name"
  shows "\<exists>l r d. name = l @ ''_'' @ r @ d \<and> l \<in> set left \<and> r \<in> set right \<and> small_letters l \<and> small_letters r \<and>
    l @ ''_'' @ r \<noteq> boring_wozniak \<and> (if 0 < retry then \<exists>n<10. d = [char_of (48 + n :: nat)] else d = [])"
proof -
  obtain res where res: "begin_loop intn k = Some res"
    "name = (if 0 < retry then fst res @ [char_of (48 + intn (snd res) 10)] else fst res)"
    using assms(2) by (auto simp: GetRandomName_def split: option.splits)
  from begin_loop_SomeD[OF this(1)] obtain j where j: "fst res = attempt intn j" "fst res \<noteq> boring_wozniak" by blast
  let ?l = "left ! intn j (length left)" and ?r = "right ! intn (j + 1) (length right)"
  have "?l \<in> set left" "?r \<in> set right" using assms(1) tables(3,4) by simp_all
  moreover from this have "small_letters ?l" "small_letters ?r" using tables(1,2) by (simp_all add: list_all_iff)
  moreover define d where "d = (if 0 < retry then [char_of (48 + intn (snd res) 10)] else [])"
  have "name = ?l @ ''_'' @ ?r @ d" using j res(2) by (simp add: attempt_def d_def)
  moreover have "?l @ ''_'' @ ?r \<noteq> boring_wozniak" using j by (simp add: attempt_def)
  moreover have "if 0 < retry then \<exists>n<10. d = [char_of (48 + n :: nat)] else d = []"
    using assms(1)[rule_format, of 10 "snd res"] unfolding d_def by (cases "0 < retry") auto
  ultimately show ?thesis by blast
qed

text \<open>
  C35. \<open>GetRandomName\<close> returns as soon as one pair of random numbers does not give the excluded name,
  and returns a small-letter word of the first table, an underscore and one of the second, never
  \<open>boring_wozniak\<close>, with a decimal digit (0 to 9) after it when \<open>retry\<close> is positive. The comment of the
  function promises the digit when \<open>retry\<close> is not zero; a negative one adds none.
\<close>

theorem GetRandomName_returns:
  assumes "\<forall>k n. 0 < n \<longrightarrow> intn k n < n" and "attempt intn (k + 2 * m) \<noteq> boring_wozniak"
  shows "\<exists>l r d. GetRandomName intn k retry = Some (l @ ''_'' @ r @ d) \<and> l \<in> set left \<and> r \<in> set right \<and>
    small_letters l \<and> small_letters r \<and> l @ ''_'' @ r \<noteq> boring_wozniak \<and>
    (if 0 < retry then \<exists>n<10. d = [char_of (48 + n :: nat)] else d = [])"
proof -
  obtain name where name: "GetRandomName intn k retry = Some name"
    using begin_loop_returns[OF assms(2)] by (auto simp: GetRandomName_def)
  from GetRandomName_parts[OF assms(1) this] name show ?thesis by auto
qed

theorem GetRandomName_returns_witness:
  "\<exists>l r d. GetRandomName (\<lambda>k n. k mod n) 0 0 = Some (l @ ''_'' @ r @ d) \<and> l \<in> set left \<and> r \<in> set right \<and> d = []"
proof -
  have "attempt (\<lambda>k n. k mod n) (0 + 2 * 0) \<noteq> boring_wozniak" by code_simp
  then show ?thesis using GetRandomName_returns[of "\<lambda>k n. k mod n" 0 0 0] by auto
qed

end
