(* ===== verification/Go_Fmt.thy ===== *)
theory Go_Fmt
  imports Go_Prelude
begin

text \<open>
  The part of package \<open>fmt\<close> the repository uses. An operand of \<open>Sprintf\<close> is the function from a
  verb to its text. Verbs without width, precision and argument index are modelled, and flags in
  front of a verb without an operand; \<open>None\<close> is a format outside this part, or a call with more
  operands than verbs.
\<close>

type_synonym operand = "char \<Rightarrow> string"

definition is_flag :: "char \<Rightarrow> bool" where
  "is_flag c = (c \<in> set ''#0+- '')"

text \<open>Width, precision, argument index, and the bytes of a multi-byte rune.\<close>

definition outside :: "char \<Rightarrow> bool" where
  "outside c = (c \<in> set ''123456789*.['' \<or> 128 \<le> (of_char c :: nat))"

definition missingArg :: "char \<Rightarrow> string" where
  "missingArg verb = ''%!'' @ [verb] @ ''(MISSING)''"

definition noVerbString :: string where "noVerbString = ''%!(NOVERB)''"

text \<open>\<open>doPrintf\<close>; the \<open>bool\<close> says that flags have been read since the last percent sign.\<close>

fun sprintf_verb :: "bool \<Rightarrow> string \<Rightarrow> operand list \<Rightarrow> string option"
  and doPrintf :: "string \<Rightarrow> operand list \<Rightarrow> string option" where
  "doPrintf [] as = (if as = [] then Some [] else None)"
| "doPrintf (c # s) as =
     (if c = CHR ''%'' then sprintf_verb False s as else map_option (Cons c) (doPrintf s as))"
| "sprintf_verb fl [] as = (if as = [] then Some noVerbString else None)"
| "sprintf_verb fl (c # s) as =
     (if is_flag c then sprintf_verb True s as
      else if outside c then None
      else if c = CHR ''%'' then map_option (Cons c) (doPrintf s as)
      else (case as of
              [] \<Rightarrow> map_option (append (missingArg c)) (doPrintf s [])
            | a # as' \<Rightarrow> if fl then None else map_option (append (a c)) (doPrintf s as')))"

definition Sprintf :: "string \<Rightarrow> operand list \<Rightarrow> string option" where
  "Sprintf = doPrintf"

text \<open>\<open>Sprintln\<close>: the texts of the operands with spaces between them, and a line end.\<close>

definition Sprintln :: "string list \<Rightarrow> string" where
  "Sprintln args = strings_join '' '' args @ [CHR 0x0A]"

text \<open>A string operand under the verb \<open>s\<close> or \<open>v\<close>, and any operand given by its text.\<close>

definition Str :: "string \<Rightarrow> operand" where "Str s = (\<lambda>verb. s)"

lemma doPrintf_plain: "CHR ''%'' \<notin> set a \<Longrightarrow> doPrintf (a @ s) as = map_option (append a) (doPrintf s as)"
  by (induction a; cases "doPrintf s as") auto

lemma Sprintf_plain [simp]: "CHR ''%'' \<notin> set s \<Longrightarrow> Sprintf s [] = Some s"
  using doPrintf_plain[of s "[]" "[]"] by (simp add: Sprintf_def)

lemma Sprintf_s: "CHR ''%'' \<notin> set a \<Longrightarrow> Sprintf (a @ ''%s'' @ b) (x # xs) = map_option (\<lambda>t. a @ x CHR ''s'' @ t) (Sprintf b xs)"
  by (simp add: Sprintf_def doPrintf_plain is_flag_def outside_def option.map_comp comp_def)

lemma sprintf_verb_missing:
  "CHR ''%'' \<notin> set s \<Longrightarrow> sprintf_verb fl s [] = Some t \<Longrightarrow> \<exists>u. t = ''%!'' @ u"
  by (induction s arbitrary: fl) (auto simp: noVerbString_def missingArg_def split: if_splits)

lemma sprintf_verb_changes:
  assumes "CHR ''%'' \<notin> set s" and "sprintf_verb False s [] = Some t"
  shows "t \<noteq> CHR ''%'' # s"
proof (cases s)
  case Nil
  then show ?thesis using assms(2) by (auto simp: noVerbString_def)
next
  case (Cons c r)
  show ?thesis
  proof (cases "is_flag c")
    case True
    then show ?thesis using sprintf_verb_missing[OF assms] Cons by (auto simp: is_flag_def)
  next
    case False
    moreover have "doPrintf r [] = Some r" using Sprintf_plain[of r] assms(1) Cons by (simp add: Sprintf_def)
    ultimately have "t = missingArg c @ r" using assms Cons by (auto split: if_splits)
    then have "length t \<noteq> length (CHR ''%'' # s)" using Cons by (simp add: missingArg_def)
    then show ?thesis by blast
  qed
qed

end
