(* ===== verification/Slog.thy ===== *)
theory Slog
  imports Go_Fmt
begin

text \<open>
  slog/log.go: the level filter and the output of the messages. The global variables \<open>Level\<close> and
  \<open>Output\<close> are the state, the output being the text written so far. \<open>os.Exit\<close> is an outcome.
\<close>

section \<open>Levels and prefixes\<close>

type_synonym LogLevel = int

definition levelFatal :: LogLevel where "levelFatal = 0"
definition LevelPrint :: LogLevel where "LevelPrint = 1"
definition LevelInfo :: LogLevel where "LevelInfo = 2"
definition LevelDebug :: LogLevel where "LevelDebug = 3"

lemmas level_defs = levelFatal_def LevelPrint_def LevelInfo_def LevelDebug_def

record slog =
  Level :: LogLevel
  Output :: string

definition slog_init :: slog where
  "slog_init = \<lparr>Level = LevelPrint, Output = []\<rparr>"

definition PrintPrefix :: string where "PrintPrefix = []"
definition InfoPrefix :: string where "InfoPrefix = []"
definition DebugPrefix :: string where "DebugPrefix = []"
definition FatalPrefix :: string where "FatalPrefix = []"

lemmas prefix_defs = PrintPrefix_def InfoPrefix_def DebugPrefix_def FatalPrefix_def

section \<open>Messages\<close>

text \<open>\<open>Unmodelled\<close>: a format outside the modelled part of \<open>fmt\<close>.\<close>

datatype log_result = Logs slog | Exits slog | Wrong_level | Unmodelled

definition level_prefix :: "LogLevel \<Rightarrow> string option" where
  "level_prefix lvl =
     (if lvl = LevelPrint then Some PrintPrefix else if lvl = LevelInfo then Some InfoPrefix
      else if lvl = LevelDebug then Some DebugPrefix else if lvl = levelFatal then Some FatalPrefix else None)"

text \<open>\<open>p\<close>: the finished line is the format of \<open>Fprintf\<close>, which gets no operands.\<close>

definition slog_p :: "LogLevel \<Rightarrow> string list \<Rightarrow> slog \<Rightarrow> log_result" where
  "slog_p lvl args l =
     (if Level l < lvl then Logs l
      else case level_prefix lvl of
             None \<Rightarrow> Wrong_level
           | Some pre \<Rightarrow>
               (case Sprintf (pre @ Sprintln args) [] of
                  None \<Rightarrow> Unmodelled
                | Some txt \<Rightarrow> Logs (l\<lparr>Output := Output l @ txt\<rparr>)))"

text \<open>The functions with a format print it first.\<close>

definition slog_pf :: "LogLevel \<Rightarrow> string \<Rightarrow> operand list \<Rightarrow> slog \<Rightarrow> log_result" where
  "slog_pf lvl str args l = (case Sprintf str args of None \<Rightarrow> Unmodelled | Some txt \<Rightarrow> slog_p lvl [txt] l)"

definition exits :: "log_result \<Rightarrow> log_result" where
  "exits r = (case r of Logs l \<Rightarrow> Exits l | _ \<Rightarrow> r)"

definition ErrFatal :: "string option \<Rightarrow> slog \<Rightarrow> log_result" where
  "ErrFatal err l = (case err of None \<Rightarrow> Logs l | Some e \<Rightarrow> exits (slog_p levelFatal [e] l))"

text \<open>The operands of \<open>ErrFatalf\<close> are not used, and neither is the error.\<close>

definition ErrFatalf :: "string option \<Rightarrow> string \<Rightarrow> operand list \<Rightarrow> slog \<Rightarrow> log_result" where
  "ErrFatalf err str args l = (case err of None \<Rightarrow> Logs l | Some _ \<Rightarrow> exits (slog_pf levelFatal str [] l))"

definition Fatal :: "string list \<Rightarrow> slog \<Rightarrow> log_result" where
  "Fatal args l = exits (slog_p levelFatal args l)"

definition Fatalf :: "string \<Rightarrow> operand list \<Rightarrow> slog \<Rightarrow> log_result" where
  "Fatalf str args l = exits (slog_pf levelFatal str args l)"

definition Print :: "string list \<Rightarrow> slog \<Rightarrow> log_result" where
  "Print args = slog_p LevelPrint args"

definition Printf :: "string \<Rightarrow> operand list \<Rightarrow> slog \<Rightarrow> log_result" where
  "Printf str args = slog_pf LevelPrint str args"

definition Info :: "string list \<Rightarrow> slog \<Rightarrow> log_result" where
  "Info args = slog_p LevelInfo args"

definition Infof :: "string \<Rightarrow> operand list \<Rightarrow> slog \<Rightarrow> log_result" where
  "Infof str args = slog_pf LevelInfo str args"

definition Debug :: "string list \<Rightarrow> slog \<Rightarrow> log_result" where
  "Debug args = slog_p LevelDebug args"

definition Debugf :: "string \<Rightarrow> operand list \<Rightarrow> slog \<Rightarrow> log_result" where
  "Debugf str args = slog_pf LevelDebug str args"

lemmas slog_defs = Print_def Printf_def Info_def Infof_def Debug_def Debugf_def Fatal_def Fatalf_def
  ErrFatal_def ErrFatalf_def

section \<open>Properties\<close>

definition no_percent :: "string list \<Rightarrow> bool" where
  "no_percent args = list_all (\<lambda>a. CHR ''%'' \<notin> set a) args"

lemma Output_inject [simp]: "l\<lparr>Output := a\<rparr> = l\<lparr>Output := b\<rparr> \<longleftrightarrow> a = b" for l :: slog
  by (cases l) simp

lemma percent_join: "CHR ''%'' \<in> set (strings_join '' '' args) \<longleftrightarrow> (\<exists>a \<in> set args. CHR ''%'' \<in> set a)"
  by (induction "'' ''" args rule: strings_join.induct) auto

lemma percent_Sprintln: "CHR ''%'' \<in> set (Sprintln args) \<longleftrightarrow> \<not> no_percent args"
  by (auto simp: Sprintln_def percent_join no_percent_def list_all_iff)

lemma slog_p_plain:
  assumes "no_percent args" and "lvl \<in> {levelFatal, LevelPrint, LevelInfo, LevelDebug}"
  shows "slog_p lvl args l = Logs (if lvl \<le> Level l then l\<lparr>Output := Output l @ Sprintln args\<rparr> else l)"
proof -
  obtain pre where "level_prefix lvl = Some pre" "pre = []"
    using assms(2) by (auto simp: level_prefix_def prefix_defs)
  moreover have "CHR ''%'' \<notin> set (Sprintln args)" using assms(1) by (simp add: percent_Sprintln)
  ultimately show ?thesis by (simp add: slog_p_def)
qed

text \<open>
  The level filter: a message without a percent sign is appended to the output, as its words and
  a line end, exactly when its level is not above \<open>Level\<close>; a fatal one also ends the process. This
  holds for every level the package has.
\<close>

theorem slog_level_filter:
  assumes "no_percent args" and "0 \<le> Level l"
  shows "Print args l = Logs (if LevelPrint \<le> Level l then l\<lparr>Output := Output l @ Sprintln args\<rparr> else l) \<and>
    Info args l = Logs (if LevelInfo \<le> Level l then l\<lparr>Output := Output l @ Sprintln args\<rparr> else l) \<and>
    Debug args l = Logs (if LevelDebug \<le> Level l then l\<lparr>Output := Output l @ Sprintln args\<rparr> else l) \<and>
    Fatal args l = Exits (l\<lparr>Output := Output l @ Sprintln args\<rparr>)"
  using assms by (simp add: slog_defs slog_p_plain exits_def) (simp add: level_defs)

theorem slog_level_filter_witness:
  "Info [''hello''] slog_init = Logs slog_init \<and> Print [''hello''] slog_init = Logs (slog_init\<lparr>Output := Sprintln [''hello'']\<rparr>)"
  using slog_level_filter[of "[''hello'']" slog_init] by (simp add: slog_init_def no_percent_def level_defs)

text \<open>
  The line is used as a format: a message with one percent sign is never written as it is,
  whatever surrounds the sign.
\<close>

theorem slog_percent_garbled:
  assumes "CHR ''%'' \<notin> set a" and "CHR ''%'' \<notin> set b" and "lvl \<le> Level l"
  shows "slog_p lvl [a @ ''%'' @ b] l \<noteq> Logs (l\<lparr>Output := Output l @ Sprintln [a @ ''%'' @ b]\<rparr>)"
proof
  let ?rest = "b @ [CHR 0x0A]"
  assume eq: "slog_p lvl [a @ ''%'' @ b] l = Logs (l\<lparr>Output := Output l @ Sprintln [a @ ''%'' @ b]\<rparr>)"
  have pre: "level_prefix lvl = Some pre \<Longrightarrow> pre = []" for pre
    by (auto simp: level_prefix_def prefix_defs split: if_splits)
  from eq assms(3) have "Sprintf (Sprintln [a @ ''%'' @ b]) [] = Some (Sprintln [a @ ''%'' @ b])"
    by (auto simp: slog_p_def dest: pre split: option.splits)
  then have "sprintf_verb False ?rest [] = Some (CHR ''%'' # ?rest)"
    using assms(1) by (auto simp: Sprintln_def Sprintf_def doPrintf_plain)
  then show False using sprintf_verb_changes[of ?rest] assms(2) by auto
qed

theorem slog_percent_garbled_witness:
  "slog_p LevelPrint [''50% sure''] slog_init = Logs (slog_init\<lparr>Output := ''50%!s(MISSING)ure'' @ [CHR 0x0A]\<rparr>) \<and>
   slog_p LevelPrint [''50% sure''] slog_init \<noteq> Logs (slog_init\<lparr>Output := Sprintln [''50% sure'']\<rparr>)"
  using slog_percent_garbled[of "''50''" "'' sure''" LevelPrint slog_init]
  by (simp add: slog_init_def level_defs) code_simp

end
