(* ===== verification/Cmd.thy ===== *)
theory Cmd
  imports Util_Config Util_Names Slog Client_Keys
begin

text \<open>
  The command line (cmd/*.go): what the commands do once the third-party packages \<open>cobra\<close> and
  \<open>viper\<close> have parsed the flags and the arguments. The state is the log, whose output is the
  standard output as in the program, and the file system. The TOML package, the cryptography and the
  text of an error are arguments.
\<close>

section \<open>Runs of a command\<close>

record world =
  w_log :: slog
  w_fs :: fs

text \<open>
  A run goes on, exits, panics, or comes to a line of the log with a format outside the modelled part of
  \<open>fmt\<close> (\<open>Beyond\<close>); each with the state it leaves.
\<close>

datatype 'a run = Goes world 'a | Exited world | Crashed world | Beyond world

definition bind_run :: "'a run \<Rightarrow> (world \<Rightarrow> 'a \<Rightarrow> 'b run) \<Rightarrow> 'b run" where
  "bind_run r f = (case r of Goes w a \<Rightarrow> f w a | Exited w \<Rightarrow> Exited w | Crashed w \<Rightarrow> Crashed w | Beyond w \<Rightarrow> Beyond w)"

definition log_run :: "(slog \<Rightarrow> log_result) \<Rightarrow> world \<Rightarrow> unit run" where
  "log_run f w =
     (case f (w_log w) of
        Logs l \<Rightarrow> Goes (w\<lparr>w_log := l\<rparr>) ()
      | Exits l \<Rightarrow> Exited (w\<lparr>w_log := l\<rparr>)
      | Wrong_level \<Rightarrow> Crashed w
      | Unmodelled \<Rightarrow> Beyond w)"

text \<open>\<open>fmt.Println\<close>.\<close>

definition println :: "string list \<Rightarrow> world \<Rightarrow> world" where
  "println args w = w\<lparr>w_log := (w_log w)\<lparr>Output := Output (w_log w) @ Sprintln args\<rparr>\<rparr>"

section \<open>root.go\<close>

definition AppName :: string where "AppName = ''mulsigo''"
definition Version :: string where "Version = ''v0.01+alpha''"

definition banner :: "world \<Rightarrow> unit run" where
  "banner = log_run (Info [AppName, Version, ''- by nikkolasg''])"

text \<open>\<open>PersistentPreRun\<close>; its result is \<open>rootConfig\<close>.\<close>

definition preRun :: "bool \<Rightarrow> bool \<Rightarrow> string \<Rightarrow> world \<Rightarrow> Config run" where
  "preRun verbose debug homedir w =
     (let l1 = (if verbose then (w_log w)\<lparr>Level := LevelInfo\<rparr> else w_log w);
          l2 = (if debug then l1\<lparr>Level := LevelDebug\<rparr> else l1);
          rootConfig = NewConfigWithPath homedir
      in bind_run (banner (w\<lparr>w_log := l2\<rparr>)) (\<lambda>w _.
         bind_run (log_run (Info [''configuration folder:'', Path rootConfig]) w) (\<lambda>w _.
         Goes w rootConfig)))"

text \<open>\<open>Execute\<close>, with the error of \<open>RootCmd.Execute\<close>, and \<open>initConfig\<close>, with the file viper read.\<close>

definition Execute :: "string option \<Rightarrow> world \<Rightarrow> unit run" where
  "Execute err w = (case err of None \<Rightarrow> Goes w () | Some e \<Rightarrow> Exited (println [e] w))"

definition initConfig :: "string option \<Rightarrow> world \<Rightarrow> world" where
  "initConfig used w = (case used of None \<Rightarrow> w | Some f \<Rightarrow> println [''Using config file:'', f] w)"

section \<open>Commands that only print\<close>

definition signRun :: "world \<Rightarrow> world" where "signRun = println [''sign called'']"
definition distRun :: "world \<Rightarrow> world" where "distRun = println [''dist called'']"
definition exchangeRun :: "world \<Rightarrow> world" where "exchangeRun = println [''exchange called'']"

section \<open>local.go\<close>

definition SecretFile :: string where "SecretFile = ''secret.toml''"
definition IdentityFile :: string where "IdentityFile = ''public.toml''"
definition IdentityFolder :: string where "IdentityFolder = ''identity''"

text \<open>\<open>process\<close>: the class \<open>[\w-_]\<close> of the regular expression.\<close>

definition name_char :: "char \<Rightarrow> bool" where
  "name_char c =
     (c \<in> set ''0123456789ABCDEFGHIJKLMNOPQRSTUVWXYZabcdefghijklmnopqrstuvwxyz_'' \<or> c = CHR ''-'' \<or> c = CHR ''_'')"

definition strip_spaces :: "string \<Rightarrow> string" where
  "strip_spaces name = filter (\<lambda>c. c \<noteq> CHR '' '') name"

definition invalid_msg :: string where
  "invalid_msg = ''name is invalid. Only A-Za-z09_- is allowed.''"

definition process :: "string \<Rightarrow> world \<Rightarrow> string run" where
  "process name w =
     (let n = strip_spaces name
      in if n \<noteq> [] \<and> list_all name_char n then Goes w n
         else bind_run (log_run (Fatal [invalid_msg]) w) (\<lambda>w _. Goes w n))"

text \<open>The package TOML, as keys use it.\<close>

record toml_pkg =
  pkg_Encode :: "privateToml + identityToml \<Rightarrow> bytes \<times> string option"
  pkg_DecodePrivate :: "bytes \<Rightarrow> string + privateToml"
  pkg_DecodeIdentity :: "bytes \<Rightarrow> string + identityToml"

definition key_FromToml :: "toml_pkg \<Rightarrow> Private + Identity \<Rightarrow> bytes \<Rightarrow> (Private + Identity) \<times> keys_error option" where
  "key_FromToml pkg t b =
     (case t of
        Inl p \<Rightarrow> (case Private_FromToml p (pkg_DecodePrivate pkg b) of Inl e \<Rightarrow> (t, Some e) | Inr p' \<Rightarrow> (Inl p', None))
      | Inr i \<Rightarrow> (case Identity_FromToml i (pkg_DecodeIdentity pkg b) of Inl e \<Rightarrow> (t, Some e) | Inr i' \<Rightarrow> (Inr i', None)))"

definition key_ops :: "toml_pkg \<Rightarrow> (Private + Identity, privateToml + identityToml, keys_error) toml_ops" where
  "key_ops pkg =
     \<lparr>Toml = map_sum Private_Toml Identity_Toml, FromToml = key_FromToml pkg,
      toml_Encode = (\<lambda>a. map_prod id (map_option Err_toml) (pkg_Encode pkg a)),
      toml_Decode = (\<lambda>a b. case a of
          Inl _ \<Rightarrow> (case pkg_DecodePrivate pkg b of Inl e \<Rightarrow> (a, Some (Err_toml e)) | Inr p \<Rightarrow> (Inl p, None))
        | Inr _ \<Rightarrow> (case pkg_DecodeIdentity pkg b of Inl e \<Rightarrow> (a, Some (Err_toml e)) | Inr i \<Rightarrow> (Inr i, None)))\<rparr>"

text \<open>\<open>Write\<close> or \<open>Read\<close> followed by \<open>slog.ErrFatal\<close>.\<close>

definition write_key :: "(keys_error cfg_error \<Rightarrow> string) \<Rightarrow> toml_pkg \<Rightarrow> Config \<Rightarrow> string \<Rightarrow> Private + Identity \<Rightarrow> world \<Rightarrow> unit run" where
  "write_key txt pkg c fname k w =
     (case Write (key_ops pkg) (w_fs w) c fname (Tomler k) of
        None \<Rightarrow> Crashed (w\<lparr>w_fs := panic_fs (w_fs w) c\<rparr>)
      | Some (fs', err) \<Rightarrow> log_run (ErrFatal (map_option txt err)) (w\<lparr>w_fs := fs'\<rparr>))"

definition read_key :: "(keys_error cfg_error \<Rightarrow> string) \<Rightarrow> toml_pkg \<Rightarrow> Config \<Rightarrow> string \<Rightarrow> Private + Identity \<Rightarrow> world \<Rightarrow> (Private + Identity) run" where
  "read_key txt pkg c fname k w =
     (case Read (key_ops pkg) (w_fs w) c fname (Tomler k) of
        None \<Rightarrow> Crashed (w\<lparr>w_fs := panic_fs (w_fs w) c\<rparr>)
      | Some (fs', i, err) \<Rightarrow>
          bind_run (log_run (ErrFatal (map_option txt err)) (w\<lparr>w_fs := fs'\<rparr>))
            (\<lambda>w _. Goes w (case i of Tomler k' \<Rightarrow> k' | Plain _ \<Rightarrow> k)))"

definition info_saved :: "string \<Rightarrow> Config \<Rightarrow> string \<Rightarrow> world \<Rightarrow> unit run" where
  "info_saved fmt c fname w = (case RelPath c fname of None \<Rightarrow> Crashed w | Some p \<Rightarrow> log_run (Infof fmt [Str p]) w)"

text \<open>
  \<open>gen\<close> and \<open>now\<close> are the key pair and the time \<open>NewPrivateIdentity\<close> gets. As written, the call in
  \<open>generateKey\<close> passes no source of randomness and drops the error, and does not compile; the model is the
  call with a source, and a source that fails ends the command before it writes anything.
\<close>

definition generateKey ::
  "(keys_error cfg_error \<Rightarrow> string) \<Rightarrow> toml_pkg \<Rightarrow> (bytes \<Rightarrow> bytes \<Rightarrow> bytes) \<Rightarrow> string + bytes \<times> bytes \<Rightarrow> uint64 \<Rightarrow>
     Config \<Rightarrow> string \<Rightarrow> world \<Rightarrow> unit run" where
  "generateKey txt pkg sign gen now rootConfig name w =
     bind_run (process name w) (\<lambda>w name.
     bind_run (log_run (Debugf ''generateKey: name %s'' [Str name]) w) (\<lambda>w _.
     case NewPrivateIdentity sign gen now name of
       None \<Rightarrow> Crashed w
     | Some (private, identity) \<Rightarrow>
         bind_run (log_run (Info [''generated a new identity with name'', name]) w) (\<lambda>w _.
         let secConfig = Dir (Dir rootConfig IdentityFolder) name
         in bind_run (write_key txt pkg secConfig SecretFile (Inl private) w) (\<lambda>w _.
            bind_run (info_saved ''saved private keys in %s'' secConfig SecretFile w) (\<lambda>w _.
            bind_run (write_key txt pkg secConfig IdentityFile (Inr identity) w) (\<lambda>w _.
            bind_run (info_saved ''saved public identity in %s'' secConfig IdentityFile w) (\<lambda>w _.
            log_run (Printf ''New local identity %s saved at %s. Bye !'' [Str name, Str (Path secConfig)]) w)))))))"

text \<open>\<open>localCmd\<close>: the first argument, or a random name, is the name of the key.\<close>

definition localRun ::
  "(keys_error cfg_error \<Rightarrow> string) \<Rightarrow> toml_pkg \<Rightarrow> (bytes \<Rightarrow> bytes \<Rightarrow> bytes) \<Rightarrow> string + bytes \<times> bytes \<Rightarrow> uint64 \<Rightarrow>
     (nat \<Rightarrow> nat \<Rightarrow> nat) \<Rightarrow> Config \<Rightarrow> string list \<Rightarrow> world \<Rightarrow> unit run option" where
  "localRun txt pkg sign gen now intn rootConfig args w =
     (case args of
        a # _ \<Rightarrow> Some (generateKey txt pkg sign gen now rootConfig a w)
      | [] \<Rightarrow> map_option (\<lambda>name. generateKey txt pkg sign gen now rootConfig name w) (GetRandomName intn 0 0))"

section \<open>list.go\<close>

definition zero_private :: Private where
  "zero_private = \<lparr>pr_seed = [], pr_Public = zero_identity\<rparr>"

text \<open>One round of the loop of \<open>listLocalKeys\<close>.\<close>

definition list_key :: "(keys_error cfg_error \<Rightarrow> string) \<Rightarrow> toml_pkg \<Rightarrow> Config \<Rightarrow> string \<Rightarrow> world \<Rightarrow> unit run" where
  "list_key txt pkg secConfig d w =
     (let c = Dir secConfig d
      in bind_run (read_key txt pkg c SecretFile (Inl zero_private) w) (\<lambda>w _.
         bind_run (read_key txt pkg c IdentityFile (Inr zero_identity) w) (\<lambda>w k.
         case k of Inr i \<Rightarrow> Goes (println [Identity_Repr i @ [CHR 0x0A]] w) () | Inl _ \<Rightarrow> Crashed w)))"

fun list_keys :: "(keys_error cfg_error \<Rightarrow> string) \<Rightarrow> toml_pkg \<Rightarrow> Config \<Rightarrow> string list \<Rightarrow> world \<Rightarrow> unit run" where
  "list_keys txt pkg c [] w = Goes w ()"
| "list_keys txt pkg c (d # ds) w = bind_run (list_key txt pkg c d w) (\<lambda>w _. list_keys txt pkg c ds w)"

definition listLocalKeys :: "(keys_error cfg_error \<Rightarrow> string) \<Rightarrow> toml_pkg \<Rightarrow> Config \<Rightarrow> world \<Rightarrow> unit run" where
  "listLocalKeys txt pkg rootConfig w =
     (let secConfig = Dir rootConfig IdentityFolder
      in bind_run (log_run (Print [''Local identities:'']) w) (\<lambda>w _.
         case ListDir (w_fs w) secConfig of
           Inl e \<Rightarrow> log_run (ErrFatal (Some (txt (Fs e)))) w
         | Inr fis \<Rightarrow>
             if fis = [] then log_run (Print [''no local keys found!'']) w
             else list_keys txt pkg secConfig fis w))"

definition listDistKeys :: "world \<Rightarrow> unit run" where
  "listDistKeys w = Goes w ()"

text \<open>\<open>listCmd\<close>, with its two flags.\<close>

definition listRun :: "(keys_error cfg_error \<Rightarrow> string) \<Rightarrow> toml_pkg \<Rightarrow> Config \<Rightarrow> bool \<Rightarrow> bool \<Rightarrow> world \<Rightarrow> unit run" where
  "listRun txt pkg rootConfig loc dist w =
     bind_run (if loc \<and> dist then log_run (Fatal [''can't list only local *and* dist'']) w else Goes w ()) (\<lambda>w _.
       if loc then listLocalKeys txt pkg rootConfig w
       else if dist then listDistKeys w
       else bind_run (listLocalKeys txt pkg rootConfig w) (\<lambda>w _. listDistKeys w))"

section \<open>Runs, step by step\<close>

lemma bind_run_Goes [simp]: "bind_run r f = Goes w b \<longleftrightarrow> (\<exists>w' a. r = Goes w' a \<and> f w' a = Goes w b)"
  by (auto simp: bind_run_def split: run.splits)

lemma bind_Goes [simp]: "bind_run (Goes w a) f = f w a"
  by (simp add: bind_run_def)

lemma log_run_fs: "log_run f w = Goes w' a \<Longrightarrow> w_fs w' = w_fs w"
  by (auto simp: log_run_def split: log_result.splits)

lemma ErrFatal_Goes [simp]: "log_run (ErrFatal (Some e)) w \<noteq> Goes w' a" "log_run (ErrFatal None) w = Goes w ()"
  by (auto simp: log_run_def ErrFatal_def exits_def split: log_result.splits)

lemma Fatal_Goes [simp]: "log_run (Fatal msg) w \<noteq> Goes w' a"
  by (auto simp: log_run_def Fatal_def exits_def split: log_result.splits)

lemma process_Goes:
  "process name w = Goes w' n \<longleftrightarrow> w' = w \<and> n = strip_spaces name \<and> n \<noteq> [] \<and> list_all name_char n"
  by (auto simp: process_def Let_def)

lemma name_chars: "slash \<notin> Collect name_char" "CHR ''.'' \<notin> Collect name_char" "CHR ''%'' \<notin> Collect name_char"
  "CHR '' '' \<notin> Collect name_char"
  by (simp_all add: name_char_def)

lemma name_plain: "n \<noteq> [] \<Longrightarrow> list_all name_char n \<Longrightarrow> plain n"
  using name_chars(1,2) by (auto simp: plain_def element_def list_all_iff)

lemma file_names_plain: "plain SecretFile" "plain IdentityFile" "plain IdentityFolder" "SecretFile \<noteq> IdentityFile"
  by (simp_all add: plain_def element_def SecretFile_def IdentityFile_def IdentityFolder_def)

lemma write_key_Goes:
  "write_key txt pkg c fname k w = Goes w' a \<longleftrightarrow>
     (\<exists>fs'. Write (key_ops pkg) (w_fs w) c fname (Tomler k) = Some (fs', None) \<and> w' = w\<lparr>w_fs := fs'\<rparr>)"
proof (cases "Write (key_ops pkg) (w_fs w) c fname (Tomler k)")
  case (Some r)
  then show ?thesis by (cases r; cases "snd r") (auto simp: write_key_def)
qed (simp add: write_key_def)

text \<open>What holds of the state a run leaves, however it ends.\<close>

definition keeps :: "(world \<Rightarrow> bool) \<Rightarrow> 'a run \<Rightarrow> bool" where
  "keeps P r = (case r of Goes w _ \<Rightarrow> P w | Exited w \<Rightarrow> P w | Crashed w \<Rightarrow> P w | Beyond w \<Rightarrow> P w)"

lemma keeps_Crashed [simp]: "keeps P (Crashed w) = P w"
  by (simp add: keeps_def)

lemma keeps_bind:
  "keeps P r \<Longrightarrow> (\<And>w a. r = Goes w a \<Longrightarrow> P w \<Longrightarrow> keeps P (f w a)) \<Longrightarrow> keeps P (bind_run r f)"
  by (cases r) (auto simp: keeps_def bind_run_def)

definition same_files :: "loc list \<Rightarrow> fs \<Rightarrow> world \<Rightarrow> bool" where
  "same_files ls fs w = (\<nexists>l. l \<notin> set ls \<and> map_of (fs_files (w_fs w)) l \<noteq> map_of (fs_files fs) l)"

lemma keeps_log: "same_files ls fs w \<Longrightarrow> keeps (same_files ls fs) (log_run f w)"
  by (auto simp: keeps_def log_run_def same_files_def split: log_result.splits)

lemma keeps_process: "same_files ls fs w \<Longrightarrow> keeps (same_files ls fs) (process name w)"
proof (cases "strip_spaces name \<noteq> [] \<and> list_all name_char (strip_spaces name)")
  case True
  assume "same_files ls fs w"
  with True show ?thesis by (simp add: process_def keeps_def)
next
  case False
  assume "same_files ls fs w"
  then show ?thesis using False unfolding process_def Let_def
    by (simp only: if_False) (rule keeps_bind[OF keeps_log], simp_all)
qed

lemma keeps_info: "same_files ls fs w \<Longrightarrow> keeps (same_files ls fs) (info_saved txt c f w)"
  using keeps_log[of ls fs w] by (auto simp: info_saved_def keeps_def split: option.splits)

lemma keeps_write:
  assumes "same_files ls fs w" and "loc_of (Join (dir c) f) \<in> set ls"
  shows "keeps (same_files ls fs) (write_key txt pkg c f k w)"
proof (cases "Write (key_ops pkg) (w_fs w) c f (Tomler k)")
  case (Some r)
  obtain fs' err where r: "r = (fs', err)" by (cases r)
  have "same_files ls fs (w\<lparr>w_fs := fs'\<rparr>)"
    using Write_other[of "key_ops pkg" "w_fs w" c f "Tomler k" fs' err] Some r assms
    by (auto simp: same_files_def) metis
  then show ?thesis using keeps_log Some r by (simp add: write_key_def)
qed (use assms(1) in \<open>simp add: write_key_def keeps_def same_files_def panic_fs_files\<close>)

section \<open>Properties\<close>

text \<open>The place of a file of a key.\<close>

definition key_loc :: "string \<Rightarrow> string \<Rightarrow> string \<Rightarrow> loc" where
  "key_loc home n fname = (rooted home, normal_elems home @ [IdentityFolder, n, fname])"

abbreviation key_config :: "string \<Rightarrow> string \<Rightarrow> Config" where
  "key_config home n \<equiv> Dir (Dir (NewConfigWithPath home) IdentityFolder) n"

lemma loc_key: "plain n \<Longrightarrow> plain f \<Longrightarrow> loc_of (Join (dir (key_config home n)) f) = key_loc home n f"
  using loc_Dirs[of "[IdentityFolder, n]" home] file_names_plain(3) by (simp add: key_loc_def)

text \<open>
  C23. A key is confined to its folder: whatever name the user gives and however the command ends, by
  returning, by \<open>os.Exit\<close> after an error of either write, or by a panic, also one after the first
  write, no file is touched but the two of the key, which lie directly in the folder of that name below
  the folder of the identities, identity/NAME/secret.toml and identity/NAME/public.toml. A run that
  comes to a line of the log whose format is not modelled is followed up to that line.
\<close>

theorem generateKey_confined:
  "keeps (same_files [key_loc home (strip_spaces name) SecretFile, key_loc home (strip_spaces name) IdentityFile] (w_fs w))
     (generateKey txt pkg sign gen now (NewConfigWithPath home) name w)"
proof -
  let ?ls = "[key_loc home (strip_spaces name) SecretFile, key_loc home (strip_spaces name) IdentityFile]"
  have "same_files ?ls (w_fs w) w" by (simp add: same_files_def)
  then show ?thesis unfolding generateKey_def Let_def
    by (auto simp: process_Goes loc_key file_names_plain name_plain keeps_Crashed simp del: loc_Join split: option.splits
        intro!: keeps_bind keeps_process keeps_log keeps_info keeps_write)
qed

lemma readable_listed:
  assumes "readable fs (key_config home n) f out" and "plain n" and "ListDir fs (Dir (NewConfigWithPath home) IdentityFolder) = Inr names"
  shows "n \<in> set names"
proof -
  let ?d = "loc_of (dir (key_config home n))"
  have "?d = (rooted home, normal_elems home @ [IdentityFolder, n])"
    "loc_of (dir (Dir (NewConfigWithPath home) IdentityFolder)) = (rooted home, normal_elems home @ [IdentityFolder])"
    using loc_Dirs[of "[IdentityFolder, n]" home] loc_Dirs[of "[IdentityFolder]" home] file_names_plain(3) assms(2) by simp_all
  moreover from this(1) assms(1) have "?d \<in> set (fs_dirs fs)" by (simp add: readable_def is_dir_def)
  moreover have "names = sort (map (\<lambda>d. last (snd d)) (filter (\<lambda>d. snd d \<noteq> [] \<and>
      parent_loc d = loc_of (dir (Dir (NewConfigWithPath home) IdentityFolder))) (fs_dirs fs)))"
    using assms(3) by (simp add: ListDir_def ioutil_ReadDir_dirs_def split: option.splits if_splits)
  then have "set names = (\<lambda>d. last (snd d)) ` {d \<in> set (fs_dirs fs). snd d \<noteq> [] \<and>
      parent_loc d = loc_of (dir (Dir (NewConfigWithPath home) IdentityFolder))}"
    by simp
  moreover have "n = last (snd ?d)" using calculation(1) by simp
  ultimately show ?thesis by (simp only:) (rule image_eqI[of _ _ ?d], simp_all add: parent_loc_def butlast_append)
qed

lemma info_saved_fs: "info_saved f c fname w = Goes w' a \<Longrightarrow> w_fs w' = w_fs w"
  by (auto simp: info_saved_def dest: log_run_fs split: option.splits)

lemma generateKey_Goes:
  assumes "generateKey txt pkg sign gen now (NewConfigWithPath home) name w = Goes w1 ()"
    and "NewPrivateIdentity sign gen now (strip_spaces name) = Some (priv, ident)"
  obtains fs1 where
    "Write (key_ops pkg) (w_fs w) (key_config home (strip_spaces name)) SecretFile (Tomler (Inl priv)) = Some (fs1, None)"
    "Write (key_ops pkg) fs1 (key_config home (strip_spaces name)) IdentityFile (Tomler (Inr ident)) = Some (w_fs w1, None)"
  using assms that unfolding generateKey_def Let_def bind_run_Goes process_Goes
  by (auto simp: write_key_Goes dest!: log_run_fs info_saved_fs)

lemma generated_key_read:
  assumes "generateKey txt pkg sign gen now (NewConfigWithPath home) name w = Goes w1 ()"
    and "NewPrivateIdentity sign gen now (strip_spaces name) = Some (priv, ident)"
    and "pkg_DecodePrivate pkg (fst (pkg_Encode pkg (Inl (Private_Toml priv)))) = Inr (Private_Toml priv)"
    and "pkg_DecodeIdentity pkg (fst (pkg_Encode pkg (Inr (Identity_Toml ident)))) = Inr (Identity_Toml ident)"
  shows "readable (w_fs w1) (key_config home (strip_spaces name)) IdentityFile
      (fst (toml_Encode (key_ops pkg) (toTomlize (key_ops pkg) (Tomler (Inr ident)))))"
    and "w_fs w2 = w_fs w1 \<Longrightarrow> list_key txt pkg (Dir (NewConfigWithPath home) IdentityFolder) (strip_spaces name) w2 =
      Goes (println [Identity_Repr ident @ [CHR 0x0A]] w2) ()"
proof -
  let ?n = "strip_spaces name" and ?c = "key_config home (strip_spaces name)" and ?ops = "key_ops pkg"
  have n: "?n \<noteq> []" "list_all name_char ?n" using assms(1) by (auto simp: generateKey_def process_Goes)
  then have "plain ?n" by (rule name_plain)
  obtain fs1 where
    w: "Write ?ops (w_fs w) ?c SecretFile (Tomler (Inl priv)) = Some (fs1, None)"
    "Write ?ops fs1 ?c IdentityFile (Tomler (Inr ident)) = Some (w_fs w1, None)"
    using assms(1,2) by (rule generateKey_Goes)
  have dir: "dir ?c \<noteq> []" using Join_plain_not_Nil[OF \<open>plain ?n\<close>] by (simp add: Dir_def)
  show ident_file: "readable (w_fs w1) ?c IdentityFile (fst (toml_Encode ?ops (toTomlize ?ops (Tomler (Inr ident)))))"
    by (rule Write_readable[OF w(2) file_names_plain(2) dir])
  have "readable fs1 ?c SecretFile (fst (toml_Encode ?ops (toTomlize ?ops (Tomler (Inl priv)))))"
    by (rule Write_readable[OF w(1) file_names_plain(1) dir])
  then have sec_file: "readable (w_fs w1) ?c SecretFile (fst (toml_Encode ?ops (toTomlize ?ops (Tomler (Inl priv)))))"
    by (rule Write_keeps_readable[OF _ w(2) file_names_plain(2) file_names_plain(4)[symmetric]])
  assume same: "w_fs w2 = w_fs w1"
  show "list_key txt pkg (Dir (NewConfigWithPath home) IdentityFolder) ?n w2 =
      Goes (println [Identity_Repr ident @ [CHR 0x0A]] w2) ()"
    using assms(3,4) ident_file[folded same] sec_file[folded same]
    by (simp add: list_key_def read_key_def Read_readable key_ops_def key_FromToml_def toTomlize_def
        Private_FromToml_def Private_Toml_def Identity_FromToml_def Identity_Toml_def Identity_Repr_def)
qed

text \<open>
  Generating and listing keys fit together: a key that \<open>generateKey\<close> has saved is in the folder
  that \<open>listLocalKeys\<close> goes through, and its round of the loop reads both files without an error and
  prints the identity that was generated. The TOML package is assumed to read what it wrote.
\<close>

theorem generated_key_is_listed:
  assumes "generateKey txt pkg sign gen now (NewConfigWithPath home) name w = Goes w1 ()"
    and "NewPrivateIdentity sign gen now (strip_spaces name) = Some (priv, ident)"
    and "pkg_DecodePrivate pkg (fst (pkg_Encode pkg (Inl (Private_Toml priv)))) = Inr (Private_Toml priv)"
    and "pkg_DecodeIdentity pkg (fst (pkg_Encode pkg (Inr (Identity_Toml ident)))) = Inr (Identity_Toml ident)"
  shows "list_key txt pkg (Dir (NewConfigWithPath home) IdentityFolder) (strip_spaces name) w1 =
      Goes (println [Identity_Repr ident @ [CHR 0x0A]] w1) ()
    \<and> (case ListDir (w_fs w1) (Dir (NewConfigWithPath home) IdentityFolder) of
         Inl e \<Rightarrow> True | Inr names \<Rightarrow> strip_spaces name \<in> set names)"
proof -
  have "plain (strip_spaces name)" using assms(1) by (auto simp: generateKey_def process_Goes intro: name_plain)
  then show ?thesis using generated_key_read[OF assms] readable_listed[OF generated_key_read(1)[OF assms]] by (auto split: sum.splits)
qed

text \<open>A key that is generated in an empty home directory, with a TOML package good enough for it.\<close>

definition demo_pkg :: toml_pkg where
  "demo_pkg =
     \<lparr>pkg_Encode = (\<lambda>a. case a of
          Inl p \<Rightarrow> (string_bytes (pt_Seed p), None)
        | Inr i \<Rightarrow> (string_bytes (strings_join '','' [it_Name i, it_Key i, it_Signature i]), None)),
      pkg_DecodePrivate = (\<lambda>b. Inr \<lparr>pt_Seed = bytes_string b\<rparr>),
      pkg_DecodeIdentity = (\<lambda>b. case strings_split (bytes_string b) '','' of
          [n, k, s] \<Rightarrow> Inr \<lparr>it_Name = n, it_Key = k, it_CreatedAt = 7, it_Signature = s, it_Address = []\<rparr>
        | _ \<Rightarrow> Inl ''expected three fields'')\<rparr>"

definition demo_world :: world where
  "demo_world = \<lparr>w_log = slog_init, w_fs = demo_fs\<rparr>"

definition demo_ident :: Identity where
  "demo_ident = \<lparr>id_Name = ''alice'', id_Key = [1, 2], id_CreatedAt = 7, id_Signature = [9], id_Address = []\<rparr>"

definition demo_key :: "unit run" where
  "demo_key = generateKey (\<lambda>_. ''error'') demo_pkg (\<lambda>k m. [9]) (Inr ([1, 2], [3, 4])) 7
     (NewConfigWithPath ''/home'') '' al ice'' demo_world"

theorem generated_key_is_listed_witness:
  "\<exists>w1. demo_key = Goes w1 () \<and>
     list_key (\<lambda>_. ''error'') demo_pkg (Dir (NewConfigWithPath ''/home'') IdentityFolder) ''alice'' w1 =
       Goes (println [Identity_Repr demo_ident @ [CHR 0x0A]] w1) ()"
proof -
  have "case demo_key of Goes w u \<Rightarrow> True | _ \<Rightarrow> False" by code_simp
  then obtain w1 where key: "demo_key = Goes w1 ()" by (auto split: run.splits)
  have n: "strip_spaces '' al ice'' = ''alice''" by code_simp
  have gen: "NewPrivateIdentity (\<lambda>k m. [9]) (Inr ([1, 2], [3, 4])) 7 ''alice'' = Some (\<lparr>pr_seed = [3, 4], pr_Public = demo_ident\<rparr>, demo_ident)"
    by code_simp
  have toml: "pkg_DecodePrivate demo_pkg (fst (pkg_Encode demo_pkg (Inl (Private_Toml \<lparr>pr_seed = [3, 4], pr_Public = demo_ident\<rparr>)))) =
       Inr (Private_Toml \<lparr>pr_seed = [3, 4], pr_Public = demo_ident\<rparr>)"
    "pkg_DecodeIdentity demo_pkg (fst (pkg_Encode demo_pkg (Inr (Identity_Toml demo_ident)))) = Inr (Identity_Toml demo_ident)"
    by code_simp+
  from generated_key_is_listed[OF key[unfolded demo_key_def], unfolded n, OF gen toml] key show ?thesis by blast
qed

text \<open>
  Without an argument the command picks a name by itself, and that name is always one that
  \<open>process\<close> accepts, as it is.
\<close>

theorem random_name_is_accepted:
  assumes "\<forall>k n. 0 < n \<longrightarrow> intn k n < n" and "GetRandomName intn k retry = Some name"
  shows "process name w = Goes w name"
proof -
  obtain l r d where name: "name = l @ ''_'' @ r @ d" and lr: "small_letters l" "small_letters r"
    and d: "if 0 < retry then \<exists>n<10. d = [char_of (48 + n :: nat)] else d = []"
    using GetRandomName_parts[OF assms] by blast
  have "list_all (\<lambda>n. name_char (char_of (48 + n :: nat))) [0..<10]" by code_simp
  then have "list_all name_char d" using d by (auto simp: list_all_iff split: if_splits)
  moreover have "list_all name_char ''abcdefghijklmnopqrstuvwxyz''" by code_simp
  then have "list_all name_char u" if "small_letters u" for u
    using that unfolding small_letters_def list_all_iff by blast
  ultimately have "list_all name_char name" using lr unfolding name by (simp add: name_char_def)
  moreover from this have "strip_spaces name = name"
    using name_chars(4) unfolding strip_spaces_def filter_id_conv list_all_iff by blast
  ultimately show ?thesis by (simp add: process_def name)
qed

theorem random_name_is_accepted_witness:
  "process ''admiring_allen'' demo_world = Goes demo_world ''admiring_allen''"
proof -
  have "attempt (\<lambda>k n. k mod n) 0 \<noteq> boring_wozniak" "attempt (\<lambda>k n. k mod n) 0 = ''admiring_allen''" by code_simp+
  then have "GetRandomName (\<lambda>k n. k mod n) 0 0 = Some ''admiring_allen''"
    using begin_loop_first[of "\<lambda>k n. k mod n" 0 0] by (simp add: GetRandomName_def)
  then show ?thesis using random_name_is_accepted[of "\<lambda>k n. k mod n" 0 0 "''admiring_allen''" demo_world] by simp
qed

end
