(* ===== verification/Cmd_Main.thy ===== *)
theory Cmd_Main
  imports Cmd
begin

text \<open>
  The program as a whole: main.go, the command structs of cmd/*.go, the tree the \<open>init\<close> functions
  build, and one run of the program. \<open>cobra\<close>, which parses the command line, is a parameter: from the
  arguments to an error, or to the command it found with the values of the flags and the remaining
  arguments. Of its documented behaviour the model has that \<open>PersistentPreRun\<close> of the root runs before
  \<open>Run\<close>, and that a command without \<open>Run\<close> prints its help instead.
\<close>

section \<open>The commands\<close>

record cobra_Command =
  Use :: string
  Short :: string
  Long :: string
  hasRun :: bool

abbreviation nl :: string where "nl \<equiv> [CHR 0x0A]"

definition RootCmd :: cobra_Command where
  "RootCmd = \<lparr>Use = ''mulsigo'', Short = ''multisignature made easy'',
     Long = ''mulsigo is a tool that enables a group of people to sign '' @ nl @
       ''in a decentralized manner. Mulsigo  can create a decentralized public key,'' @ nl @
       ''with each participants receiving a share of the private key. The private key '' @ nl @
       ''is never computed locally but generated in a decentralized fashion.'',
     hasRun = False\<rparr>"

definition newCmd :: cobra_Command where
  "newCmd = \<lparr>Use = ''new'', Short = ''new is the root command to generate dist. or local keypair'',
     Long = ''new is the root command that enables to create a local ed25519 key pair, or a distributed key pair.'',
     hasRun = False\<rparr>"

definition localCmd :: cobra_Command where
  "localCmd = \<lparr>Use = ''local [name]'', Short = ''local generates a local pgp key pair'',
     Long = ''local generates a local key pgp key pair using gpg2. This key pair can be used to create a group.toml along other public keys. You can specify an optional name argument if you want a name to be associated with your key pair. If you don't specify a name,a random one will be assigned!'',
     hasRun = True\<rparr>"

definition distCmd :: cobra_Command where
  "distCmd = \<lparr>Use = ''dist'', Short = ''dist runs the distributed key generation protocol'',
     Long = ''dist runs the distributed key generation protocol. To create a dist. key, you need a group.toml listing the public keys of all participants'',
     hasRun = True\<rparr>"

definition listCmd :: cobra_Command where
  "listCmd = \<lparr>Use = ''list'', Short = ''list all distributed keys on this system. Think gpg --list-keys'',
     Long = ''list all local and distributed keys stored on this system. It looks for default '' @ nl @
       [CHR 0x09] @ ''path configuration, but you can use -p flag to provide custom paths. It shows'' @ nl @
       [CHR 0x09] @ ''the gpg id, name and email for each keys.'',
     hasRun = True\<rparr>"

definition signCmd :: cobra_Command where
  "signCmd = \<lparr>Use = ''sign'', Short = ''A brief description of your command'',
     Long = ''A longer description that spans multiple lines and likely contains examples'' @ nl @
       ''and usage of using your command. For example:'' @ nl @ nl @
       ''Cobra is a CLI library for Go that empowers applications.'' @ nl @
       ''This application is a tool to generate the needed files'' @ nl @
       ''to quickly create a Cobra application.'',
     hasRun = True\<rparr>"

definition exchangeCmd :: cobra_Command where
  "exchangeCmd = \<lparr>Use = ''exchange'', Short = ''Exchange public keys with your peers WARNING: experimental'',
     Long = ''Exchange securely your public key with your peers to get a group.toml listing all the keys. One can later create a distributed key from a group.toml. WARNING: This feature is experimental and has not been peer reviewed. Understand what you are doing by using this feature!'',
     hasRun = True\<rparr>"

definition GroupFolder :: string where "GroupFolder = ''groups''"

text \<open>What the \<open>init\<close> functions of the six files hang where, in the order of the files: the parent, then the child.\<close>

definition AddCommands :: "(cobra_Command \<times> cobra_Command) list" where
  "AddCommands = [(newCmd, distCmd), (RootCmd, exchangeCmd), (RootCmd, listCmd), (newCmd, localCmd), (RootCmd, newCmd),
     (RootCmd, signCmd)]"

text \<open>The values of the flags, with the persistent ones of the root first.\<close>

record flag_values =
  fl_verbose :: bool
  fl_debug :: bool
  fl_homedir :: string
  fl_local :: bool
  fl_dist :: bool

definition default_flags :: "string \<Rightarrow> flag_values" where
  "default_flags defaultHome =
     \<lparr>fl_verbose = False, fl_debug = False, fl_homedir = DefaultConfigPath defaultHome AppName, fl_local = False, fl_dist = False\<rparr>"

section \<open>One run of the program\<close>

text \<open>The packages and the inputs a run depends on; \<open>ev_help\<close> is what cobra prints for a command without \<open>Run\<close>.\<close>

record cmd_env =
  ev_text :: "keys_error cfg_error \<Rightarrow> string"
  ev_toml :: toml_pkg
  ev_sign :: "bytes \<Rightarrow> bytes \<Rightarrow> bytes"
  ev_key :: "string + bytes \<times> bytes"
  ev_now :: uint64
  ev_intn :: "nat \<Rightarrow> nat \<Rightarrow> nat"
  ev_viper :: "string option"
  ev_help :: "cobra_Command \<Rightarrow> world \<Rightarrow> world"

text \<open>What \<open>RootCmd.Execute()\<close> runs for the command it found: its \<open>Run\<close>. \<open>None\<close> when the search for a random name does not end.\<close>

definition run_command :: "cmd_env \<Rightarrow> cobra_Command \<Rightarrow> flag_values \<Rightarrow> string list \<Rightarrow> Config \<Rightarrow> world \<Rightarrow> unit run option" where
  "run_command ev c fl args rootConfig w =
     (if c = localCmd then localRun (ev_text ev) (ev_toml ev) (ev_sign ev) (ev_key ev) (ev_now ev) (ev_intn ev) rootConfig args w
      else if c = listCmd then Some (listRun (ev_text ev) (ev_toml ev) rootConfig (fl_local fl) (fl_dist fl) w)
      else if c = distCmd then Some (Goes (distRun w) ())
      else if c = signCmd then Some (Goes (signRun w) ())
      else if c = exchangeCmd then Some (Goes (exchangeRun w) ())
      else Some (Goes w ()))"

definition bind_opt :: "'a run \<Rightarrow> (world \<Rightarrow> 'a \<Rightarrow> 'b run option) \<Rightarrow> 'b run option" where
  "bind_opt r f = (case r of Goes w a \<Rightarrow> f w a | Exited w \<Rightarrow> Some (Exited w) | Crashed w \<Rightarrow> Some (Crashed w) | Beyond w \<Rightarrow> Some (Beyond w))"

text \<open>\<open>main\<close>, which calls \<open>Execute\<close>: the parsing, \<open>initConfig\<close>, \<open>PersistentPreRun\<close>, \<open>Run\<close>, and the error printed.\<close>

definition main_run ::
  "cmd_env \<Rightarrow> (string list \<Rightarrow> string + cobra_Command \<times> flag_values \<times> string list) \<Rightarrow> string list \<Rightarrow> world \<Rightarrow> unit run option" where
  "main_run ev cobra argv w0 =
     (case cobra argv of
        Inl e \<Rightarrow> Some (Execute (Some e) w0)
      | Inr (c, fl, args) \<Rightarrow>
          if \<not> hasRun c then Some (Execute None (ev_help ev c w0))
          else bind_opt (preRun (fl_verbose fl) (fl_debug fl) (fl_homedir fl) (initConfig (ev_viper ev) w0)) (\<lambda>w rootConfig.
               map_option (\<lambda>r. bind_run r (\<lambda>w _. Execute None w)) (run_command ev c fl args rootConfig w)))"

section \<open>The tree of commands\<close>

text \<open>The name of a command is the first word of \<open>Use\<close>.\<close>

definition command_name :: "cobra_Command \<Rightarrow> string" where
  "command_name c = takeWhile (\<lambda>x. x \<noteq> CHR '' '') (Use c)"

lemmas command_defs = RootCmd_def newCmd_def localCmd_def distCmd_def listCmd_def signCmd_def exchangeCmd_def

text \<open>No two children of a command have the same name, and the commands without \<open>Run\<close> are those with children.\<close>

lemma commands_unambiguous: "distinct (map (\<lambda>(p, c). (command_name p, command_name c)) AddCommands)"
  by (simp add: AddCommands_def command_name_def command_defs)

lemma commands_runnable: "list_all (\<lambda>c. hasRun c \<longleftrightarrow> c \<notin> fst ` set AddCommands) (RootCmd # map snd AddCommands)"
  by (simp add: AddCommands_def command_defs)

lemma commands_distinct [simp]: "listCmd \<noteq> localCmd" "hasRun localCmd" "hasRun listCmd"
  by (simp_all add: command_defs)

section \<open>A new key is listed\<close>

definition ident_loc :: "string \<Rightarrow> loc" where
  "ident_loc home = (rooted home, normal_elems home @ [IdentityFolder])"

lemma ident_loc_eq: "loc_of (dir (Dir (NewConfigWithPath home) IdentityFolder)) = ident_loc home"
  using loc_Dirs[of "[IdentityFolder]" home] file_names_plain(3) by (simp add: ident_loc_def)

lemma key_folder: "plain n \<Longrightarrow> loc_of (dir (key_config home n)) = (fst (ident_loc home), snd (ident_loc home) @ [n])"
  using loc_Dirs[of "[IdentityFolder, n]" home] file_names_plain(3) by (simp add: ident_loc_def)

lemma filter_singleton:
  assumes "distinct xs" and "k \<in> set xs" and "P k" and only: "\<And>x. x \<in> set xs \<Longrightarrow> P x \<Longrightarrow> x = k"
  shows "filter P xs = [k]"
proof -
  obtain as bs where xs: "xs = as @ k # bs" using assms(2) by (meson split_list)
  have "\<not> P x" if "x \<in> set as \<union> set bs" for x
    using that only[of x] assms(1) xs by auto
  then have "filter P as = []" "filter P bs = []" by (simp_all add: filter_empty_conv)
  then show ?thesis using xs assms(3) by simp
qed

text \<open>A folder of which the system makes out that it has one directory.\<close>

lemma ListDir_single:
  assumes "fs_wf fs" and "readable fs (key_config home n) f out" and "plain n" and "plain f"
    and "\<And>d. d \<in> set (fs_dirs fs) \<Longrightarrow> parent_loc d = ident_loc home \<Longrightarrow> snd d \<noteq> [] \<Longrightarrow> d = loc_of (dir (key_config home n))"
  shows "ListDir fs (Dir (NewConfigWithPath home) IdentityFolder) = Inr [n]"
proof -
  let ?i = "ident_loc home" and ?k = "loc_of (dir (key_config home n))"
  have k: "?k = (fst ?i, snd ?i @ [n])" by (rule key_folder[OF assms(3)])
  have "walk_error fs (fst ?i, (snd ?i @ [n]) @ [f]) = None"
    using assms(2,4) k by (simp add: readable_def Let_def)
  then have i: "walk_error fs ?i = None" "\<not> is_file fs ?i" "?i \<notin> set (fs_denied fs)"
    unfolding walk_error_snoc by simp_all
  have "is_dir fs ?k" using assms(2) by (simp add: readable_def)
  then have mem: "?k \<in> set (fs_dirs fs)" by (simp add: is_dir_def k)
  then have "is_dir fs (parent_loc ?k)" using assms(1) by (auto simp: fs_wf_def list_all_iff)
  then have dir: "is_dir fs ?i" by (simp add: k)
  have "parent_loc ?k = ?i" "snd ?k \<noteq> []" unfolding k by (simp_all add: parent_loc_def)
  then have "filter (\<lambda>d. snd d \<noteq> [] \<and> parent_loc d = ?i) (fs_dirs fs) = [?k]"
    using assms(1) mem by (intro filter_singleton assms(5)) (simp_all add: fs_wf_def)
  then show ?thesis using i dir by (simp add: ListDir_def ioutil_ReadDir_dirs_def ident_loc_eq) (simp add: k)
qed

lemma generated_key_alone:
  assumes gen: "generateKey txt pkg sign gen now (NewConfigWithPath home) name w = Goes w1 ()"
    and new: "NewPrivateIdentity sign gen now (strip_spaces name) = Some (priv, ident)"
    and wf: "fs_wf (w_fs w)" and fresh: "list_all (\<lambda>d. parent_loc d \<noteq> ident_loc home) (fs_dirs (w_fs w))"
    and file_there: "readable (w_fs w1) (key_config home (strip_spaces name)) IdentityFile out"
  shows "ListDir (w_fs w1) (Dir (NewConfigWithPath home) IdentityFolder) = Inr [strip_spaces name]"
proof -
  let ?n = "strip_spaces name" and ?c = "key_config home (strip_spaces name)"
  have n: "plain ?n" using gen by (auto simp: generateKey_def process_Goes intro: name_plain)
  obtain fs1 where w: "Write (key_ops pkg) (w_fs w) ?c SecretFile (Tomler (Inl priv)) = Some (fs1, None)"
    "Write (key_ops pkg) fs1 ?c IdentityFile (Tomler (Inr ident)) = Some (w_fs w1, None)"
    using gen new by (rule generateKey_Goes)
  have "fs_wf (w_fs w1)" using Write_wf[OF Write_wf[OF wf w(1)] w(2)] .
  moreover have "d = loc_of (dir ?c)" if d: "d \<in> set (fs_dirs (w_fs w1))" "parent_loc d = ident_loc home" "snd d \<noteq> []" for d
  proof -
    have "d \<notin> set (fs_dirs (w_fs w))" using fresh d(2) by (auto simp: list_all_iff)
    then consider "d \<in> set (ancestors (loc_of (dir ?c)))" | "d = loc_of (dir ?c)"
      using d(1) Write_dirs[OF w(1)] Write_dirs[OF w(2)] by blast
    then show ?thesis
    proof cases
      case 1
      then have "length (snd d) < length (snd (loc_of (dir ?c)))" by (rule ancestors_shorter)
      also have "\<dots> = length (snd (ident_loc home)) + 1" using key_folder[OF n, of home] by simp
      also have "length (snd (ident_loc home)) = length (snd d) - 1" unfolding d(2)[symmetric] by (simp add: parent_loc_def)
      finally show ?thesis using d(3) by (cases "snd d") simp_all
    qed
  qed
  ultimately show ?thesis using ListDir_single[OF _ file_there n file_names_plain(2)] by blast
qed

text \<open>The log functions below the level of a fresh log are silent.\<close>

lemma preRun_quiet:
  assumes "Level (w_log w) = LevelPrint"
  shows "preRun False False home w = Goes w (NewConfigWithPath home)"
  using assms by (simp add: preRun_def banner_def log_run_def Info_def slog_p_def level_defs Let_def)

lemma initConfig_frame [simp]: "w_fs (initConfig used w) = w_fs w" "Level (w_log (initConfig used w)) = Level (w_log w)"
  by (simp_all add: initConfig_def println_def split: option.splits)

lemma log_Print: "LevelPrint \<le> Level (w_log w) \<Longrightarrow> no_percent args \<Longrightarrow> log_run (Print args) w = Goes (println args w) ()"
  by (simp add: log_run_def Print_def slog_p_plain println_def)

text \<open>
  C13. The program end to end: in a home directory without identities, \<open>mulsigo new local\<close> with a name,
  once it has ended normally, makes the next process, \<open>mulsigo list --local\<close>, print the heading and that one
  identity, as it was generated, and end normally without changing a file. cobra is assumed to find the
  commands, and the TOML package to read what it wrote.
\<close>

theorem new_then_list:
  assumes "cobra argv1 = Inr (localCmd, fl1, name # args1)" and "cobra argv2 = Inr (listCmd, fl2, args2)"
    and "fl_homedir fl2 = fl_homedir fl1" and "fl_local fl2 \<and> \<not> fl_dist fl2 \<and> \<not> fl_verbose fl2 \<and> \<not> fl_debug fl2"
    and "main_run ev cobra argv1 w = Some (Goes w1 ())"
    and "fs_wf (w_fs w)" and "list_all (\<lambda>d. parent_loc d \<noteq> ident_loc (fl_homedir fl1)) (fs_dirs (w_fs w))"
    and "NewPrivateIdentity (ev_sign ev) (ev_key ev) (ev_now ev) (strip_spaces name) = Some (priv, ident)"
    and "pkg_DecodePrivate (ev_toml ev) (fst (pkg_Encode (ev_toml ev) (Inl (Private_Toml priv)))) = Inr (Private_Toml priv)"
    and "pkg_DecodeIdentity (ev_toml ev) (fst (pkg_Encode (ev_toml ev) (Inr (Identity_Toml ident)))) = Inr (Identity_Toml ident)"
  shows "main_run ev cobra argv2 \<lparr>w_log = slog_init, w_fs = w_fs w1\<rparr> =
    Some (Goes (println [Identity_Repr ident @ nl] (println [''Local identities:'']
      (initConfig (ev_viper ev) \<lparr>w_log = slog_init, w_fs = w_fs w1\<rparr>))) ())"
proof -
  let ?home = "fl_homedir fl1" and ?s = "initConfig (ev_viper ev) \<lparr>w_log = slog_init, w_fs = w_fs w1\<rparr>"
  let ?w2 = "println [''Local identities:''] ?s"
  obtain w0 where gen: "generateKey (ev_text ev) (ev_toml ev) (ev_sign ev) (ev_key ev) (ev_now ev) (NewConfigWithPath ?home) name w0 = Goes w1 ()"
    and w0: "w_fs w0 = w_fs w"
    using assms(1,5)
    by (auto simp: main_run_def run_command_def localRun_def bind_opt_def Execute_def preRun_def banner_def Let_def
        split: run.splits if_splits dest!: log_run_fs)
  note key = generated_key_read[OF gen assms(8-10)]
  have "ListDir (w_fs w1) (Dir (NewConfigWithPath ?home) IdentityFolder) = Inr [strip_spaces name]"
    using assms(6,7) by (intro generated_key_alone[OF gen assms(8) _ _ key(1)]) (simp_all add: w0)
  moreover have fs: "w_fs ?w2 = w_fs w1" by (simp add: println_def)
  moreover have "log_run (Print [''Local identities:'']) ?s = Goes ?w2 ()"
    by (rule log_Print) (simp_all add: slog_init_def no_percent_def)
  ultimately have "listLocalKeys (ev_text ev) (ev_toml ev) (NewConfigWithPath ?home) ?s = Goes (println [Identity_Repr ident @ nl] ?w2) ()"
    using key(2)[OF fs] by (simp add: listLocalKeys_def Let_def)
  moreover have "preRun False False ?home ?s = Goes ?s (NewConfigWithPath ?home)" by (rule preRun_quiet) (simp add: slog_init_def)
  ultimately show ?thesis using assms(2-4)
    by (simp add: main_run_def run_command_def listRun_def bind_opt_def Execute_def)
qed

text \<open>The witness: a cobra that knows the two commands, in the home directory of the examples.\<close>

definition demo_flags :: flag_values where
  "demo_flags = \<lparr>fl_verbose = False, fl_debug = False, fl_homedir = ''/home'', fl_local = True, fl_dist = False\<rparr>"

definition demo_cobra :: "string list \<Rightarrow> string + cobra_Command \<times> flag_values \<times> string list" where
  "demo_cobra argv = (case argv of
      [''new'', ''local'', name] \<Rightarrow> Inr (localCmd, demo_flags, [name])
    | [''list'', ''--local''] \<Rightarrow> Inr (listCmd, demo_flags, [])
    | _ \<Rightarrow> Inl ''unknown command'')"

definition demo_env :: cmd_env where
  "demo_env = \<lparr>ev_text = (\<lambda>_. ''error''), ev_toml = demo_pkg, ev_sign = (\<lambda>k m. [9]), ev_key = Inr ([1, 2], [3, 4]), ev_now = 7,
     ev_intn = (\<lambda>k n. 0), ev_viper = None, ev_help = (\<lambda>c w. w)\<rparr>"

theorem new_then_list_witness:
  "\<exists>w1. main_run demo_env demo_cobra [''new'', ''local'', '' al ice''] demo_world = Some (Goes w1 ()) \<and>
     main_run demo_env demo_cobra [''list'', ''--local''] \<lparr>w_log = slog_init, w_fs = w_fs w1\<rparr> =
       Some (Goes (println [Identity_Repr demo_ident @ nl] (println [''Local identities:''] \<lparr>w_log = slog_init, w_fs = w_fs w1\<rparr>)) ())"
proof -
  have "case main_run demo_env demo_cobra [''new'', ''local'', '' al ice''] demo_world of Some (Goes w u) \<Rightarrow> True | _ \<Rightarrow> False"
    by code_simp
  then obtain w1 where run: "main_run demo_env demo_cobra [''new'', ''local'', '' al ice''] demo_world = Some (Goes w1 ())"
    by (auto split: option.splits run.splits)
  have c: "demo_cobra [''new'', ''local'', '' al ice''] = Inr (localCmd, demo_flags, ['' al ice''])"
    "demo_cobra [''list'', ''--local''] = Inr (listCmd, demo_flags, [])" by (simp_all add: demo_cobra_def)
  have fl: "fl_local demo_flags \<and> \<not> fl_dist demo_flags \<and> \<not> fl_verbose demo_flags \<and> \<not> fl_debug demo_flags"
    "list_all (\<lambda>d. parent_loc d \<noteq> ident_loc (fl_homedir demo_flags)) (fs_dirs (w_fs demo_world))" by code_simp+
  have wf: "fs_wf (w_fs demo_world)" using demo_fs_wf by (simp add: demo_world_def)
  have gen: "NewPrivateIdentity (ev_sign demo_env) (ev_key demo_env) (ev_now demo_env) (strip_spaces '' al ice'') =
      Some (\<lparr>pr_seed = [3, 4], pr_Public = demo_ident\<rparr>, demo_ident)"
    by code_simp
  have toml: "pkg_DecodePrivate (ev_toml demo_env) (fst (pkg_Encode (ev_toml demo_env) (Inl (Private_Toml \<lparr>pr_seed = [3, 4], pr_Public = demo_ident\<rparr>)))) =
       Inr (Private_Toml \<lparr>pr_seed = [3, 4], pr_Public = demo_ident\<rparr>)"
    "pkg_DecodeIdentity (ev_toml demo_env) (fst (pkg_Encode (ev_toml demo_env) (Inr (Identity_Toml demo_ident)))) = Inr (Identity_Toml demo_ident)"
    by code_simp+
  have "initConfig (ev_viper demo_env) w = w" for w by (simp add: demo_env_def initConfig_def)
  with run new_then_list[OF c refl fl(1) run wf fl(2) gen toml] show ?thesis by simp
qed

end
