(* ===== verification/Main_Util.thy ===== *)
theory Main_Util
  imports Go_Fmt Util_Config
begin

text \<open>
  util.go of the command: \<open>fatal\<close>, \<open>reverse\<close>, \<open>fillBuff\<close>, \<open>randomBytes\<close> and \<open>exists\<close>. Slices are windows of one
  array of bytes, so two of them can be the same, overlap, or be apart; a write to an element is a
  write to the array.
\<close>

section \<open>Slices\<close>

record slice =
  sl_off :: nat
  sl_len :: nat

definition in_array :: "bytes \<Rightarrow> slice \<Rightarrow> bool" where
  "in_array mem s = (sl_off s + sl_len s \<le> length mem)"

definition contents :: "bytes \<Rightarrow> slice \<Rightarrow> bytes" where
  "contents mem s = take (sl_len s) (drop (sl_off s) mem)"

definition sl_get :: "bytes \<Rightarrow> slice \<Rightarrow> nat \<Rightarrow> byte" where
  "sl_get mem s i = mem ! (sl_off s + i)"

definition sl_set :: "bytes \<Rightarrow> slice \<Rightarrow> nat \<Rightarrow> byte \<Rightarrow> bytes" where
  "sl_set mem s i b = mem[sl_off s + i := b]"

definition apart :: "slice \<Rightarrow> slice \<Rightarrow> bool" where
  "apart s t = (sl_off s + sl_len s \<le> sl_off t \<or> sl_off t + sl_len t \<le> sl_off s)"

section \<open>reverse\<close>

text \<open>The loop \<open>for i := 0; i < n; i++ { dst[n-i-1] = src[i] }\<close>, from \<open>i\<close> on.\<close>

function reverse_loop :: "slice \<Rightarrow> slice \<Rightarrow> nat \<Rightarrow> nat \<Rightarrow> bytes \<Rightarrow> bytes" where
  "reverse_loop src dst n i mem =
     (if i < n then reverse_loop src dst n (i + 1) (sl_set mem dst (n - i - 1) (sl_get mem src i)) else mem)"
  by pat_completeness auto
termination by (relation "measure (\<lambda>(src, dst, n, i, mem). n - i)") auto

declare reverse_loop.simps [simp del]

definition reverse_msg :: string where
  "reverse_msg = ''Reverse can't operate on two different size buffer''"

definition reverse :: "slice \<Rightarrow> slice \<Rightarrow> bytes \<Rightarrow> string + bytes" where
  "reverse src dst mem =
     (if sl_len src \<noteq> sl_len dst then Inl reverse_msg else Inr (reverse_loop src dst (sl_len src) 0 mem))"

section \<open>fillBuff and randomBytes\<close>

text \<open>
  \<open>fn\<close> is a \<open>Read\<close>: from the length of the buffer to the bytes it put there, the count it returns
  and its error. The count is what the reader says.
\<close>

type_synonym raw_reader = "nat \<Rightarrow> bytes \<times> int \<times> string option"

definition fillBuff_format :: string where "fillBuff_format = ''Could not read %d bytes from reader''"

definition overlay :: "bytes \<Rightarrow> bytes \<Rightarrow> bytes" where
  "overlay new buff = take (length buff) new @ drop (length new) buff"

definition fillBuff :: "raw_reader \<Rightarrow> bytes \<Rightarrow> bytes \<times> string option" where
  "fillBuff fn buff =
     (case fn (length buff) of
        (data, n, Some e) \<Rightarrow> (overlay data buff, Some e)
      | (data, n, None) \<Rightarrow>
          (overlay data buff, if n \<noteq> int (length buff) then Sprintf fillBuff_format [] else None))"

text \<open>\<open>crand\<close> is the \<open>Read\<close> of \<open>crypto/rand\<close>.\<close>

definition randomBytes :: "raw_reader \<Rightarrow> raw_reader option \<Rightarrow> bytes \<Rightarrow> bytes \<times> string option" where
  "randomBytes crand reader buff = (case reader of None \<Rightarrow> fillBuff crand buff | Some r \<Rightarrow> fillBuff r buff)"

section \<open>fatal\<close>

text \<open>
  The operand a slice of type \<open>[]interface{}\<close> is: its type, its address \<open>ptr\<close>, or the elements under the
  verb, in brackets.
\<close>

definition Slice_of :: "string \<Rightarrow> operand list \<Rightarrow> operand" where
  "Slice_of ptr as verb =
     (if verb = CHR ''T'' then ''[]interface {}''
      else if verb = CHR ''p'' then ptr
      else ''['' @ strings_join '' '' (map (\<lambda>a. a verb) as) @ '']'')"

text \<open>
  \<open>fatal\<close>: what it writes to the standard error, and the status it exits with. The arguments are passed
  on as one operand, the slice, which a format without a verb does not use.
\<close>

definition fatal :: "string \<Rightarrow> string \<Rightarrow> operand list \<Rightarrow> (string \<times> int) option" where
  "fatal ptr txt formatter =
     map_option (\<lambda>out. (out, 1))
       (if CHR ''%'' \<notin> set txt
        then Some (txt @ ''%!(EXTRA []interface {}='' @ Slice_of ptr formatter CHR ''v'' @ '')'')
        else Sprintf txt [Slice_of ptr formatter])"

section \<open>Properties\<close>

text \<open>
  No call of \<open>fatal\<close> prints the text it means: a plain text is followed by an operand that was not
  used, and the operand of a verb is in brackets.
\<close>

lemma fatal_plain: "CHR ''%'' \<notin> set txt \<Longrightarrow> fatal ptr txt [] = Some (txt @ ''%!(EXTRA []interface {}=[])'', 1)"
  by (simp add: fatal_def Slice_of_def)

lemma fatal_one_verb:
  assumes "CHR ''%'' \<notin> set a" and "CHR ''%'' \<notin> set b"
  shows "fatal ptr (a @ ''%s'' @ b) [Str x] = Some (a @ ''['' @ x @ '']'' @ b, 1)"
  using assms by (simp add: fatal_def Sprintf_s Slice_of_def Str_def del: append_Cons)

lemma length_sl_set [simp]: "length (sl_set mem s i b) = length mem"
  by (simp add: sl_set_def)

lemma length_reverse_loop [simp]: "length (reverse_loop src dst n i mem) = length mem"
  by (induction src dst n i mem rule: reverse_loop.induct) (subst reverse_loop.simps, simp)

text \<open>What one write of the loop leaves, and what the loop leaves in the end.\<close>

lemma sl_set_nth:
  "sl_off s + m < length mem \<Longrightarrow> p < length mem \<Longrightarrow>
     sl_set mem s m b ! p = (if p = sl_off s + m then b else mem ! p)"
  by (simp add: sl_set_def nth_list_update)

lemma reverse_loop_frame:
  "p < length mem \<Longrightarrow> sl_off dst + n \<le> length mem \<Longrightarrow> p < sl_off dst \<or> sl_off dst + n \<le> p \<Longrightarrow>
     reverse_loop src dst n i mem ! p = mem ! p"
proof (induction src dst n i mem rule: reverse_loop.induct)
  case (1 src dst n i mem)
  then show ?case by (subst reverse_loop.simps) (auto simp: sl_set_nth)
qed

lemma reverse_loop_apart:
  assumes "sl_off src + n \<le> length mem" and "sl_off dst + n \<le> length mem" and "j < n"
    and "sl_off src + n \<le> sl_off dst \<or> sl_off dst + n \<le> sl_off src"
  shows "reverse_loop src dst n i mem ! (sl_off dst + j) =
    (if j < n - i then mem ! (sl_off src + (n - 1 - j)) else mem ! (sl_off dst + j))"
  using assms
proof (induction src dst n i mem rule: reverse_loop.induct)
  case (1 src dst n i mem)
  show ?case
  proof (cases "i < n")
    case True
    let ?mem = "sl_set mem dst (n - i - 1) (sl_get mem src i)"
    have "reverse_loop src dst n i mem ! (sl_off dst + j) =
      (if j < n - (i + 1) then ?mem ! (sl_off src + (n - 1 - j)) else ?mem ! (sl_off dst + j))"
      using 1 True by (subst reverse_loop.simps) simp
    moreover have "?mem ! (sl_off src + (n - 1 - j)) = mem ! (sl_off src + (n - 1 - j))"
      using "1.prems" True by (subst sl_set_nth) auto
    moreover have "?mem ! (sl_off dst + j) = (if j = n - i - 1 then mem ! (sl_off src + i) else mem ! (sl_off dst + j))"
      using "1.prems" True by (subst sl_set_nth) (auto simp: sl_get_def)
    moreover have "j = n - i - 1 \<Longrightarrow> n - 1 - j = i" using True by simp
    ultimately show ?thesis using True by (cases "j = n - i - 1") auto
  qed (subst reverse_loop.simps, simp)
qed

lemma reverse_loop_same:
  assumes "sl_off s + n \<le> length mem" and "j < n"
  shows "reverse_loop s s n i mem ! (sl_off s + j) =
    (if j < n - i \<and> \<not> (i \<le> j \<and> j < n - 1 - j) then mem ! (sl_off s + (n - 1 - j)) else mem ! (sl_off s + j))"
  using assms
proof (induction "n - i" arbitrary: i mem)
  case 0
  then show ?case by (subst reverse_loop.simps) simp
next
  case (Suc m)
  let ?mem = "sl_set mem s (n - i - 1) (sl_get mem s i)"
  from Suc have "i < n" by simp
  have "reverse_loop s s n i mem ! (sl_off s + j) =
    (if j < n - (i + 1) \<and> \<not> (i + 1 \<le> j \<and> j < n - 1 - j) then ?mem ! (sl_off s + (n - 1 - j)) else ?mem ! (sl_off s + j))"
    using Suc.hyps(1)[of "i + 1" ?mem] Suc.hyps(2) Suc.prems \<open>i < n\<close> by (subst reverse_loop.simps) simp
  moreover have "?mem ! (sl_off s + k) = (if k = n - i - 1 then mem ! (sl_off s + i) else mem ! (sl_off s + k))" if "k < n" for k
    using Suc.prems \<open>i < n\<close> that by (subst sl_set_nth) (auto simp: sl_get_def)
  from this[of j] this[of "n - 1 - j"] have
    "?mem ! (sl_off s + j) = (if j = n - i - 1 then mem ! (sl_off s + i) else mem ! (sl_off s + j))"
    "?mem ! (sl_off s + (n - 1 - j)) = (if j = i then mem ! (sl_off s + i) else mem ! (sl_off s + (n - 1 - j)))"
    using Suc.prems \<open>i < n\<close> by (auto split: if_splits)
  moreover have "j = n - i - 1 \<Longrightarrow> n - 1 - j = i" using \<open>i < n\<close> by simp
  ultimately show ?case using \<open>i < n\<close> Suc.prems
    by (cases "j = n - i - 1"; cases "j = i"; cases "j < n - i - 1") auto
qed

lemma contents_nth: "in_array mem s \<Longrightarrow> j < sl_len s \<Longrightarrow> contents mem s ! j = mem ! (sl_off s + j)"
  by (simp add: contents_def in_array_def)

lemma length_contents [simp]: "in_array mem s \<Longrightarrow> length (contents mem s) = sl_len s"
  by (simp add: contents_def in_array_def)

text \<open>
  C24. On two buffers of the array that are apart and equally long, the index loop of \<open>reverse\<close> is
  list reversal: the destination holds the reverse of the source, and every byte outside the
  destination is as before.
\<close>

theorem reverse_is_rev:
  assumes "in_array mem src" and "in_array mem dst" and "apart src dst" and "sl_len src = sl_len dst"
  shows "\<exists>mem'. reverse src dst mem = Inr mem' \<and> contents mem' dst = rev (contents mem src) \<and>
    (\<forall>p. p < length mem \<and> (p < sl_off dst \<or> sl_off dst + sl_len dst \<le> p) \<longrightarrow> mem' ! p = mem ! p)"
proof -
  let ?mem = "reverse_loop src dst (sl_len src) 0 mem"
  have "contents ?mem dst ! j = rev (contents mem src) ! j" if "j < sl_len src" for j
    using assms that reverse_loop_apart[of src "sl_len src" mem dst j 0]
    by (simp add: contents_nth rev_nth in_array_def apart_def)
  then have "contents ?mem dst = rev (contents mem src)"
    using assms by (intro nth_equalityI) (simp_all add: in_array_def)
  then show ?thesis using assms reverse_loop_frame[of _ mem dst "sl_len src" src 0]
    by (simp add: reverse_def in_array_def)
qed

theorem reverse_is_rev_witness:
  "reverse \<lparr>sl_off = 0, sl_len = 3\<rparr> \<lparr>sl_off = 4, sl_len = 3\<rparr> [1, 2, 3, 9, 0, 0, 0] = Inr [1, 2, 3, 9, 3, 2, 1] \<and>
   (\<exists>mem'. reverse \<lparr>sl_off = 0, sl_len = 3\<rparr> \<lparr>sl_off = 4, sl_len = 3\<rparr> [1, 2, 3, 9, 0, 0, 0] = Inr mem' \<and>
      contents mem' \<lparr>sl_off = 4, sl_len = 3\<rparr> = [3, 2, 1])"
  using reverse_is_rev[of "[1, 2, 3, 9, 0, 0, 0]" "\<lparr>sl_off = 0, sl_len = 3\<rparr>" "\<lparr>sl_off = 4, sl_len = 3\<rparr>"]
  by (simp add: in_array_def apart_def contents_def reverse_def reverse_loop.simps sl_set_def sl_get_def)

text \<open>
  Against its comment, \<open>reverse\<close> does not work in place: given the same buffer twice, it leaves
  the first half as it is and mirrors it into the second, so that the result is a palindrome, and is
  the reverse only of a palindrome.
\<close>

theorem reverse_in_place_mirrors:
  assumes "in_array mem s"
  shows "\<exists>mem'. reverse s s mem = Inr mem' \<and> rev (contents mem' s) = contents mem' s \<and>
    take ((sl_len s + 1) div 2) (contents mem' s) = take ((sl_len s + 1) div 2) (contents mem s) \<and>
    (contents mem' s = rev (contents mem s) \<longleftrightarrow> rev (contents mem s) = contents mem s)"
proof -
  let ?n = "sl_len s" and ?mem = "reverse_loop s s (sl_len s) 0 mem" and ?xs = "contents mem s"
  let ?ys = "contents ?mem s"
  have mem: "in_array ?mem s" using assms by (simp add: in_array_def)
  have ys: "?ys ! j = (if j < ?n - 1 - j then ?xs ! j else ?xs ! (?n - 1 - j))" if "j < ?n" for j
    using assms that mem reverse_loop_same[of s ?n mem j 0] by (simp add: contents_nth in_array_def)
  have pal: "rev ?ys = ?ys"
  proof (rule nth_equalityI)
    fix j assume "j < length (rev ?ys)"
    then have "j < ?n" using mem by simp
    then show "rev ?ys ! j = ?ys ! j"
      using mem ys[of j] ys[of "?n - 1 - j"]
      by (cases "j < ?n - 1 - j"; cases "j = ?n - 1 - j") (auto simp: rev_nth)
  qed simp
  have half: "take ((?n + 1) div 2) ?ys = take ((?n + 1) div 2) ?xs"
  proof (rule nth_equalityI)
    fix j assume "j < length (take ((?n + 1) div 2) ?ys)"
    then have "j < ?n" "j < (?n + 1) div 2" using mem by auto
    then show "take ((?n + 1) div 2) ?ys ! j = take ((?n + 1) div 2) ?xs ! j"
      using ys[of j] by (cases "j < ?n - 1 - j") (auto simp: ys intro: arg_cong[of _ _ "(!) ?xs"])
  qed (simp add: assms mem)
  have "?ys = rev ?xs" if "rev ?xs = ?xs"
  proof (rule nth_equalityI)
    fix j assume "j < length ?ys"
    then have "j < ?n" using mem by simp
    then have "rev ?xs ! j = ?xs ! (?n - 1 - j)" using assms by (simp add: rev_nth)
    then show "?ys ! j = rev ?xs ! j" using ys[OF \<open>j < ?n\<close>] arg_cong[OF that, of "\<lambda>xs. xs ! j"]
      by (simp split: if_splits)
  qed (simp add: assms mem)
  then have "?ys = rev ?xs \<longleftrightarrow> rev ?xs = ?xs" using pal by (metis rev_rev_ident)
  with pal half show ?thesis by (simp add: reverse_def)
qed

theorem reverse_in_place_mirrors_witness:
  "reverse \<lparr>sl_off = 0, sl_len = 2\<rparr> \<lparr>sl_off = 0, sl_len = 2\<rparr> [1, 2] = Inr [1, 1] \<and>
   (\<exists>mem'. reverse \<lparr>sl_off = 0, sl_len = 2\<rparr> \<lparr>sl_off = 0, sl_len = 2\<rparr> [1, 2] = Inr mem' \<and>
      contents mem' \<lparr>sl_off = 0, sl_len = 2\<rparr> \<noteq> [2, 1])"
  using reverse_in_place_mirrors[of "[1, 2]" "\<lparr>sl_off = 0, sl_len = 2\<rparr>"]
  by (simp add: in_array_def contents_def reverse_def reverse_loop.simps sl_set_def sl_get_def)

text \<open>
  \<open>randomBytes\<close> returns nil exactly when the reader it uses, the one it is given or else that of
  the system, reports no error and as many bytes as the buffer has; its own error has a verb
  without an operand in its text.
\<close>

theorem randomBytes_nil_iff:
  "(snd (randomBytes crand reader buff) = None \<longleftrightarrow>
     (case (case reader of None \<Rightarrow> crand | Some r \<Rightarrow> r) (length buff) of (data, n, err) \<Rightarrow> err = None \<and> n = int (length buff))) \<and>
   Sprintf fillBuff_format [] = Some ''Could not read %!d(MISSING) bytes from reader''"
proof -
  have fmt: "Sprintf fillBuff_format [] = Some ''Could not read %!d(MISSING) bytes from reader''" by code_simp
  then show ?thesis by (auto simp: randomBytes_def fillBuff_def fmt split: option.splits prod.splits)
qed

section \<open>exists\<close>

definition exists_file :: "fs \<Rightarrow> string \<Rightarrow> bool" where
  "exists_file fs fname = (os_Stat fs fname \<noteq> Some Not_exist)"

text \<open>The command and the configuration see the same files.\<close>

lemma exists_agree: "exists_file fs p \<longleftrightarrow> fst (exists_path fs p)"
  by (auto simp: exists_file_def exists_path_def split: option.splits fs_error.splits)

end
