(* ===== verification/Util_Encoding.thy ===== *)
theory Util_Encoding
  imports Go_Codec
begin

text \<open>
  util/encoding.go: points and scalars as hexadecimal and base64 text. The cryptographic suite is a
  third-party package: what the code uses of it (the size of a marshalled value, \<open>MarshalBinary\<close>,
  \<open>UnmarshalBinary\<close> on a fresh value, the suite's own \<open>Read\<close> and \<open>Write\<close>) is the record
  \<open>group_ops\<close>, an argument of every operation. Points and scalars have the same code, once for
  \<open>suite.Point()\<close> and once for \<open>suite.Scalar()\<close>; each function of the source is a definition.
\<close>

section \<open>Readers, writers and the suite\<close>

text \<open>
  One call of \<open>Read\<close> with a buffer of \<open>n\<close> bytes: the bytes it filled and its error.
  \<open>strings_reader\<close> is a \<open>strings.Reader\<close> at its start.
\<close>

type_synonym 'e reader = "nat \<Rightarrow> bytes \<times> 'e option"

datatype ('e, 's) enc_error = Read_error 'e | Not_enough | Hex_error hex_error | Suite_error 's

datatype io_EOF = IO_EOF

definition strings_reader :: "string \<Rightarrow> io_EOF reader" where
  "strings_reader s n = (if s = [] then ([], Some IO_EOF) else (take n (string_bytes s), None))"

text \<open>
  The arguments of \<open>suite.Write\<close> are values or slices of them. \<open>write\<close> gives the bytes written
  until it ends and its error; \<open>read\<close> reads from the bytes of a stream with their end.
\<close>

datatype 'p object = Value 'p | Slice "'p object list"

record ('p, 's) group_ops =
  MarshalSize :: nat
  MarshalBinary :: "'p \<Rightarrow> bytes \<times> 's option"
  UnmarshalBinary :: "bytes \<Rightarrow> 'p \<times> 's option"
  suite_read :: "bytes \<times> stream_end \<Rightarrow> 'p \<times> 's option"
  suite_write :: "'p object list \<Rightarrow> bytes \<times> 's option"

section \<open>Hexadecimal\<close>

text \<open>
  \<open>getHex\<close>: the buffer of \<open>2 * len\<close> bytes is zero where \<open>Read\<close> did not fill it, and the check
  is \<open>l < len\<close>.
\<close>

definition getHex :: "'e reader \<Rightarrow> nat \<Rightarrow> ('e, 's) enc_error + bytes" where
  "getHex r n =
     (case r (2 * n) of
        (_, Some e) \<Rightarrow> Inl (Read_error e)
      | (got, None) \<Rightarrow>
          if length got < n then Inl Not_enough
          else (case hex_Decode (got @ replicate (2 * n - length got) 0) of
                  Inl e \<Rightarrow> Inl (Hex_error e)
                | Inr b \<Rightarrow> Inr b))"

text \<open>The result of \<open>UnmarshalBinary\<close> is dropped.\<close>

definition ReadHexPoint :: "('p, 's) group_ops \<Rightarrow> 'e reader \<Rightarrow> ('e, 's) enc_error + 'p" where
  "ReadHexPoint g r = (case getHex r (MarshalSize g) of Inl e \<Rightarrow> Inl e | Inr b \<Rightarrow> Inr (fst (UnmarshalBinary g b)))"

definition ReadHexScalar :: "('p, 's) group_ops \<Rightarrow> 'e reader \<Rightarrow> ('e, 's) enc_error + 'p" where
  "ReadHexScalar g r = (case getHex r (MarshalSize g) of Inl e \<Rightarrow> Inl e | Inr b \<Rightarrow> Inr (fst (UnmarshalBinary g b)))"

text \<open>\<open>w\<close> is the \<open>Write\<close> of the writer. The result is what was handed to it, and the error.\<close>

definition WriteHexPoint :: "('p, 's) group_ops \<Rightarrow> (string \<Rightarrow> 's option) \<Rightarrow> 'p \<Rightarrow> string option \<times> 's option" where
  "WriteHexPoint g w p =
     (case MarshalBinary g p of
        (_, Some e) \<Rightarrow> (None, Some e)
      | (b, None) \<Rightarrow> (Some (hex_encode b), w (hex_encode b)))"

definition WriteHexScalar :: "('p, 's) group_ops \<Rightarrow> (string \<Rightarrow> 's option) \<Rightarrow> 'p \<Rightarrow> string option \<times> 's option" where
  "WriteHexScalar g w s =
     (case MarshalBinary g s of
        (_, Some e) \<Rightarrow> (None, Some e)
      | (b, None) \<Rightarrow> (Some (hex_encode b), w (hex_encode b)))"

definition PointToStringHex :: "('p, 's) group_ops \<Rightarrow> 'p \<Rightarrow> string \<times> 's option" where
  "PointToStringHex g p = (case MarshalBinary g p of (b, e) \<Rightarrow> (hex_encode b, e))"

definition StringHexToPoint :: "('p, 's) group_ops \<Rightarrow> string \<Rightarrow> (io_EOF, 's) enc_error + 'p" where
  "StringHexToPoint g s = ReadHexPoint g (strings_reader s)"

definition ScalarToStringHex :: "('p, 's) group_ops \<Rightarrow> 'p \<Rightarrow> string \<times> 's option" where
  "ScalarToStringHex g x = (case MarshalBinary g x of (b, e) \<Rightarrow> (hex_encode b, e))"

definition StringHexToScalar :: "('p, 's) group_ops \<Rightarrow> string \<Rightarrow> (io_EOF, 's) enc_error + 'p" where
  "StringHexToScalar g s = ReadHexScalar g (strings_reader s)"

section \<open>Base64\<close>

text \<open>
  \<open>write64\<close> through \<open>base64.NewEncoder\<close> on a writer that takes everything, such as a
  \<open>bytes.Buffer\<close>. Its variadic argument is handed to \<open>suite.Write\<close> as one slice. On an error
  the encoder is not closed, and the bytes of the last group that is not complete stay in it.
\<close>

definition write64 :: "('p, 's) group_ops \<Rightarrow> 'p object list \<Rightarrow> string \<times> 's option" where
  "write64 g args =
     (case suite_write g [Slice args] of
        (b, Some e) \<Rightarrow> (b64_encode (take (3 * (length b div 3)) b), Some e)
      | (b, None) \<Rightarrow> (b64_encode b, None))"

definition Write64Point :: "('p, 's) group_ops \<Rightarrow> 'p \<Rightarrow> string \<times> 's option" where
  "Write64Point g p = write64 g [Value p]"

definition Write64Scalar :: "('p, 's) group_ops \<Rightarrow> 'p \<Rightarrow> string \<times> 's option" where
  "Write64Scalar g x = write64 g [Value x]"

definition Read64Point :: "('p, 's) group_ops \<Rightarrow> string \<Rightarrow> 'p \<times> 's option" where
  "Read64Point g s = suite_read g (b64_stream s)"

definition Read64Scalar :: "('p, 's) group_ops \<Rightarrow> string \<Rightarrow> 'p \<times> 's option" where
  "Read64Scalar g s = suite_read g (b64_stream s)"

definition PointToString64 :: "('p, 's) group_ops \<Rightarrow> 'p \<Rightarrow> string \<times> 's option" where
  "PointToString64 g p = (case MarshalBinary g p of (b, e) \<Rightarrow> (b64_encode b, e))"

definition String64ToPoint :: "('p, 's) group_ops \<Rightarrow> string \<Rightarrow> 'p \<times> 's option" where
  "String64ToPoint g s = Read64Point g s"

definition ScalarToString64 :: "('p, 's) group_ops \<Rightarrow> 'p \<Rightarrow> string \<times> 's option" where
  "ScalarToString64 g x = (case MarshalBinary g x of (b, e) \<Rightarrow> (b64_encode b, e))"

definition String64ToScalar :: "('p, 's) group_ops \<Rightarrow> string \<Rightarrow> 'p \<times> 's option" where
  "String64ToScalar g s = Read64Scalar g s"

section \<open>Properties\<close>

lemma hex_encode_nonempty: "b \<noteq> [] \<Longrightarrow> hex_encode b \<noteq> []"
  by (rule hex.enc_empty) (simp_all add: hex_encode_def)

lemma getHex_strings:
  "getHex (strings_reader s) n = (Inr b :: (io_EOF, 's) enc_error + bytes) \<longleftrightarrow>
     s \<noteq> [] \<and> 2 * n \<le> length s \<and> hex_Decode (take (2 * n) (string_bytes s)) = Inr b"
proof (cases "s \<noteq> [] \<and> length s < 2 * n")
  case True
  then show ?thesis using hex_Decode_padded[of "2 * n - length s" "string_bytes s"]
    by (auto simp: getHex_def strings_reader_def split: sum.splits)
next
  case False
  then show ?thesis by (auto simp: getHex_def strings_reader_def split: sum.splits)
qed

text \<open>
  \<open>getHex\<close> on a string is exactly the decoding of its first \<open>2 * len\<close> characters: although it
  compares the number of characters read with \<open>len\<close> only, it never accepts a string that is too
  short, since the part of the buffer that was not filled is not hexadecimal.
\<close>

theorem getHex_exact:
  "getHex (strings_reader s) n = (Inr b :: (io_EOF, 's) enc_error + bytes) \<longleftrightarrow>
     s \<noteq> [] \<and> 2 * n \<le> length s \<and> hex_DecodeString (take (2 * n) s) = Inr b"
  by (simp add: getHex_strings hex_DecodeString_def string_bytes_def take_map)

text \<open>
  Round trip: a point that the suite marshals to as many bytes as it announces, and that it
  unmarshals again, is what \<open>StringHexToPoint\<close> reads from the text of \<open>PointToStringHex\<close>, also with
  other text after it; and the same holds of scalars.
\<close>

theorem hex_point_roundtrip:
  fixes g :: "('p, 's) group_ops"
  assumes "MarshalBinary g p = (b, None)" and "length b = MarshalSize g" and "b \<noteq> []"
    and "UnmarshalBinary g b = (p, None)"
  shows "PointToStringHex g p = (hex_encode b, None) \<and> StringHexToPoint g (hex_encode b @ rest) = Inr p \<and>
    ScalarToStringHex g p = (hex_encode b, None) \<and> StringHexToScalar g (hex_encode b @ rest) = Inr p"
proof -
  have "getHex (strings_reader (hex_encode b @ rest)) (MarshalSize g) = (Inr b :: (io_EOF, 's) enc_error + bytes)"
    using assms(2,3) hex_encode_nonempty[of b]
    by (simp add: getHex_strings string_bytes_def take_map[symmetric] hex_Decode_encode[unfolded string_bytes_def])
  then show ?thesis using assms(1,4)
    by (simp add: PointToStringHex_def StringHexToPoint_def ScalarToStringHex_def StringHexToScalar_def
        ReadHexPoint_def ReadHexScalar_def)
qed

text \<open>A group whose values are bytes, of which only the even ones unmarshal without an error.\<close>

definition byte_group :: "(byte, string) group_ops" where
  "byte_group = \<lparr>MarshalSize = 1, MarshalBinary = (\<lambda>p. ([p], None)),
     UnmarshalBinary = (\<lambda>b. (hd b, if even (unat (hd b)) then None else Some ''not a point'')),
     suite_read = (\<lambda>(b, e). if b = [] then (0, Some ''EOF'') else (hd b, None)),
     suite_write = (\<lambda>os. case os of [Slice [Value p]] \<Rightarrow> ([p], None) | _ \<Rightarrow> ([], Some ''unsupported''))\<rparr>"

theorem hex_point_roundtrip_witness:
  "PointToStringHex byte_group 42 = (''2a'', None) \<and> StringHexToPoint byte_group ''2a!!'' = Inr 42"
proof -
  have "hex_encode [42] = ''2a''" by code_simp
  then show ?thesis using hex_point_roundtrip[of byte_group 42 "[42]" "''!!''"] by (simp add: byte_group_def)
qed

text \<open>
  \<open>ReadHexPoint\<close> drops the error of \<open>UnmarshalBinary\<close>: whenever the text is hexadecimal of the
  right length, it returns a point and no error, also when the suite refuses the bytes.
\<close>

theorem ReadHexPoint_ignores_unmarshal:
  fixes g :: "('p, 's) group_ops"
  assumes "length b = MarshalSize g" and "b \<noteq> []" and "UnmarshalBinary g b = (q, Some e)"
  shows "StringHexToPoint g (hex_encode b) = Inr q"
proof -
  have "getHex (strings_reader (hex_encode b)) (MarshalSize g) = (Inr b :: (io_EOF, 's) enc_error + bytes)"
    using assms(1,2) hex_encode_nonempty[of b] by (simp add: getHex_strings)
  then show ?thesis using assms(3) by (simp add: StringHexToPoint_def ReadHexPoint_def)
qed

theorem ReadHexPoint_ignores_unmarshal_witness:
  "snd (UnmarshalBinary byte_group [7]) = Some ''not a point'' \<and> StringHexToPoint byte_group (hex_encode [7]) = Inr 7"
  using ReadHexPoint_ignores_unmarshal[of "[7]" byte_group 7 "''not a point''"] by (simp add: byte_group_def)

text \<open>
  Round trip in base64: what the suite writes of a point, and reads again as that point, is what
  \<open>Read64Point\<close> reads from the text of \<open>Write64Point\<close>.
\<close>

theorem base64_point_roundtrip:
  assumes "suite_write g [Slice [Value p]] = (b, None)" and "suite_read g (b, EOF) = (p, None)"
  shows "snd (Write64Point g p) = None \<and> Read64Point g (fst (Write64Point g p)) = (p, None) \<and>
    snd (Write64Scalar g p) = None \<and> Read64Scalar g (fst (Write64Scalar g p)) = (p, None)"
  using assms by (simp add: Write64Point_def Read64Point_def Write64Scalar_def Read64Scalar_def write64_def)

theorem base64_point_roundtrip_witness:
  "Read64Point byte_group (fst (Write64Point byte_group 42)) = (42, None)"
  using base64_point_roundtrip[of byte_group 42 "[42]"] by (simp add: byte_group_def)

end
