(* ===== verification/Old_Pgp.thy ===== *)
theory Old_Pgp
  imports Client_Keys
begin

text \<open>
  old/pgp/keys.go: keys made and exported by the program \<open>gpg\<close>, and the conversions of Ed25519 keys.
  The program, the OpenPGP package and the cryptographic packages are arguments; the temporary files
  are the state.
\<close>

section \<open>The batch file\<close>

record GpgKeyInfo =
  gk_Name :: string
  gk_Comment :: string
  gk_Email :: string

abbreviation nl :: string where "nl \<equiv> [CHR 0x0A]"

definition Batch :: "GpgKeyInfo \<Rightarrow> string" where
  "Batch g =
     ''%'' @ ''no-protection'' @ nl @
     ''Key-Type: eddsa'' @ nl @
     ''Key-Curve: Ed25519'' @ nl @
     ''Name-Real: '' @ gk_Name g @ nl @
     ''Name-Comment: '' @ gk_Comment g @ nl @
     ''Name-Email: '' @ gk_Email g @ nl @
     ''Expire-Date: 1y'' @ nl @
     ''%'' @ ''commit'' @ nl @
     ''%'' @ ''echo gpg: mulsigo keygen done''"

section \<open>Running gpg\<close>

text \<open>
  \<open>createKey\<close>. \<open>tmp\<close> is the result of \<open>TempFile\<close>, \<open>wr\<close> and \<open>cl\<close> the errors of writing and closing
  the file; \<open>gpg\<close> is the program: from its arguments and the files to its output and its error. The
  file is removed when the function returns. On an error before \<open>gpg\<close> runs there is no output.
\<close>

definition createKey ::
  "'e + string \<Rightarrow> 'e option \<Rightarrow> 'e option \<Rightarrow> (string list \<Rightarrow> (string, string) gomap \<Rightarrow> bytes \<times> 'e option) \<Rightarrow>
     string \<Rightarrow> GpgKeyInfo \<Rightarrow> (string, string) gomap \<Rightarrow> (bytes option \<times> 'e option) \<times> (string, string) gomap" where
  "createKey tmp wr cl gpg homedir g files =
     (case tmp of
        Inl e \<Rightarrow> ((None, Some e), files)
      | Inr f \<Rightarrow>
          (let removed = AList.delete f (AList.update f [] files)
           in case wr of
                Some e \<Rightarrow> ((None, Some e), removed)
              | None \<Rightarrow>
                  (let files' = AList.update f (Batch g) (AList.update f [] files)
                   in case cl of
                        Some e \<Rightarrow> ((None, Some e), AList.delete f files')
                      | None \<Rightarrow>
                          (case gpg [''--homedir'', homedir, ''--expert'', ''--full-gen-key'', ''--batch'', f] files' of
                             (out, err) \<Rightarrow> ((Some out, err), AList.delete f files')))))"

text \<open>\<open>readKey\<close>; \<open>read\<close> is \<open>packet.Read\<close>, and a packet is a private key or another one.\<close>

datatype ('e, 'k) read_error = Gpg_error 'e | Packet_error 'e | Not_private 'k

definition readKey ::
  "(string list \<Rightarrow> bytes \<times> 'e option) \<Rightarrow> (bytes \<Rightarrow> 'e + 'k) \<Rightarrow> ('k \<Rightarrow> bool) \<Rightarrow> string \<Rightarrow> ('e, 'k) read_error + 'k" where
  "readKey gpg read is_private homedir =
     (case gpg [''--homedir'', homedir, ''--export-secret-keys''] of
        (_, Some e) \<Rightarrow> Inl (Gpg_error e)
      | (out, None) \<Rightarrow>
          (case read out of
             Inl e \<Rightarrow> Inl (Packet_error e)
           | Inr p \<Rightarrow> if is_private p then Inr p else Inl (Not_private p)))"

section \<open>Conversions\<close>

text \<open>
  \<open>scalarFromSeed\<close>: \<open>SetBytes\<close> of the first half of the digest, after the three assignments to
  it; \<open>None\<close> when slicing the key panics.
\<close>

definition scalarFromSeed :: "(bytes \<Rightarrow> bytes) \<Rightarrow> (bytes \<Rightarrow> 's) \<Rightarrow> bytes \<Rightarrow> 's option" where
  "scalarFromSeed sha512 setBytes priv =
     (if length priv < 32 then None
      else let d0 = sha512 (take 32 priv);
               d1 = d0[0 := d0 ! 0 AND 248];
               d2 = d1[31 := d1 ! 31 AND 127];
               d3 = d2[31 := d2 ! 31 OR 64]
           in Some (setBytes (take 32 d3)))"

definition pgp_PrivateToCurve25519 :: "(bytes \<Rightarrow> bytes) \<Rightarrow> bytes \<Rightarrow> bytes" where
  "pgp_PrivateToCurve25519 convert p = convert (copy_array 64 p)"

definition pgp_PublicToCurve25519 :: "(bytes \<Rightarrow> bytes option) \<Rightarrow> bytes \<Rightarrow> bytes option" where
  "pgp_PublicToCurve25519 convert p = convert (copy_array 32 p)"

section \<open>Properties\<close>

text \<open>
  \<open>createKey\<close> cleans up and runs \<open>gpg\<close> on its batch: whatever fails, the temporary file is gone
  and no other file has changed, and there is an output exactly when \<open>gpg\<close> has run, on a file with the
  batch in it.
\<close>

theorem createKey_cleans_up:
  assumes "map_of files f = None"
  shows "(\<forall>x. map_of (snd (createKey (Inr f) wr cl gpg homedir g files)) x = map_of files x) \<and>
    fst (createKey (Inr f) wr cl gpg homedir g files) =
      (if wr \<noteq> None then (None, wr) else if cl \<noteq> None then (None, cl)
       else map_prod Some id (gpg [''--homedir'', homedir, ''--expert'', ''--full-gen-key'', ''--batch'', f] (files @ [(f, Batch g)])))"
proof -
  have "AList.update f v files = files @ [(f, v)]" for v using assms by (rule update_new_append)
  moreover from this have "AList.update f (Batch g) (files @ [(f, [])]) = files @ [(f, Batch g)]" by (metis update_twice)
  moreover have "map_of (AList.delete f (files @ [(f, v)])) x = map_of files x" for v x
    using assms by (auto simp: lookup_delete map_of_append map_add_def split: option.splits)
  ultimately show ?thesis by (auto simp: createKey_def Let_def split: option.splits prod.splits)
qed

definition demo_info :: GpgKeyInfo where
  "demo_info = \<lparr>gk_Name = ''a'', gk_Comment = [], gk_Email = []\<rparr>"

definition demo_create :: "(bytes option \<times> unit option) \<times> (string, string) gomap" where
  "demo_create = createKey (Inr ''/tmp/1'') None None (\<lambda>args fs. ([7], None)) ''/h'' demo_info [(''/tmp/0'', ''x'')]"

theorem createKey_cleans_up_witness:
  "map_of (snd demo_create) ''/tmp/1'' = None \<and> map_of (snd demo_create) ''/tmp/0'' = Some ''x'' \<and> fst demo_create = (Some [7], None)"
  using createKey_cleans_up[of "[(''/tmp/0'', ''x'')]" "''/tmp/1''" "None :: unit option" None "\<lambda>args fs. ([7], None)" "''/h''" demo_info]
  by (simp add: demo_create_def)

text \<open>The lines of the batch, when the fields have no line ends in them.\<close>

definition batch_lines :: "GpgKeyInfo \<Rightarrow> string list" where
  "batch_lines g =
    [''%no-protection'', ''Key-Type: eddsa'', ''Key-Curve: Ed25519'', ''Name-Real: '' @ gk_Name g,
     ''Name-Comment: '' @ gk_Comment g, ''Name-Email: '' @ gk_Email g, ''Expire-Date: 1y'', ''%commit'',
     ''%echo gpg: mulsigo keygen done'']"

theorem Batch_lines:
  assumes "\<forall>s \<in> {gk_Name g, gk_Comment g, gk_Email g}. CHR 0x0A \<notin> set s"
  shows "strings_split (Batch g) nl = batch_lines g"
proof -
  have "strings_split (strings_join nl xs) nl = xs" if "xs \<noteq> []" "list_all (\<lambda>s. CHR 0x0A \<notin> set s) xs" for xs
    using that
  proof (induction xs rule: induct_list012)
    case (2 x)
    then show ?case by (simp add: split_no_sep sublist_def in_set_conv_decomp)
  next
    case (3 x y zs)
    then show ?case by (simp add: strings_split_def split_aux_char_append)
  qed simp
  moreover have "batch_lines g \<noteq> []" "list_all (\<lambda>s. CHR 0x0A \<notin> set s) (batch_lines g)"
    using assms by (simp_all add: batch_lines_def)
  moreover have "Batch g = strings_join nl (batch_lines g)" by (simp add: Batch_def batch_lines_def)
  ultimately show ?thesis by metis
qed

end
