(* ===== verification/Spec2Isabelle.thy ===== *)
theory Spec2Isabelle
  imports Event_Bus Net_Hosts Relay_Network Client_Calls Client_Group Client_Files Cmd_Main Main_Util Slog
    Util_Encoding Util_Names Old_Pgp
begin

text \<open>
  A verification of mulsigo, a tool for joint PGP signatures: clients that hold shares of a key talk to
  each other through a relay, which forwards what they send and which they do not trust. The
  development follows the packages of the repository; the file names below are relative to src/.

  \<^bold>\<open>The parts and how they interact.\<close>
  A host of package network accepts and opens connections, over TCP or inside the process; a router
  keeps the connections, has one goroutine for each that decodes messages and dispatches them, and
  publishes events on the bus of package event. The relay is a processor of that router: a message
  names a channel, the channel has a goroutine that admits at most \<open>ChannelSize\<close> clients and forwards
  what a member sends to the others. On the other side a multiplexer shares one connection to the relay
  among the channels of a client. Over the channel of a pair of clients lies a noise stream (encryption)
  and over that a reliable stream (stop and wait); the router of package client opens these streams, and
  the driver of the distributed key generation uses that router. The command line makes and lists keys
  in folders of a configuration.

  \<^bold>\<open>Theories, in the order of imports.\<close>
  \<^item> \<open>Go_Prelude\<close>: Go's built-in types (\<open>uint32\<close>, \<open>uint64\<close> and bytes as words, maps as association
    lists), the functions of package strings, and the lemmas and collections the others share.
    \<open>Go_Chan\<close>: buffered channels; an operation happens, blocks or panics; the locale \<open>fifo\<close> and its
    interpretation. \<open>Go_Codec\<close>: hexadecimal and base 64, both interpretations of the locale
    \<open>text_codec\<close>. \<open>Go_Fmt\<close>: Sprintf and Sprintln. \<open>Go_Path\<close>: Clean, Join and Rel. \<open>Go_Os\<close>: a
    file system with directories, permissions and the system calls the configuration makes.
    \<open>Go_Steps\<close>: the locale \<open>simulation\<close> between step relations, interpreted by the relay and by the
    clients.
  \<^item> \<open>Event_Bus\<close> (event/event.go): the dispatcher as a record of a map; locale \<open>publisher\<close>, whose laws
    are those of a set of subscribers per event.
  \<^item> \<open>Net_Address\<close> (network/address.go, GlobalBind), \<open>Net_Encoding\<close> (network/encoding.go, locale
    \<open>encoder\<close>, interpreted by both encoders), \<open>Net_Dispatch\<close> (network/dispatch.go, locale
    \<open>dispatcher\<close>, interpreted by both dispatchers), \<open>Net_Tcp\<close> and \<open>Net_Listener\<close> (network/tcp.go:
    framing, dialling and binding; the accept loop beside Stop as a step relation), \<open>Net_Local\<close>
    (network/local.go: connections are objects of a store, with their goroutines), \<open>Net_Router\<close>
    (network/router.go), \<open>Net_Hosts\<close> (hosts, the default manager, routers over a host) and \<open>Net_Stack\<close>
    (the goroutine of a TCP connection, from the bytes to the processor).
  \<^item> \<open>Relay_Messages\<close> (relay/relay.pb.go), \<open>Relay_Server\<close> (relay/relay.go: state \<open>Relay\<close>, one
    definition per handler and per branch of the goroutine, and the relation \<open>relay_step\<close> of all
    their interleavings), \<open>Relay_Client\<close> (relay/channel.go: \<open>Multiplexer\<close> and \<open>clientChannel\<close>),
    \<open>Relay_Network\<close> (the relay on its router and the multiplexer on a TCP connection).
  \<^item> \<open>Client_Keys\<close> (client/keys.go), \<open>Client_Reliable\<close> and \<open>Client_Noise\<close> (client/stream.go,
    client/messages.go), \<open>Client_Router\<close> (client/router.go), \<open>Client_Factory\<close> (the stream factory of
    client/stream.go and NonBlockingRouter), \<open>Client_Stack\<close> (the streams on top of each other and the
    relay between two of them), \<open>Client_Session\<close> (two clients and a relay that may do anything),
    \<open>Client_Calls\<close> (from the messages of one client to the calls of processors at the other),
    \<open>Client_Dkg\<close> (client/dkg.go), \<open>Client_Generation\<close> (one participant of it, with \<open>Run\<close> beside the
    handlers) and \<open>Client_Group\<close> (all participants, and the messages in transit between them), \<open>Client_Files\<close> (client/file.go, object.go, hash.go, client.go).
  \<^item> \<open>Util_Encoding\<close>, \<open>Util_Config\<close>, \<open>Util_Names\<close> (util/encoding.go, config.go and
    names-generator.go), \<open>Slog\<close> (slog/log.go), \<open>Main_Util\<close> (util.go), \<open>Cmd\<close> (cmd/*.go: what
    the commands run), \<open>Cmd_Main\<close> (main.go and the commands themselves: one run of the program),
    \<open>Old_Pgp\<close> (old/pgp/keys.go).
  \<^item> This theory: the relay and its clients together.

  \<^bold>\<open>How state and effects are modelled.\<close>
  A struct is a record whose fields carry a short prefix of its type. Objects that several places
  point to (connections, client channels, buffers) are entries of a list and pointers are their
  indices. A goroutine is cut into steps where it can wait or where its lock is released; a component
  with goroutines has an inductive step relation, a predicate of reachable states and an invariant
  proved by rule induction. Errors are values of sum or option types, panics are \<open>None\<close> or
  \<open>Panics\<close>, an operation that waits is \<open>Blocks\<close>. Integers keep their width where the code can
  overflow them: sequence numbers and frame sizes are 32 bits, traffic counters 64. What third-party
  code does (protobuf, noise, kyber, TOML, cobra, viper, gpg, sockets) is an argument of the definitions, and what a
  theorem needs of it is a premise with a witness.

  \<^bold>\<open>What is shown.\<close>
  \<^item> Relay: the relay and a specification with rooms do the same things, step by step and in both
    directions; a room keeps its members and the requests that wait for it, and an action of the rooms names its
    cause, the message of a client, a lost connection or the request that is served. The bounds hold, no
    handler panics; a deadlock that the code has is reachable. The multiplexer hands each message to
    its channel. Here: the answer to a join and a broadcast message reach the client they are for, and
    the refusal of one channel too many does not.
  \<^item> Reliable stream: over a network that loses, repeats and reorders, what \<open>receive\<close> has returned with
    what waits for it in \<open>dataCh\<close> is a subsequence of what was sent, and nothing that was acknowledged is
    missing, for fewer than \<open>2 ^ 32\<close> messages; a send ends within its budget of rounds. Noise: the ciphers of
    both ends are paired after the handshake, and a lost message ends the stream above. Factory: two streams to each other meet on one
    channel with opposite roles. Stack: through all layers and the relay, every sequence of messages
    can be exchanged, with each receive returning what was sent and each send returning nil. Session: in
    every interleaving of two clients and a relay that may give them anything, the clients simulate a
    session of reliable streams, so that what one hands to its \<open>receive\<close> and keeps for it is a subsequence of
    what the other sent and nothing that was acknowledged is missing; it needs only that the cipher accepts nothing else than what the
    other end encrypted. From there the router calls the processors of a client with a subsequence of the
    messages of the other.
  \<^item> Key generation: a participant whose broadcasts do not fail never gets its share, one in whose broadcasts a
    send fails can; every run of a group in which no send fails ends, and nobody has a share. A stream to
    oneself, which a broadcast to all participants asks for, waits in its handshake for ever, as nobody on its
    channel ever sends, unless strangers make it give up.
  \<^item> Network: frames round-trip for every segmentation of the bytes and every partial write; encoders
    and addresses round-trip; local connections are queues; the router's wait group, map and handlers
    agree, with registering, launching, leaving the wait group and removing as steps of their own, between which
    \<open>Stop\<close> can come; every long enough run makes a waiting \<open>Stop\<close> of a TCP listener return, not before the
    accept loop has ended, but a second loop outlives it. From end to end, the
    messages of one host make the router of the other call the right processors in order; a relay and a
    multiplexer over TCP handle exactly each other's messages.
  \<^item> Bus and dispatchers: refinement of sets of subscribers; the last registration wins.
  \<^item> Keys and configuration: clamped scalars, the self-signature binds all signed fields, written
    values are read back, a generated key is confined to its folder however the command ends; a run of the
    program that makes a key is followed by one that lists it. Old PGP code: the temporary file of the batch is
    removed on every path.
  \<^item> Helpers: \<open>reverse\<close> of two separate buffers is list reversal, the decision of the HTTP pattern,
    a random name is found.
  \<^item> Where the code does not do what its comments say, the theorem states what it does.

  \<^bold>\<open>Bounds, fuel and termination.\<close>
  Loops are recursive functions with a proof of termination: on the events a socket delivers, the
  bytes left to send, the rounds of \<open>MaxRetryConnect\<close> and \<open>MaxIncorrectMessages\<close>, or the index of a
  buffer. The loop of the names generator, which may draw the same rejected name for ever, is a partial
  function, and it is shown to return once another name is drawn. No definition takes fuel: the
  numbers the dialling loops of network/local.go count down are their own bounds. The capacities of queues are those of the source.

  \<^bold>\<open>Not modelled.\<close>
  The parsing of the command line by cobra and of its file by viper, and the system's answer to
  \<open>user.Current\<close> (parameters); \<open>Config.List\<close> (filepath.Glob; nothing calls it); the compressed descriptor of
  relay.pb.go, its registration and the printing of its messages; interfaces, which declare no behaviour, and
  types without operations (\<open>connStreamFactory\<close>, \<open>connQueue\<close>); the constructors given to the protobuf package; the
  commented code at the end of relay/channel.go; log messages of the network layer; and time: a timeout is
  an event that may happen.
\<close>

section \<open>The client and the relay together\<close>

text \<open>The channel of the witnesses, and a relay channel with the same identifier and two clients.\<close>

definition lobby :: channel where
  "lobby = (newChannel ''abcde'')\<lparr>ch_clients := [(''tcp://10.0.0.4:1'', True), (''tcp://10.0.0.4:2'', True)]\<rparr>"

lemma lobby_ok: "channel_ok ''abcde'' lobby"
  using newChannel_ok[of "''abcde''"] by (simp add: lobby_def channel_ok_def wf_map_def ChannelSize_def newChannel_def)

lemma one_channel_egress: "egress_of one_channel 0 = []" "map_of (mx_channels one_channel) ''abcde'' = Some 0"
  by (simp_all add: one_channel_def egress_of_def newClientChannel_def make_chan_def)

text \<open>
  C9. Joining end to end: the one answer the relay gives to a join goes to the client that asked, the
  multiplexer of the client hands it to the channel that waits for it, and \<open>join\<close> returns nil exactly
  when the client is now a member of the relay's channel.
\<close>

theorem join_end_to_end:
  assumes "channel_ok i ch" and "mux_reachable m" and "map_of (mx_channels m) i = Some p" and "egress_of m p = []"
  shows "\<exists>reply m1. snd (addClient ch c) = [(c, reply)] \<and> mux_routine m (Inr (Relay_msg reply)) = Go_on m1 \<and>
    (snd (join_wait m1 p) = None \<longleftrightarrow> c \<in> members (fst (addClient ch c)))"
proof -
  let ?ok = "c \<in> members ch \<or> length (ch_clients ch) < ChannelSize"
  let ?reply = "join_response_msg (ch_id ch) (if ?ok then \<lparr>jr_status = OK, jr_reason = []\<rparr>
      else \<lparr>jr_status = FAILURE, jr_reason = ''channel: can't join a full channel''\<rparr>)"
  have mem: "map_of (ch_clients ch) c = None \<longleftrightarrow> c \<notin> members ch" by (simp add: members_def lookup_None_key)
  have add: "snd (addClient ch c) = [(c, ?reply)]" "c \<in> members (fst (addClient ch c)) \<longleftrightarrow> ?ok"
    using mem keys_update[of c True "ch_clients ch"]
    by (auto simp: addClient_def Let_def members_def simp del: not_None_eq)
  have "rm_channel ?reply = i" using assms(1) by (simp add: msg_defs channel_ok_def)
  then obtain m1 where m1: "mux_routine m (Inr (Relay_msg ?reply)) = Go_on m1" "egress_of m1 p = [?reply]"
    using mux_routine_delivers[OF assms(2-4)] by blast
  from egress_recv[OF m1(2)] have "snd (join_wait m1 p) = None \<longleftrightarrow> ?ok"
    by (simp add: join_wait_def join_answer_def msg_defs GetStatus_def)
  with add m1(1) show ?thesis by (intro exI[of _ ?reply] exI[of _ m1]) simp
qed

theorem join_end_to_end_witness:
  "\<exists>reply m1. snd (addClient lobby ''tcp://10.0.0.4:3'') = [(''tcp://10.0.0.4:3'', reply)] \<and>
     mux_routine one_channel (Inr (Relay_msg reply)) = Go_on m1 \<and>
     (snd (join_wait m1 0) = None \<longleftrightarrow> ''tcp://10.0.0.4:3'' \<in> members (fst (addClient lobby ''tcp://10.0.0.4:3'')))"
  using join_end_to_end[OF lobby_ok one_channel_reachable one_channel_egress(2,1)] .

text \<open>
  C10. Broadcasting end to end: what a member of a channel sends reaches every other member
  unchanged, through the relay's goroutine, the multiplexer of the receiver and \<open>Receive\<close> of its
  channel; the sender's address is not passed on.
\<close>

theorem broadcast_end_to_end:
  assumes "channel_ok i ch" and "a \<in> members ch" and "c \<in> members ch" and "c \<noteq> a"
    and "mux_reachable m" and "map_of (mx_channels m) i = Some p" and "egress_of m p = []"
    and "chan_recv (ch_incoming ch) = Happens (Some \<lparr>mi_address = a, mi_msg = rm_ingress (ingress_msg i blob)\<rparr>, q)"
  shows "\<exists>ch' sends rm m1 c'. (ch', sends) \<in> set (select_cases ch) \<and> (c, rm) \<in> set sends \<and>
    mux_routine m (Inr (Relay_msg rm)) = Go_on m1 \<and> (c', Inr ([], blob)) \<in> set (cc_Receive (mx_objs m1 ! p))"
proof -
  let ?info = "\<lparr>mi_address = a, mi_msg = rm_ingress (ingress_msg i blob)\<rparr>"
  let ?ch = "ch\<lparr>ch_incoming := q\<rparr>" and ?rm = "egress_msg i blob"
  have blob: "Ingress_GetBlob (rm_ingress (ingress_msg i blob)) = blob" by (simp add: Ingress_GetBlob_def msg_defs)
  have sel: "(?ch, broadcast ?ch ?info) \<in> set (select_cases ch)"
    using assms(8) by (simp add: select_cases_def)
  have "channel_ok i ?ch" using assms(1,8) by (auto simp: channel_ok_def dest: queue_ok_recv)
  from broadcast_refines(1)[OF this, of ?info] have "(c, ?rm) \<in> set (broadcast ?ch ?info)"
    using assms(2-4) blob by (auto simp: members_def)
  moreover obtain m1 where m1: "mux_routine m (Inr (Relay_msg ?rm)) = Go_on m1" "egress_of m1 p = [?rm]"
    using mux_routine_delivers[OF assms(5-7), of ?rm] by (auto simp: msg_defs)
  moreover have "((mx_objs m1 ! p)\<lparr>cc_egress := (cc_egress (mx_objs m1 ! p))\<lparr>chan_buf := []\<rparr>\<rparr>, Inr ([], blob)) \<in> set (cc_Receive (mx_objs m1 ! p))"
    using egress_recv[OF m1(2)] by (simp add: cc_Receive_def msg_defs Egress_GetAddress_def Egress_GetBlob_def)
  ultimately show ?thesis using sel by blast
qed

definition lobby_says :: channel where
  "lobby_says = lobby\<lparr>ch_incoming := (ch_incoming lobby)\<lparr>chan_buf :=
     [\<lparr>mi_address = ''tcp://10.0.0.4:1'', mi_msg = rm_ingress (ingress_msg ''abcde'' [42])\<rparr>]\<rparr>\<rparr>"

theorem broadcast_end_to_end_witness:
  "\<exists>ch' sends rm m1 c'. (ch', sends) \<in> set (select_cases lobby_says) \<and> (''tcp://10.0.0.4:2'', rm) \<in> set sends \<and>
     mux_routine one_channel (Inr (Relay_msg rm)) = Go_on m1 \<and> (c', Inr ([], [42])) \<in> set (cc_Receive (mx_objs m1 ! 0))"
proof -
  have ok: "channel_ok ''abcde'' lobby_says"
    using lobby_ok by (simp add: lobby_says_def channel_ok_def queue_ok_def wf_chan_def ChannelQueueSize_def)
  have mem: "''tcp://10.0.0.4:1'' \<in> members lobby_says" "''tcp://10.0.0.4:2'' \<in> members lobby_says"
    by (simp_all add: lobby_says_def lobby_def members_def)
  have recv: "chan_recv (ch_incoming lobby_says) =
      Happens (Some \<lparr>mi_address = ''tcp://10.0.0.4:1'', mi_msg = rm_ingress (ingress_msg ''abcde'' [42])\<rparr>, ch_incoming lobby)"
    by (simp add: lobby_says_def lobby_def chan_recv_def newChannel_def make_chan_def)
  show ?thesis by (rule broadcast_end_to_end[OF ok mem _ one_channel_reachable one_channel_egress(2,1) recv]) simp
qed

text \<open>
  C39. The refusal of a new channel is lost: the relay answers a join that would need one channel
  too many with a message that names no channel, every multiplexer drops it, and the join of a client that gets
  nothing else ends with its timeout instead of the reason.
\<close>

theorem too_many_channels_unseen:
  assumes "relay_reachable r" and "length (rl_channels r) > MaxChannel" and "i \<noteq> []" and "map_of (rl_channels r) i = None"
    and "mux_reachable m" and "map_of (mx_channels m) i = Some p" and "egress_of m p = []"
  shows "\<exists>reply. rl_out (relay_Process r src (Relay_msg (plain_msg i JOIN))) = rl_out r @ [(src, reply)] \<and>
    mux_routine m (Inr (Relay_msg reply)) = Go_on m \<and> snd (join_wait m p) = Some ErrJoinTimeout"
proof -
  have inv: "mux_inv m" by (rule mux_reachable_inv[OF assms(5)])
  then have "map_of (mx_channels m) [] = None"
    by (auto simp: mux_inv_def all_entries_def list_all_iff entry_ok_def map_of_eq_None_iff)
  then have "mux_routine m (Inr (Relay_msg too_many_channels)) = Go_on m"
    by (simp add: mux_routine_def too_many_channels_def msg_defs)
  moreover have "p < length (mx_objs m)" using inv assms(6) by (auto simp: mux_inv_def entry_ok_def dest: all_entries_lookup)
  then have "\<not> chan_closed (cc_egress (mx_objs m ! p))" using cc_ok_nth[OF inv] by (simp add: cc_ok_def)
  then have "snd (join_wait m p) = Some ErrJoinTimeout"
    using assms(7) by (simp add: join_wait_def join_answer_def chan_recv_def egress_of_def)
  ultimately show ?thesis using assms(2-4) by (simp add: relay_Process_def msg_defs)
qed

theorem too_many_channels_unseen_witness:
  "\<exists>reply. rl_out (relay_Process (with_channels (Suc MaxChannel)) ''tcp://10.0.0.4:9'' (Relay_msg (plain_msg ''abcde'' JOIN))) =
      rl_out (with_channels (Suc MaxChannel)) @ [(''tcp://10.0.0.4:9'', reply)] \<and>
    mux_routine one_channel (Inr (Relay_msg reply)) = Go_on one_channel"
proof -
  have len: "length (rl_channels (with_channels (Suc MaxChannel))) > MaxChannel" by (simp add: with_channels_def)
  have fresh: "map_of (rl_channels (with_channels (Suc MaxChannel))) ''abcde'' = None"
    by (auto simp: with_channels_def lookup_None_key nth_name_def)
  from too_many_channels_unseen[OF with_channels_reachable len _ fresh one_channel_reachable one_channel_egress(2,1)]
  show ?thesis by auto
qed

end
